(* ===== verification/Prelude.thy ===== *)
theory Prelude
  imports Main "HOL-Library.Word" "HOL-Library.AList"
begin

text \<open>
  Shared ground of the development: how a C++ call ends (\<open>run\<close>), C strings in a byte buffer,
  the association lists that stand for \<open>std::unordered_map<std::string, std::string>\<close>, the
  conversions between machine integers and bytes, and the collections of facts the component
  theories share.
\<close>

section \<open>Collections\<close>

named_theorems run_simps "evaluation of the outcome of a call"
named_theorems wf_intros "operations that keep a component's invariant"
named_theorems bytes_simps "big-endian lengths and C strings"

section \<open>How a call ends\<close>

text \<open>
  A call returns, throws a C++ exception, or ends the process: an access out of the bounds of an
  object, a null dereference, an access to a deleted object, the use of a pointer that was never set, a
  failed \<open>assert\<close>, an exception that nothing catches and a call of \<open>exit(EXIT_FAILURE)\<close> are different faults. Exceptions carry
  what the handlers of the program distinguish: \<open>pqxx::sql_error\<close> is caught by its own handlers,
  everything else only as \<open>std::exception\<close>.
\<close>

datatype fault = OutOfBounds | NullDeref | UseAfterFree | Uninitialised | AssertFail | Terminate | ExitFailure

datatype exn = SqlError string | StdException string

datatype 'a run = Ret 'a | Throw exn | Crash fault

fun bind_run :: "'a run \<Rightarrow> ('a \<Rightarrow> 'b run) \<Rightarrow> 'b run" where
  "bind_run (Ret x) f = f x"
| "bind_run (Throw e) f = Throw e"
| "bind_run (Crash c) f = Crash c"

lemma bind_run_cong [fundef_cong]:
  "m = m' \<Longrightarrow> (\<And>x. m' = Ret x \<Longrightarrow> f x = g x) \<Longrightarrow> bind_run m f = bind_run m' g"
  by (cases m') auto

lemma bind_run_Ret [run_simps]: "bind_run m f = Ret y \<longleftrightarrow> (\<exists>x. m = Ret x \<and> f x = Ret y)"
  by (cases m) auto

lemma bind_run_Crash [run_simps]:
  "bind_run m f = Crash c \<longleftrightarrow> m = Crash c \<or> (\<exists>x. m = Ret x \<and> f x = Crash c)"
  by (cases m) auto

lemma bind_run_Throw [run_simps]:
  "bind_run m f = Throw e \<longleftrightarrow> m = Throw e \<or> (\<exists>x. m = Ret x \<and> f x = Throw e)"
  by (cases m) auto

lemma map_run_Ret [run_simps]: "map_run f m = Ret y \<longleftrightarrow> (\<exists>x. m = Ret x \<and> f x = y)"
  by (cases m) auto

definition returns :: "'a run \<Rightarrow> bool" where
  "returns m \<longleftrightarrow> (\<exists>x. m = Ret x)"

definition no_crash :: "'a run \<Rightarrow> bool" where
  "no_crash m \<longleftrightarrow> (\<forall>c. m \<noteq> Crash c)"

lemma no_crash_simps [simp]:
  "no_crash (Ret x)" "no_crash (Throw e)" "\<not> no_crash (Crash c)"
  by (auto simp: no_crash_def)

lemma no_crash_bind:
  "no_crash m \<Longrightarrow> (\<And>x. m = Ret x \<Longrightarrow> no_crash (f x)) \<Longrightarrow> no_crash (bind_run m f)"
  by (cases m) auto

lemma returns_simps [simp]: "returns (Ret x)" "\<not> returns (Throw e)" "\<not> returns (Crash c)"
  by (auto simp: returns_def)

section \<open>Bytes and C strings\<close>

text \<open>A C++ \<open>char\<close> is one byte; a \<open>std::vector<char>\<close> and a \<open>std::string\<close> are lists of bytes.\<close>

abbreviation NUL :: char where "NUL \<equiv> CHR 0x00"
abbreviation SQ :: char where "SQ \<equiv> CHR 0x27"
abbreviation DQ :: char where "DQ \<equiv> CHR 0x22"

definition cstr :: "string \<Rightarrow> string" where
  \<comment> \<open>what a \<open>const char*\<close> to these bytes denotes: up to the first NUL\<close>
  "cstr s = takeWhile (\<lambda>c. c \<noteq> NUL) s"

definition cstr_at :: "string \<Rightarrow> nat \<Rightarrow> string run" where
  \<comment> \<open>\<open>std::string(data + pos)\<close>: a scan that finds no NUL leaves the object\<close>
  "cstr_at b pos =
     (if NUL \<in> set (drop pos b) then Ret (cstr (drop pos b)) else Crash OutOfBounds)"

definition byte_at :: "string \<Rightarrow> nat \<Rightarrow> char run" where
  "byte_at b i = (if i < length b then Ret (b ! i) else Crash OutOfBounds)"

lemma cstr_no_NUL [simp, bytes_simps]: "NUL \<notin> set s \<Longrightarrow> cstr s = s"
  by (induction s) (auto simp: cstr_def)

lemma cstr_append_NUL [simp, bytes_simps]: "NUL \<notin> set s \<Longrightarrow> cstr (s @ NUL # r) = s"
  by (induction s) (auto simp: cstr_def)

lemma NUL_not_in_cstr [simp]: "NUL \<notin> set (cstr s)"
  by (auto simp: cstr_def dest: set_takeWhileD)

lemma length_cstr_le: "length (cstr s) \<le> length s"
  by (simp add: cstr_def length_takeWhile_le)

lemma length_cstr_less: "NUL \<in> set s \<Longrightarrow> length (cstr s) < length s"
  by (induction s) (auto simp: cstr_def)

lemma cstr_Cons: "c \<noteq> NUL \<Longrightarrow> cstr (c # s) = c # cstr s"
  by (simp add: cstr_def)

lemma byte_at_Ret [simp]: "i < length b \<Longrightarrow> byte_at b i = Ret (b ! i)"
  by (simp add: byte_at_def)

lemma byte_at_Crash: "length b \<le> i \<Longrightarrow> byte_at b i = Crash OutOfBounds"
  by (simp add: byte_at_def)

section \<open>Machine integers and bytes\<close>

definition to_int32 :: "int \<Rightarrow> int" where
  \<comment> \<open>conversion to a 32-bit \<open>int\<close>\<close>
  "to_int32 x = sint (word_of_int x :: 32 word)"

lemma to_int32_id [simp]: "0 \<le> x \<Longrightarrow> x < 2 ^ 31 \<Longrightarrow> to_int32 x = x"
  by (simp add: to_int32_def sint_sbintrunc' signed_take_bit_int_eq_self)

definition be32 :: "nat \<Rightarrow> string" where
  \<comment> \<open>\<open>push_back(n >> 24); push_back(n >> 16); push_back(n >> 8); push_back(n)\<close>: each keeps 8 bits\<close>
  "be32 n = [char_of (n div 2 ^ 24), char_of (n div 2 ^ 16), char_of (n div 2 ^ 8), char_of n]"

fun rd32 :: "string \<Rightarrow> nat option" where
  "rd32 (a # b # c # d # r) =
     Some (of_char a * 2 ^ 24 + of_char b * 2 ^ 16 + of_char c * 2 ^ 8 + of_char d)"
| "rd32 _ = None"

lemma length_be32 [simp]: "length (be32 n) = 4"
  by (simp add: be32_def)

lemma split_256: "(n::nat) < 2 ^ 32 \<Longrightarrow>
  n div 2 ^ 24 mod 256 * 2 ^ 24 + n div 2 ^ 16 mod 256 * 2 ^ 16 + n div 2 ^ 8 mod 256 * 2 ^ 8 + n mod 256 = n"
proof -
  assume n: "n < 2 ^ 32"
  have a: "n div 2 ^ 8 * 256 + n mod 256 = n" by simp
  have b: "n div 2 ^ 16 * 256 + n div 2 ^ 8 mod 256 = n div 2 ^ 8"
    using div_mult_mod_eq [of "n div 2 ^ 8" 256] by (simp add: div_mult2_eq [symmetric])
  have c: "n div 2 ^ 24 * 256 + n div 2 ^ 16 mod 256 = n div 2 ^ 16"
    using div_mult_mod_eq [of "n div 2 ^ 16" 256] by (simp add: div_mult2_eq [symmetric])
  have d: "n div 2 ^ 24 mod 256 = n div 2 ^ 24" using n by simp
  have e: "(x::nat) * 2 ^ 24 = x * 256 * 256 * 256" "x * 2 ^ 16 = x * 256 * 256" "x * 2 ^ 8 = x * 256" for x
    by simp_all
  show ?thesis unfolding d e using a b c by linarith
qed

lemma rd32_be32 [bytes_simps]: "n < 2 ^ 32 \<Longrightarrow> rd32 (be32 n @ r) = Some n"
  using split_256 [of n] by (simp add: be32_def)

section \<open>String maps\<close>

text \<open>
  \<open>std::unordered_map<std::string, std::string>\<close> as an association list without repeated keys;
  \<open>operator[]\<close> inserts an empty string under a key that is not there.
\<close>

type_synonym smap = "(string \<times> string) list"

definition smap_has :: "smap \<Rightarrow> string \<Rightarrow> bool" where
  "smap_has m k \<longleftrightarrow> map_of m k \<noteq> None"

definition smap_put :: "smap \<Rightarrow> string \<Rightarrow> string \<Rightarrow> smap" where
  "smap_put m k v = AList.update k v m"

definition smap_get :: "smap \<Rightarrow> string \<Rightarrow> string" where
  \<comment> \<open>the value \<open>m[k]\<close> reads\<close>
  "smap_get m k = (case map_of m k of None \<Rightarrow> [] | Some v \<Rightarrow> v)"

definition smap_touch :: "smap \<Rightarrow> string \<Rightarrow> smap" where
  \<comment> \<open>the map after \<open>m[k]\<close> was evaluated\<close>
  "smap_touch m k = (if smap_has m k then m else smap_put m k [])"

lemma smap_put_get [simp]: "smap_get (smap_put m k v) k' = (if k' = k then v else smap_get m k')"
  by (simp add: smap_get_def smap_put_def update_conv)

lemma smap_put_has [simp]: "smap_has (smap_put m k v) k' \<longleftrightarrow> k' = k \<or> smap_has m k'"
  by (auto simp: smap_has_def smap_put_def update_conv)

lemma smap_touch_get [simp]: "smap_get (smap_touch m k) k' = smap_get m k'"
  by (auto simp: smap_touch_def smap_get_def smap_has_def smap_put_def update_conv)

lemma smap_touch_has [simp]: "smap_has (smap_touch m k) k' \<longleftrightarrow> k' = k \<or> smap_has m k'"
  by (auto simp: smap_touch_def)

lemma smap_has_Nil [simp]: "\<not> smap_has [] k"
  by (simp add: smap_has_def)

lemma smap_get_Nil [simp]: "smap_get [] k = []"
  by (simp add: smap_get_def)

end
