(* ===== verification/Buffer.thy ===== *)
theory Buffer
  imports Prelude
begin

text \<open>
  \<open>conn/buffer.{h,cpp}\<close>: the byte buffer a session receives into and sends from. The kernel side
  of a non-blocking socket is the list of what its next \<open>recv\<close> calls find; an empty list means
  nothing has arrived, which a non-blocking \<open>recv\<close> reports as \<open>EAGAIN\<close>.
\<close>

section \<open>Sockets\<close>

datatype sock_ev = Bytes string | Eof | SockErr int

type_synonym sock = "sock_ev list"

datatype recv_res = Got string | RecvFail int

definition EAGAIN :: int where "EAGAIN = 11"

fun recv_call :: "nat \<Rightarrow> sock \<Rightarrow> recv_res \<times> sock" where
  \<comment> \<open>\<open>recv(socket, p, n, 0)\<close>: at most n of the bytes that have arrived; 0 bytes at the end of the stream\<close>
  "recv_call n [] = (RecvFail EAGAIN, [])"
| "recv_call n (Eof # es) = (Got [], Eof # es)"
| "recv_call n (SockErr e # es) = (RecvFail e, es)"
| "recv_call n (Bytes s # es) = (Got (take n s), if n < length s then Bytes (drop n s) # es else es)"

fun arrived :: "sock \<Rightarrow> string" where
  \<comment> \<open>the bytes before the first end of stream or error\<close>
  "arrived (Bytes s # es) = (if s = [] then [] else s @ arrived es)"
| "arrived _ = []"

fun sock_load :: "sock \<Rightarrow> nat" where
  "sock_load [] = 0"
| "sock_load (Bytes s # es) = Suc (length s) + sock_load es"
| "sock_load (e # es) = Suc (sock_load es)"

lemma recv_call_load: "recv_call n es = (Got c, es') \<Longrightarrow> c \<noteq> [] \<Longrightarrow> sock_load es' < sock_load es"
  by (cases "(n, es)" rule: recv_call.cases) (auto split: if_splits)

lemma recv_call_length: "recv_call n es = (Got c, es') \<Longrightarrow> length c \<le> n"
  by (cases "(n, es)" rule: recv_call.cases) (auto split: if_splits)

lemma recv_call_arrived: "recv_call n es = (Got c, es') \<Longrightarrow> c \<noteq> [] \<Longrightarrow> arrived es = c @ arrived es'"
  by (cases "(n, es)" rule: recv_call.cases) (auto split: if_splits)

section \<open>The buffer\<close>

record Buffer =
  buf :: string
  buf_size :: nat
  data_size :: nat

definition DEFAULT_SIZE :: nat where "DEFAULT_SIZE = 1024"

definition Buffer_new :: Buffer where
  "Buffer_new = \<lparr>buf = replicate (2 * DEFAULT_SIZE) NUL, buf_size = DEFAULT_SIZE, data_size = 0\<rparr>"

definition Buffer_Size :: "Buffer \<Rightarrow> nat" where
  "Buffer_Size b = data_size b"

definition resize :: "string \<Rightarrow> nat \<Rightarrow> string" where
  \<comment> \<open>\<open>std::vector<char>::resize\<close>\<close>
  "resize xs n = take n xs @ replicate (n - length xs) NUL"

definition content :: "Buffer \<Rightarrow> string" where
  "content b = take (data_size b) (buf b)"

definition prepare :: "Buffer \<Rightarrow> Buffer" where
  \<comment> \<open>the branch for a buffer that \<open>SetQuery\<close> or \<open>SetError\<close> has filled by hand\<close>
  "prepare b =
     (if buf_size b = 0
      then let n = (if DEFAULT_SIZE < data_size b then 2 * DEFAULT_SIZE else DEFAULT_SIZE)
           in b\<lparr>buf_size := n, buf := resize (buf b) (2 * n)\<rparr>
      else b)"

definition put_bytes :: "Buffer \<Rightarrow> string \<Rightarrow> Buffer" where
  "put_bytes b c =
     b\<lparr>buf := take (data_size b) (buf b) @ c @ drop (data_size b + length c) (buf b),
       data_size := data_size b + length c\<rparr>"

definition grow :: "Buffer \<Rightarrow> Buffer" where
  "grow b =
     (if buf_size b < data_size b
      then b\<lparr>buf_size := 2 * buf_size b, buf := resize (buf b) (2 * (2 * buf_size b))\<rparr>
      else b)"

function recv_loop :: "Buffer \<Rightarrow> sock \<Rightarrow> (Buffer \<times> int \<times> int option \<times> sock) run" where
  "recv_loop b es =
     (case recv_call (buf_size b) es of
        (RecvFail e, es') \<Rightarrow>
          Ret (b, (if e = EAGAIN then to_int32 (int (data_size b)) else -1), Some e, es')
      | (Got c, es') \<Rightarrow>
          if c = [] then Ret (b, to_int32 (int (data_size b)), None, es')
          else if length (buf b) < data_size b + length c then Crash OutOfBounds
          else recv_loop (grow (put_bytes b c)) es')"
  by pat_completeness auto
termination
  by (relation "measure (\<lambda>(b, es). sock_load es)") (auto dest: recv_call_load [OF sym])

definition RecvFrom :: "Buffer \<Rightarrow> sock \<Rightarrow> (Buffer \<times> int \<times> int option \<times> sock) run" where
  \<comment> \<open>the buffer, the returned int, errno when the last \<open>recv\<close> failed, what is left in the socket\<close>
  "RecvFrom b es = recv_loop (prepare b) es"

datatype send_res = SendOk nat | SendFail int

definition SendTo :: "Buffer \<Rightarrow> send_res \<Rightarrow> int \<times> string" where
  \<comment> \<open>one \<open>send\<close> of the data: the returned int and the bytes the kernel took\<close>
  "SendTo b r =
     (case r of
        SendOk n \<Rightarrow> (to_int32 (int (min n (data_size b))), take n (content b))
      | SendFail e \<Rightarrow> (-1, []))"

declare recv_loop.simps [simp del]

section \<open>The buffer invariant\<close>

text \<open>
  Half of the vector is always free: a receive of \<open>buf_size\<close> bytes fits behind the data, and
  everything behind the data is still zero.
\<close>

definition buf_ok :: "Buffer \<Rightarrow> bool" where
  "buf_ok b \<longleftrightarrow> 0 < buf_size b \<and> data_size b \<le> buf_size b \<and> length (buf b) = 2 * buf_size b
     \<and> drop (data_size b) (buf b) = replicate (2 * buf_size b - data_size b) NUL"

lemma buf_ok_new [wf_intros, simp]: "buf_ok Buffer_new"
  unfolding buf_ok_def Buffer_new_def by (simp add: DEFAULT_SIZE_def)

lemma content_new [simp]: "content Buffer_new = []"
  by (simp add: content_def Buffer_new_def)

lemma buf_ok_content: "buf_ok b \<Longrightarrow> length (content b) = data_size b"
  by (simp add: buf_ok_def content_def)

lemma buf_ok_split: "buf_ok b \<Longrightarrow> buf b = content b @ replicate (2 * buf_size b - data_size b) NUL"
  unfolding content_def buf_ok_def
  by (metis append_take_drop_id)

lemma buf_ok_zero: "buf_ok b \<Longrightarrow> data_size b \<le> i \<Longrightarrow> i < length (buf b) \<Longrightarrow> buf b ! i = NUL"
proof -
  assume ok: "buf_ok b" and i: "data_size b \<le> i" "i < length (buf b)"
  have "buf b ! i = drop (data_size b) (buf b) ! (i - data_size b)"
    using i by simp
  also have "\<dots> = replicate (2 * buf_size b - data_size b) NUL ! (i - data_size b)"
    using ok by (simp only: buf_ok_def)
  also have "\<dots> = NUL" using i ok by (intro nth_replicate) (auto simp: buf_ok_def)
  finally show ?thesis .
qed

lemma prepare_ok [simp]: "buf_ok b \<Longrightarrow> prepare b = b"
  by (simp add: buf_ok_def prepare_def)

lemma length_resize [simp]: "length (resize xs n) = n"
  by (simp add: resize_def)

lemma put_bytes_fits: "buf_ok b \<Longrightarrow> length c \<le> buf_size b \<Longrightarrow> data_size b + length c \<le> length (buf b)"
  by (simp add: buf_ok_def)

lemma drop_put_bytes:
  assumes "buf_ok b" "length c \<le> buf_size b"
  shows "drop (data_size b + length c) (buf (put_bytes b c))
         = replicate (2 * buf_size b - (data_size b + length c)) NUL"
proof -
  have "drop (data_size b + length c) (buf b) = drop (length c) (drop (data_size b) (buf b))"
    by (simp add: add.commute)
  also have "\<dots> = replicate (2 * buf_size b - (data_size b + length c)) NUL"
    using assms unfolding buf_ok_def by (metis diff_diff_left drop_replicate)
  finally show ?thesis using assms by (simp add: put_bytes_def buf_ok_def)
qed

lemma length_put_bytes:
  "buf_ok b \<Longrightarrow> length c \<le> buf_size b \<Longrightarrow> length (buf (put_bytes b c)) = 2 * buf_size b"
  by (simp add: put_bytes_def buf_ok_def)

lemma data_size_put_bytes [simp]: "data_size (put_bytes b c) = data_size b + length c"
  and buf_size_put_bytes [simp]: "buf_size (put_bytes b c) = buf_size b"
  by (simp_all add: put_bytes_def)

lemma grow_simps [simp]: "data_size (grow b) = data_size b"
  by (simp add: grow_def)

lemma content_put_bytes:
  assumes "buf_ok b" "length c \<le> buf_size b"
  shows "content (grow (put_bytes b c)) = content b @ c"
proof -
  have "take (data_size b + length c) (buf (put_bytes b c)) = content b @ c"
    using assms by (simp add: put_bytes_def buf_ok_def content_def)
  then show ?thesis
    using assms length_put_bytes [OF assms]
    by (auto simp: content_def grow_def resize_def buf_ok_def)
qed

lemma buf_ok_grow_put:
  assumes "buf_ok b" "length c \<le> buf_size b"
  shows "buf_ok (grow (put_bytes b c))"
proof (cases "buf_size b < data_size b + length c")
  case True
  let ?n = "data_size b + length c" and ?p = "put_bytes b c"
  have "drop ?n (resize (buf ?p) (4 * buf_size b)) = replicate (4 * buf_size b - ?n) NUL"
    using drop_put_bytes [OF assms] length_put_bytes [OF assms] assms
    by (auto simp: resize_def buf_ok_def replicate_add [symmetric])
  with True assms show ?thesis
    by (simp add: buf_ok_def grow_def)
next
  case False
  with assms drop_put_bytes [OF assms] length_put_bytes [OF assms] show ?thesis
    by (simp add: buf_ok_def grow_def)
qed

section \<open>Receiving\<close>

definition recv_result :: "Buffer \<Rightarrow> int option \<Rightarrow> int" where
  "recv_result b en =
     (if en = None \<or> en = Some EAGAIN then to_int32 (int (data_size b)) else -1)"

lemma recv_loop_ok:
  "buf_ok b \<Longrightarrow> \<exists>b' en es'. recv_loop b es = Ret (b', recv_result b' en, en, es') \<and> buf_ok b'
     \<and> content b' = content b @ arrived es"
proof (induction b es rule: recv_loop.induct)
  case (1 b es)
  obtain r es' where r: "recv_call (buf_size b) es = (r, es')" by fastforce
  show ?case
  proof (cases r)
    case (RecvFail e)
    have "arrived es = []"
      using r RecvFail by (cases "(buf_size b, es)" rule: recv_call.cases) (auto split: if_splits)
    then show ?thesis
      using "1.prems" r RecvFail by (auto simp: recv_loop.simps [of b es] recv_result_def)
  next
    case (Got c)
    show ?thesis
    proof (cases "c = []")
      case True
      have "arrived es = []"
        using r Got True "1.prems"
        by (cases "(buf_size b, es)" rule: recv_call.cases) (auto split: if_splits simp: buf_ok_def)
      with True show ?thesis
        using "1.prems" r Got by (auto simp: recv_loop.simps [of b es] recv_result_def)
    next
      case False
      have c: "length c \<le> buf_size b" using recv_call_length r Got by blast
      note fits = put_bytes_fits [OF "1.prems" c]
      note ok = buf_ok_grow_put [OF "1.prems" c]
      have "arrived es = c @ arrived es'" using recv_call_arrived r Got False by blast
      moreover have "recv_loop b es = recv_loop (grow (put_bytes b c)) es'"
        using r Got False fits by (simp add: recv_loop.simps [of b es])
      ultimately show ?thesis
        using "1.IH" [OF r [symmetric] Got False _ ok] fits content_put_bytes [OF "1.prems" c]
        by auto
    qed
  qed
qed

lemma RecvFrom_ok:
  assumes "buf_ok b"
  obtains b' en es' where "RecvFrom b es = Ret (b', recv_result b' en, en, es')" "buf_ok b'"
    "content b' = content b @ arrived es"
  using recv_loop_ok [OF assms, of es] assms by (auto simp: RecvFrom_def)

section \<open>The interface a connection relies on\<close>

text \<open>
  A connection calls \<open>RecvFrom\<close> each time its socket is readable, on the same buffer until the
  message is complete. What it needs of the buffer is one law: from a well-formed buffer a receive
  returns, keeps the buffer well-formed and appends exactly what had arrived.
\<close>

fun recv_many :: "('b \<Rightarrow> sock \<Rightarrow> ('b \<times> int \<times> int option \<times> sock) run) \<Rightarrow> 'b \<Rightarrow> sock list \<Rightarrow> 'b run" where
  "recv_many recv b [] = Ret b"
| "recv_many recv b (es # ess) = bind_run (recv b es) (\<lambda>(b', _, _, _). recv_many recv b' ess)"

locale receiver =
  fixes recv :: "'b \<Rightarrow> sock \<Rightarrow> ('b \<times> int \<times> int option \<times> sock) run"
    and ok :: "'b \<Rightarrow> bool"
    and held :: "'b \<Rightarrow> string"
  assumes recv_appends: "ok b \<Longrightarrow> \<exists>b' r en es'. recv b es = Ret (b', r, en, es') \<and> ok b'
      \<and> held b' = held b @ arrived es"
begin

lemma recv_returns: "ok b \<Longrightarrow> returns (recv b es)"
  using recv_appends [of b es] by (auto simp: returns_def)

lemma recv_keeps: "ok b \<Longrightarrow> recv b es = Ret (b', r, en, es') \<Longrightarrow> ok b' \<and> held b' = held b @ arrived es"
  using recv_appends [of b es] by auto

lemma recv_many_appends:
  "ok b \<Longrightarrow> \<exists>b'. recv_many recv b ess = Ret b' \<and> ok b' \<and> held b' = held b @ concat (map arrived ess)"
proof (induction ess arbitrary: b)
  case Nil
  then show ?case by simp
next
  case (Cons es ess)
  from recv_appends [OF Cons.prems] obtain b1 r en es'
    where b1: "recv b es = Ret (b1, r, en, es')" "ok b1" "held b1 = held b @ arrived es" by blast
  from Cons.IH [OF b1(2)] b1 show ?case by auto
qed

end

interpretation buffer_recv: receiver RecvFrom buf_ok content
  by unfold_locales (rule RecvFrom_ok, assumption, blast)

section \<open>Buffers filled by hand\<close>

text \<open>
  \<open>SetQuery\<close> and \<open>SetError\<close> leave a vector that holds exactly the data and \<open>buf_size = 0\<close>.
\<close>

definition by_hand :: "Buffer \<Rightarrow> bool" where
  "by_hand b \<longleftrightarrow> buf_size b = 0 \<and> length (buf b) = data_size b"

lemma content_by_hand [simp]: "by_hand b \<Longrightarrow> content b = buf b"
  by (simp add: by_hand_def content_def)

lemma prepare_by_hand_ok:
  "by_hand b \<Longrightarrow> data_size b \<le> 2 * DEFAULT_SIZE \<Longrightarrow> buf_ok (prepare b) \<and> content (prepare b) = buf b"
  by (auto simp: by_hand_def prepare_def buf_ok_def content_def resize_def DEFAULT_SIZE_def Let_def)

lemma by_hand_overflow:
  assumes "by_hand b" "2 * DEFAULT_SIZE < data_size b"
  shows "RecvFrom b [Bytes (replicate (2 * DEFAULT_SIZE) c)] = Crash OutOfBounds"
proof -
  have p: "buf_size (prepare b) = 2 * DEFAULT_SIZE" "data_size (prepare b) = data_size b"
    "length (buf (prepare b)) = 4 * DEFAULT_SIZE"
    using assms by (auto simp: by_hand_def prepare_def DEFAULT_SIZE_def Let_def)
  have "replicate (2 * DEFAULT_SIZE) c \<noteq> []" by (simp add: DEFAULT_SIZE_def)
  then show ?thesis
    using p assms(2) by (simp add: RecvFrom_def recv_loop.simps [of "prepare b"])
qed

section \<open>Properties\<close>

text \<open>C27. Whatever arrives on a socket, in however many receives, a new buffer takes all of it in order and
  never writes outside its vector; it stays fit for the next receive.\<close>
theorem receive_appends:
  "\<exists>b. recv_many RecvFrom Buffer_new ess = Ret b \<and> buf_ok b \<and> content b = concat (map arrived ess)"
  using buffer_recv.recv_many_appends [OF buf_ok_new, of ess] by simp

text \<open>C32. A buffer that was filled by hand can be received into safely exactly when it holds at most 2048
  bytes: the vector is resized to at most 4096 bytes, however many it already holds.\<close>
theorem by_hand_receive:
  assumes "by_hand b"
  shows "(\<forall>es. returns (RecvFrom b es)) \<longleftrightarrow> data_size b \<le> 2 * DEFAULT_SIZE"
proof
  assume "data_size b \<le> 2 * DEFAULT_SIZE"
  with prepare_by_hand_ok [OF assms] have "buf_ok (prepare b)" by simp
  from recv_loop_ok [OF this] show "\<forall>es. returns (RecvFrom b es)" unfolding RecvFrom_def returns_def by blast
next
  assume "\<forall>es. returns (RecvFrom b es)"
  with by_hand_overflow [OF assms] show "data_size b \<le> 2 * DEFAULT_SIZE"
    by (metis not_le_imp_less returns_simps(3))
qed

lemma by_hand_receive_witness:
  "(\<forall>es. returns (RecvFrom \<lparr>buf = ''abc'', buf_size = 0, data_size = 3\<rparr> es))
   \<longleftrightarrow> data_size \<lparr>buf = ''abc'', buf_size = 0, data_size = 3\<rparr> \<le> 2 * DEFAULT_SIZE"
  by (rule by_hand_receive) (simp add: by_hand_def)

text \<open>One call of \<open>send\<close> is made: the bytes the kernel does not take are lost, and the caller sees a
  positive result whenever it took any.\<close>
theorem send_partial:
  assumes "n < data_size b" "data_size b \<le> length (buf b)" "data_size b < 2 ^ 31"
  shows "SendTo b (SendOk n) = (int n, take n (buf b)) \<and> take n (buf b) \<noteq> content b"
proof -
  have "length (take n (buf b)) < length (content b)" using assms by (simp add: content_def)
  then have "take n (buf b) \<noteq> content b" by force
  with assms show ?thesis by (simp add: SendTo_def content_def min_def)
qed

lemma send_partial_witness:
  "SendTo \<lparr>buf = ''abc'', buf_size = 0, data_size = 3\<rparr> (SendOk 2) = (int 2, take 2 (buf \<lparr>buf = ''abc'', buf_size = 0, data_size = 3\<rparr>))
   \<and> take 2 (buf \<lparr>buf = ''abc'', buf_size = 0, data_size = 3\<rparr>) \<noteq> content \<lparr>buf = ''abc'', buf_size = 0, data_size = 3\<rparr>"
  by (rule send_partial) simp_all

end
