(* ===== verification/ErrorMap.thy ===== *)
theory ErrorMap
  imports Prelude
begin

text \<open>
  The \<open>Error\<close> class of \<open>common/error.h\<close>: a string map whose emptiness means "no error". Every
  operation that can fail returns one, and \<open>Response::SetError\<close> reads its protocol fields.
\<close>

type_synonym Error = smap

definition NoError :: Error where
  "NoError = []"

fun Error_init :: "(string \<times> string) list \<Rightarrow> Error" where
  \<comment> \<open>the initializer-list constructor: of two pairs with one key, the first stays\<close>
  "Error_init [] = []"
| "Error_init ((k, v) # ps) = (k, v) # filter (\<lambda>p. fst p \<noteq> k) (Error_init ps)"

definition Error_bool :: "Error \<Rightarrow> bool" where
  "Error_bool e \<longleftrightarrow> e \<noteq> []"

definition Error_contains :: "Error \<Rightarrow> string \<Rightarrow> bool" where
  "Error_contains e k \<longleftrightarrow> smap_has e k"

definition Error_index :: "Error \<Rightarrow> string \<Rightarrow> string \<times> Error" where
  "Error_index e k = (smap_get e k, smap_touch e k)"

definition Error_assign :: "Error \<Rightarrow> Error \<Rightarrow> Error" where
  "Error_assign this other = other"

lemma map_of_filter_key: "map_of (filter (\<lambda>p. fst p \<noteq> k) m) k' = (if k' = k then None else map_of m k')"
  by (induction m) auto

lemma map_of_Error_init: "map_of (Error_init ps) = map_of ps"
  by (induction ps rule: Error_init.induct) (auto simp: map_of_filter_key)

lemma distinct_Error_init: "distinct (map fst (Error_init ps))"
  by (induction ps rule: Error_init.induct) (auto simp: distinct_map_filter)

lemma Error_bool_simps [simp]: "\<not> Error_bool NoError" "Error_bool (p # ps)"
  by (auto simp: Error_bool_def NoError_def)

lemma Error_bool_init [simp]: "Error_bool (Error_init (p # ps))"
  by (cases p) (simp add: Error_bool_def)

lemma Error_contains_init [simp]: "Error_contains (Error_init ps) k \<longleftrightarrow> map_of ps k \<noteq> None"
  by (simp add: Error_contains_def smap_has_def map_of_Error_init)

lemma smap_get_init [simp]: "smap_get (Error_init ps) k = (case map_of ps k of None \<Rightarrow> [] | Some v \<Rightarrow> v)"
  by (simp add: smap_get_def map_of_Error_init)

end
