(* ===== verification/Message.thy ===== *)
theory Message
  imports Buffer ErrorMap
begin

text \<open>
  \<open>conn/request.h\<close> and \<open>conn/response.h\<close>: the two messages the proxy writes itself, a simple
  query and an error response, with readers for the same wire format as the specification.
\<close>

section \<open>Request::SetQuery\<close>

definition SetQuery :: "Buffer \<Rightarrow> string \<Rightarrow> Buffer" where
  "SetQuery b q =
     (let s = cstr q; m = CHR ''Q'' # be32 (length s + 5) @ s @ [NUL]
      in b\<lparr>buf := m, data_size := length m, buf_size := 0\<rparr>)"

section \<open>Response::SetError\<close>

type_synonym frame = "string \<times> 32 word"

fun put_mandatory :: "(char \<times> string option) list \<Rightarrow> frame \<Rightarrow> frame run" where
  "put_mandatory [] fr = Ret fr"
| "put_mandatory ((k, v) # kvs) (m, total_len) =
     (case v of
        None \<Rightarrow> Crash AssertFail
      | Some s \<Rightarrow> put_mandatory kvs (m @ k # s @ [NUL], total_len + word_of_nat (length s + 2)))"

fun put_optional :: "(char \<times> string option) list \<Rightarrow> frame \<Rightarrow> frame" where
  "put_optional [] fr = fr"
| "put_optional ((k, v) # kvs) (m, total_len) =
     (case v of
        None \<Rightarrow> put_optional kvs (m, total_len)
      | Some s \<Rightarrow> put_optional kvs (m @ k # s @ [NUL], total_len + word_of_nat (length s + 2)))"

definition ready_for_query_msg :: string where
  "ready_for_query_msg =
     [CHR ''Z'', CHR 0x00, CHR 0x00, CHR 0x00, CHR 0x05, CHR ''I'']"

definition SetErrorFields ::
  "Buffer \<Rightarrow> string option \<Rightarrow> string option \<Rightarrow> string option \<Rightarrow> string option \<Rightarrow> string option
   \<Rightarrow> string option \<Rightarrow> string option \<Rightarrow> Buffer run" where
  \<comment> \<open>arguments s c m f r l p as in the code; both maps iterate in the order of their keys\<close>
  "SetErrorFields b s c m f r l p =
     bind_run
       (put_mandatory [(CHR ''C'', c), (CHR ''M'', m), (CHR ''S'', s), (CHR ''V'', s)] ([], 5))
       (\<lambda>fr. let (body, total_len) =
                   put_optional [(CHR ''F'', f), (CHR ''L'', l), (CHR ''P'', p), (CHR ''R'', r)] fr;
                 msg = CHR ''E'' # be32 (unat total_len) @ body @ [NUL] @ ready_for_query_msg
             in Ret (b\<lparr>buf := msg, data_size := length msg, buf_size := 0\<rparr>))"

definition err_field :: "Error \<Rightarrow> string \<Rightarrow> string option" where
  \<comment> \<open>\<open>err.contains(k) ? err[k].c_str() : nullptr\<close>\<close>
  "err_field e k = (if Error_contains e k then Some (cstr (fst (Error_index e k))) else None)"

definition SetError :: "Buffer \<Rightarrow> Error \<Rightarrow> Buffer run" where
  "SetError b e =
     SetErrorFields b (err_field e ''S'') (err_field e ''C'') (err_field e ''M'')
       (err_field e ''F'') (err_field e ''R'') (err_field e ''L'') (err_field e ''P'')"

section \<open>The wire format, as a client reads it\<close>

fun read_query :: "string \<Rightarrow> string option" where
  \<comment> \<open>a simple query message: tag, length of what follows it, the text and its NUL\<close>
  "read_query [] = None"
| "read_query (t # r) =
     (if t = CHR ''Q'' \<and> rd32 r = Some (length r) \<and> NUL \<in> set (drop 4 r)
         \<and> length (cstr (drop 4 r)) = length r - 5
      then Some (cstr (drop 4 r)) else None)"

function read_fields :: "string \<Rightarrow> ((char \<times> string) list \<times> string) option" where
  \<comment> \<open>fields of an error response up to the byte 0, and what follows it\<close>
  "read_fields [] = None"
| "read_fields (k # r) =
     (if k = NUL then Some ([], r)
      else if NUL \<in> set r
      then map_option (\<lambda>(fs, r'). ((k, cstr r) # fs, r')) (read_fields (drop (Suc (length (cstr r))) r))
      else None)"
  by pat_completeness auto
termination
  by (relation "measure length") auto

declare read_fields.simps [simp del]

fun read_error :: "string \<Rightarrow> ((char \<times> string) list \<times> string) option" where
  \<comment> \<open>an error response whose length covers its fields, and the bytes after it\<close>
  "read_error [] = None"
| "read_error (t # r) =
     (case rd32 r of
        None \<Rightarrow> None
      | Some n \<Rightarrow>
          (if t = CHR ''E'' \<and> n \<le> length r
           then (case read_fields (drop 4 (take n r)) of
                   Some (fs, []) \<Rightarrow> Some (fs, drop n r) | _ \<Rightarrow> None)
           else None))"

definition enc_fields :: "(char \<times> string) list \<Rightarrow> string" where
  "enc_fields fs = concat (map (\<lambda>(k, v). k # v @ [NUL]) fs)"

lemma enc_fields_simps [simp]:
  "enc_fields [] = []" "enc_fields ((k, v) # fs) = k # v @ NUL # enc_fields fs"
  "enc_fields (fs @ gs) = enc_fields fs @ enc_fields gs"
  by (simp_all add: enc_fields_def)

lemma read_fields_enc [bytes_simps]:
  "\<forall>(k, v) \<in> set fs. k \<noteq> NUL \<and> NUL \<notin> set v \<Longrightarrow> read_fields (enc_fields fs @ NUL # r) = Some (fs, r)"
  by (induction fs) (auto simp: read_fields.simps)

lemma read_query_SetQuery:
  assumes "NUL \<notin> set q" "length q + 5 < 2 ^ 32"
  shows "read_query (buf (SetQuery b q)) = Some q"
  using assms rd32_be32 [of "length q + 5" "q @ [NUL]"] by (simp add: SetQuery_def)

lemma SetQuery_by_hand [wf_intros]: "by_hand (SetQuery b q)"
  by (simp add: by_hand_def SetQuery_def Let_def)

lemma SetQuery_tag: "buf (SetQuery b q) ! 0 = CHR ''Q''"
  by (simp add: SetQuery_def Let_def)

lemma drop_frame [bytes_simps]: "drop 5 (t # be32 n @ r) = r"
  by (simp add: drop_Cons')

lemma SetQuery_text: "cstr_at (buf (SetQuery b q)) 5 = Ret (cstr q)"
  by (simp add: SetQuery_def Let_def cstr_at_def drop_frame)

section \<open>Error responses\<close>

fun frame_ok :: "(char \<times> string) list \<Rightarrow> frame \<Rightarrow> bool" where
  \<comment> \<open>the bytes are the fields written so far and the length counts them\<close>
  "frame_ok fs (m, n) \<longleftrightarrow> m = enc_fields fs \<and> n = word_of_nat (5 + length m)"

lemma word_of_nat_add_len: "word_of_nat a + word_of_nat b = (word_of_nat (a + b) :: 32 word)"
  by simp

definition present :: "(char \<times> string option) list \<Rightarrow> (char \<times> string) list" where
  "present kvs = concat (map (\<lambda>(k, v). case v of None \<Rightarrow> [] | Some s \<Rightarrow> [(k, s)]) kvs)"

lemma put_mandatory_ok:
  "frame_ok fs fr \<Longrightarrow> \<forall>(k, v) \<in> set kvs. v \<noteq> None \<Longrightarrow>
     \<exists>fr'. put_mandatory kvs fr = Ret fr' \<and> frame_ok (fs @ present kvs) fr'"
proof (induction kvs fr arbitrary: fs rule: put_mandatory.induct)
  case (1 fr)
  then show ?case by (simp add: present_def)
next
  case (2 k v kvs m n)
  from 2(3) obtain s where v: "v = Some s" by auto
  have "frame_ok (fs @ [(k, s)]) (m @ k # s @ [NUL], n + word_of_nat (length s + 2))"
    using 2(2) by (auto simp: algebra_simps)
  from "2.IH" [OF v this] 2(3) v show ?case by (auto simp: present_def)
qed

lemma put_optional_ok: "frame_ok fs fr \<Longrightarrow> frame_ok (fs @ present kvs) (put_optional kvs fr)"
proof (induction kvs fr arbitrary: fs rule: put_optional.induct)
  case (1 fr)
  then show ?case by (simp add: present_def)
next
  case (2 k v kvs m n)
  show ?case
  proof (cases v)
    case None
    with 2 show ?thesis by (auto simp: present_def)
  next
    case (Some s)
    have "frame_ok (fs @ [(k, s)]) (m @ k # s @ [NUL], n + word_of_nat (length s + 2))"
      using 2(3) by (auto simp: algebra_simps)
    from "2.IH"(2) [OF Some this] Some show ?thesis by (simp add: present_def)
  qed
qed

lemma put_mandatory_missing: "(k, None) \<in> set kvs \<Longrightarrow> put_mandatory kvs fr = Crash AssertFail"
  by (induction kvs fr rule: put_mandatory.induct) (auto split: option.splits)

definition error_fields :: "string \<Rightarrow> string \<Rightarrow> string \<Rightarrow> string option \<Rightarrow> string option \<Rightarrow> string option
   \<Rightarrow> string option \<Rightarrow> (char \<times> string) list" where
  "error_fields s c m f r l p =
     [(CHR ''C'', c), (CHR ''M'', m), (CHR ''S'', s), (CHR ''V'', s)]
     @ present [(CHR ''F'', f), (CHR ''L'', l), (CHR ''P'', p), (CHR ''R'', r)]"

lemma SetErrorFields_Ret:
  "\<exists>b'. SetErrorFields b (Some s) (Some c) (Some m) f r l p = Ret b' \<and> by_hand b' \<and>
     buf b' = CHR ''E'' # be32 (unat (word_of_nat (5 + length (enc_fields (error_fields s c m f r l p))) :: 32 word))
              @ enc_fields (error_fields s c m f r l p) @ NUL # ready_for_query_msg"
proof -
  let ?man = "[(CHR ''C'', Some c), (CHR ''M'', Some m), (CHR ''S'', Some s), (CHR ''V'', Some s)]"
  let ?opt = "[(CHR ''F'', f), (CHR ''L'', l), (CHR ''P'', p), (CHR ''R'', r)]"
  have "frame_ok [] ([], 5)" by simp
  from put_mandatory_ok [OF this, of ?man] obtain fr
    where fr: "put_mandatory ?man ([], 5) = Ret fr" "frame_ok (present ?man) fr" by auto
  have "present ?man = [(CHR ''C'', c), (CHR ''M'', m), (CHR ''S'', s), (CHR ''V'', s)]"
    by (simp add: present_def)
  with put_optional_ok [OF fr(2), of ?opt]
  have ok: "frame_ok (error_fields s c m f r l p) (put_optional ?opt fr)"
    by (simp only: error_fields_def)
  obtain body n where bn: "put_optional ?opt fr = (body, n)" by fastforce
  show ?thesis
    using fr(1) bn ok unfolding SetErrorFields_def by (simp add: by_hand_def)
qed

lemma SetErrorFields_missing:
  "s = None \<or> c = None \<or> m = None \<Longrightarrow> SetErrorFields b s c m f r l p = Crash AssertFail"
proof -
  assume "s = None \<or> c = None \<or> m = None"
  then have "put_mandatory [(CHR ''C'', c), (CHR ''M'', m), (CHR ''S'', s), (CHR ''V'', s)] ([], 5)
      = Crash AssertFail"
    by (intro put_mandatory_missing [where k = "if s = None then CHR ''S'' else if c = None then CHR ''C'' else CHR ''M''"]) auto
  then show ?thesis unfolding SetErrorFields_def by (simp only: bind_run.simps)
qed

lemma err_field_None [simp]: "err_field e k = None \<longleftrightarrow> \<not> Error_contains e k"
  by (simp add: err_field_def)

lemma SetError_cases:
  "(if Error_contains e ''S'' \<and> Error_contains e ''C'' \<and> Error_contains e ''M''
    then \<exists>b'. SetError b e = Ret b' \<and> by_hand b'
    else SetError b e = Crash AssertFail)"
proof (cases "Error_contains e ''S'' \<and> Error_contains e ''C'' \<and> Error_contains e ''M''")
  case True
  then obtain s c m where "err_field e ''S'' = Some s" "err_field e ''C'' = Some c" "err_field e ''M'' = Some m"
    by (auto simp: err_field_def)
  with True show ?thesis
    using SetErrorFields_Ret [of b s c m] unfolding SetError_def by fastforce
next
  case False
  then have "err_field e ''S'' = None \<or> err_field e ''C'' = None \<or> err_field e ''M'' = None" by simp
  from SetErrorFields_missing [OF this] False show ?thesis unfolding SetError_def by simp
qed

lemma SetError_returns:
  "Error_contains e ''S'' \<Longrightarrow> Error_contains e ''C'' \<Longrightarrow> Error_contains e ''M'' \<Longrightarrow>
     \<exists>b'. SetError b e = Ret b' \<and> by_hand b'"
  using SetError_cases [of e b] by simp

lemma error_fields_ok:
  assumes "NUL \<notin> set s" "NUL \<notin> set c" "NUL \<notin> set m" "\<forall>x \<in> {f, r, l, p}. \<forall>v. x = Some v \<longrightarrow> NUL \<notin> set v"
  shows "\<forall>(k, v) \<in> set (error_fields s c m f r l p). k \<noteq> NUL \<and> NUL \<notin> set v"
  using assms by (auto simp: error_fields_def present_def split: option.splits)

lemma read_error_SetErrorFields:
  assumes nul: "NUL \<notin> set s" "NUL \<notin> set c" "NUL \<notin> set m" "\<forall>x \<in> {f, r, l, p}. \<forall>v. x = Some v \<longrightarrow> NUL \<notin> set v"
    and len: "5 + length (enc_fields (error_fields s c m f r l p)) < 2 ^ 32"
  shows "\<exists>b'. SetErrorFields b (Some s) (Some c) (Some m) f r l p = Ret b'
     \<and> read_error (buf b') = Some (error_fields s c m f r l p, ready_for_query_msg)"
proof -
  let ?e = "enc_fields (error_fields s c m f r l p)"
  let ?n = "5 + length ?e"
  have "unat (word_of_nat ?n :: 32 word) = ?n"
    unfolding unsigned_of_nat of_nat_id using len by (intro take_bit_nat_eq_self) simp
  with SetErrorFields_Ret [of b s c m f r l p] obtain b'
    where b': "SetErrorFields b (Some s) (Some c) (Some m) f r l p = Ret b'"
      "buf b' = CHR ''E'' # be32 ?n @ ?e @ NUL # ready_for_query_msg" by metis
  have "take ?n (be32 ?n @ ?e @ NUL # ready_for_query_msg) = be32 ?n @ ?e @ [NUL]"
    "drop ?n (be32 ?n @ ?e @ NUL # ready_for_query_msg) = ready_for_query_msg" by simp_all
  moreover have "read_fields (?e @ [NUL]) = Some (error_fields s c m f r l p, [])"
    by (rule read_fields_enc [OF error_fields_ok [OF nul]])
  ultimately have "read_error (buf b') = Some (error_fields s c m f r l p, ready_for_query_msg)"
    using rd32_be32 [OF len, of "?e @ NUL # ready_for_query_msg"] by (simp add: b'(2) del: rd32.simps)
  with b'(1) show ?thesis by blast
qed

section \<open>Properties\<close>

text \<open>C33. A server that reads the message \<open>SetQuery\<close> writes gets the text of the query back, for every text
  without NUL whose length fits the length field.\<close>
theorem query_roundtrip:
  assumes "NUL \<notin> set q" "length q + 5 < 2 ^ 32"
  shows "read_query (buf (SetQuery b q)) = Some q"
  using assms by (rule read_query_SetQuery)

lemma query_roundtrip_witness: "read_query (buf (SetQuery Buffer_new ''SELECT 1'')) = Some ''SELECT 1''"
  by (rule query_roundtrip) simp_all

text \<open>C34. A client that reads the message \<open>SetError\<close> writes gets all its fields back, the mandatory ones in
  the order of their tags and then the optional ones that are present, followed by the message that the
  server is ready.\<close>
theorem error_roundtrip:
  assumes "NUL \<notin> set s" "NUL \<notin> set c" "NUL \<notin> set m" "\<forall>x \<in> {f, r, l, p}. \<forall>v. x = Some v \<longrightarrow> NUL \<notin> set v"
    "5 + length (enc_fields (error_fields s c m f r l p)) < 2 ^ 32"
  shows "\<exists>b'. SetErrorFields b (Some s) (Some c) (Some m) f r l p = Ret b'
     \<and> read_error (buf b') = Some (error_fields s c m f r l p, ready_for_query_msg)"
  using assms by (rule read_error_SetErrorFields)

lemma error_roundtrip_witness:
  "\<exists>b'. SetErrorFields Buffer_new (Some ''ERROR'') (Some ''42P16'') (Some ''no id'') None (Some ''f'') None None = Ret b'
     \<and> read_error (buf b') = Some (error_fields ''ERROR'' ''42P16'' ''no id'' None (Some ''f'') None None, ready_for_query_msg)"
  by (rule error_roundtrip) (simp_all add: error_fields_def present_def)

text \<open>\<open>SetError\<close> writes a response exactly for errors with a severity, a code and a message; for any
  other error its assertion fails.\<close>
theorem error_needs_fields:
  "(if Error_contains e ''S'' \<and> Error_contains e ''C'' \<and> Error_contains e ''M''
    then \<exists>b'. SetError b e = Ret b' \<and> by_hand b'
    else SetError b e = Crash AssertFail)"
  by (rule SetError_cases)

end
