(* ===== verification/Conn.thy ===== *)
theory Conn
  imports Message
begin

text \<open>
  \<open>conn/conn.h\<close>, \<open>conn/client-conn.cpp\<close> and \<open>conn/server-conn.cpp\<close>: the two ends of a session. A connection is
  its socket; what \<open>recv\<close> and \<open>send\<close> find on it is an argument. The constructors are in \<open>ProxyServer\<close>.
\<close>

definition ClientConn_ReceiveRequest :: "Buffer \<Rightarrow> sock \<Rightarrow> (Buffer \<times> int \<times> int option \<times> sock) run" where
  [simp]: "ClientConn_ReceiveRequest request socket = RecvFrom request socket"

definition ClientConn_ForwardResponse :: "Buffer \<Rightarrow> send_res \<Rightarrow> int \<times> string" where
  [simp]: "ClientConn_ForwardResponse response socket = SendTo response socket"

definition ServerConn_ForwardRequest :: "Buffer \<Rightarrow> send_res \<Rightarrow> int \<times> string" where
  [simp]: "ServerConn_ForwardRequest request socket = SendTo request socket"

definition ServerConn_ReceiveResponse :: "Buffer \<Rightarrow> sock \<Rightarrow> (Buffer \<times> int \<times> int option \<times> sock) run" where
  [simp]: "ServerConn_ReceiveResponse response socket = RecvFrom response socket"

definition Conn_delete :: "int \<Rightarrow> int set \<Rightarrow> int set" where
  \<comment> \<open>\<open>shutdown\<close> and \<open>close\<close>: what is open without this socket\<close>
  "Conn_delete socket fds = fds - {socket}"

lemma Conn_delete_both [simp]: "Conn_delete b (Conn_delete a fds) = fds - {a, b}"
  by (auto simp: Conn_delete_def)

end
