(* ===== verification/Regex.thy ===== *)
theory Regex
  imports Prelude
begin

text \<open>
  The part of \<open>std::regex\<close> (ECMAScript grammar, backtracking matcher) that the translation of proxy
  commands uses: \<open>regex_search\<close>, \<open>regex_replace\<close> with a \<open>$n\<close> format, sub-matches, prefix and suffix.
  A pattern is a term; \<open>mat\<close> lists the ways to match at the start of a text in the order in which the
  matcher tries them, so the head of the list is the match that is reported.
\<close>

section \<open>Characters\<close>

definition code :: "char \<Rightarrow> nat" where
  "code c = of_char c"

definition tolower :: "char \<Rightarrow> char" where
  "tolower c = (if 65 \<le> code c \<and> code c \<le> 90 then char_of (code c + 32) else c)"

definition toupper :: "char \<Rightarrow> char" where
  "toupper c = (if 97 \<le> code c \<and> code c \<le> 122 then char_of (code c - 32) else c)"

definition is_digit :: "char \<Rightarrow> bool" where
  "is_digit c \<longleftrightarrow> 48 \<le> code c \<and> code c \<le> 57"

definition is_word :: "char \<Rightarrow> bool" where
  "is_word c \<longleftrightarrow> is_digit c \<or> (65 \<le> code c \<and> code c \<le> 90) \<or> (97 \<le> code c \<and> code c \<le> 122) \<or> code c = 95"

definition is_space :: "char \<Rightarrow> bool" where
  "is_space c \<longleftrightarrow> code c = 32 \<or> (9 \<le> code c \<and> code c \<le> 13)"

definition lower :: "string \<Rightarrow> string" where "lower s = map tolower s"
definition upper :: "string \<Rightarrow> string" where "upper s = map toupper s"

section \<open>Patterns\<close>

datatype cc = CWord | CSpace | CDigit | CWordOr string | CNot string | CAny

fun in_cc :: "cc \<Rightarrow> char \<Rightarrow> bool" where
  "in_cc CWord c = is_word c"
| "in_cc CSpace c = is_space c"
| "in_cc CDigit c = is_digit c"
| "in_cc (CWordOr s) c = (is_word c \<or> c \<in> set s)"
| "in_cc (CNot s) c = (c \<notin> set s)"
| "in_cc CAny c = True"

datatype rx =
    Lit string
  | ILit string
  | Cls cc
  | Seq rx rx
  | Alt rx rx
  | Opt rx
  | Star rx
  | Lazy rx
  | Grp nat rx
  | Ahead rx

type_synonym caps = "(nat \<times> string) list"

fun mat :: "rx \<Rightarrow> caps \<Rightarrow> string \<Rightarrow> (caps \<times> string) list" where
  "mat (Lit w) c s = (if take (length w) s = w then [(c, drop (length w) s)] else [])"
| "mat (ILit w) c s =
     (if lower (take (length w) s) = lower w then [(c, drop (length w) s)] else [])"
| "mat (Cls k) c s = (case s of [] \<Rightarrow> [] | x # xs \<Rightarrow> if in_cc k x then [(c, xs)] else [])"
| "mat (Seq a b) c s = concat (map (\<lambda>(c', s'). mat b c' s') (mat a c s))"
| "mat (Alt a b) c s = mat a c s @ mat b c s"
| "mat (Opt a) c s = mat a c s @ [(c, s)]"
| "mat (Star a) c s =
     concat (map (\<lambda>(c', s'). if length s' < length s then mat (Star a) c' s' else []) (mat a c s)) @ [(c, s)]"
| "mat (Lazy a) c s =
     (c, s) # concat (map (\<lambda>(c', s'). if length s' < length s then mat (Lazy a) c' s' else []) (mat a c s))"
| "mat (Grp n a) c s = map (\<lambda>(c', s'). ((n, take (length s - length s') s) # c', s')) (mat a c s)"
| "mat (Ahead a) c s = (case mat a c s of [] \<Rightarrow> [] | (c', _) # _ \<Rightarrow> [(c', s)])"

abbreviation Plus :: "rx \<Rightarrow> rx" where "Plus a \<equiv> Seq a (Star a)"

definition sub :: "caps \<Rightarrow> nat \<Rightarrow> string" where
  \<comment> \<open>\<open>m[n].str()\<close>, empty when the group did not match\<close>
  "sub c n = (case map_of c n of None \<Rightarrow> [] | Some s \<Rightarrow> s)"

definition matched :: "caps \<Rightarrow> nat \<Rightarrow> bool" where
  "matched c n \<longleftrightarrow> map_of c n \<noteq> None"

section \<open>Search and replace\<close>

record smatch =
  m_prefix :: string
  m_caps :: caps
  m_str :: string
  m_suffix :: string

fun regex_search :: "rx \<Rightarrow> string \<Rightarrow> smatch option" where
  "regex_search re s =
     (case mat re [] s of
        (c, r) # _ \<Rightarrow> Some \<lparr>m_prefix = [], m_caps = c, m_str = take (length s - length r) s, m_suffix = r\<rparr>
      | [] \<Rightarrow>
          (case s of
             [] \<Rightarrow> None
           | x # xs \<Rightarrow> map_option (\<lambda>m. m\<lparr>m_prefix := x # m_prefix m\<rparr>) (regex_search re xs)))"

fun format :: "caps \<Rightarrow> string \<Rightarrow> string" where
  \<comment> \<open>\<open>$n\<close> and \<open>$nn\<close> stand for a sub-match; no other escape occurs in the formats of the program\<close>
  "format c [] = []"
| "format c [x] = [x]"
| "format c (x # y # r) =
     (if x = CHR ''$'' \<and> is_digit y
      then (case r of
              z # r' \<Rightarrow> if is_digit z then sub c ((code y - 48) * 10 + (code z - 48)) @ format c r'
                        else sub c (code y - 48) @ format c r
            | [] \<Rightarrow> sub c (code y - 48))
      else x # format c (y # r))"

function rewrite_all :: "rx \<Rightarrow> (smatch \<Rightarrow> 'e + string) \<Rightarrow> string \<Rightarrow> 'e + string" where
  \<comment> \<open>\<open>while (regex_search(command, m, re)) { out << m.prefix() << ...; command = m.suffix(); } out << command\<close>
     with an early return of an error; the guard holds for every pattern without empty matches\<close>
  "rewrite_all re h s =
     (case regex_search re s of
        None \<Rightarrow> Inr s
      | Some m \<Rightarrow>
          (case h m of
             Inl e \<Rightarrow> Inl e
           | Inr t \<Rightarrow>
               if length (m_suffix m) < length s
               then (case rewrite_all re h (m_suffix m) of
                       Inl e \<Rightarrow> Inl e
                     | Inr u \<Rightarrow> Inr (m_prefix m @ t @ u))
               else Inr s))"
  by pat_completeness auto
termination
  by (relation "measure (\<lambda>(re, h, s). length s)") auto

definition regex_replace :: "string \<Rightarrow> rx \<Rightarrow> string \<Rightarrow> string" where
  "regex_replace s re tpl =
     (case rewrite_all re (\<lambda>m. Inr (format (m_caps m) tpl) :: unit + string) s of
        Inr t \<Rightarrow> t | Inl e \<Rightarrow> [])"

declare regex_search.simps [simp del] rewrite_all.simps [simp del] mat.simps(7,8) [simp del]

section \<open>What a match consumes\<close>

lemma take_drop_ex: "\<exists>u. s = u @ drop n s"
  by (rule exI [of _ "take n s"]) simp

lemma mat_suffix: "(c', r) \<in> set (mat re c s) \<Longrightarrow> \<exists>u. s = u @ r"
proof (induction re c s arbitrary: c' r rule: mat.induct)
  case (4 a b c s)
  then obtain c1 s1 where "(c1, s1) \<in> set (mat a c s)" "(c', r) \<in> set (mat b c1 s1)" by auto
  with 4(1) [of c1 s1] 4(2) [of "(c1, s1)" c1 s1 c' r] show ?case by fastforce
next
  case (7 a c s)
  from 7(3) consider "r = s"
    | c1 s1 where "(c1, s1) \<in> set (mat a c s)" "length s1 < length s" "(c', r) \<in> set (mat (Star a) c1 s1)"
    by (auto simp: mat.simps(7) [of a c s] split: if_splits)
  then show ?case
  proof cases
    case 2
    with 7(1) [of c1 s1] 7(2) [of "(c1, s1)" c1 s1 c' r] show ?thesis by fastforce
  qed simp
next
  case (8 a c s)
  from 8(3) consider "r = s"
    | c1 s1 where "(c1, s1) \<in> set (mat a c s)" "length s1 < length s" "(c', r) \<in> set (mat (Lazy a) c1 s1)"
    by (auto simp: mat.simps(8) [of a c s] split: if_splits)
  then show ?case
  proof cases
    case 2
    with 8(1) [of c1 s1] 8(2) [of "(c1, s1)" c1 s1 c' r] show ?thesis by fastforce
  qed simp
qed (auto split: list.splits if_splits simp: take_drop_ex)

fun consumes :: "rx \<Rightarrow> bool" where
  "consumes (Lit w) = (w \<noteq> [])"
| "consumes (ILit w) = (w \<noteq> [])"
| "consumes (Cls k) = True"
| "consumes (Seq a b) = (consumes a \<or> consumes b)"
| "consumes (Alt a b) = (consumes a \<and> consumes b)"
| "consumes (Grp n a) = consumes a"
| "consumes _ = False"

lemma lower_Nil [simp]: "lower w = [] \<longleftrightarrow> w = []" "lower [] = []"
  by (simp_all add: lower_def)

lemma length_lower [simp]: "length (lower w) = length w"
  by (simp add: lower_def)

lemma lower_take_eq: "lower (take (length w) s) = lower w \<Longrightarrow> length w \<le> length s"
  by (metis length_lower length_take min.absorb_iff1 min.commute)

lemma mat_consumes: "consumes re \<Longrightarrow> (c', r) \<in> set (mat re c s) \<Longrightarrow> length r < length s"
proof (induction re arbitrary: c s c' r)
  case (Lit w)
  then show ?case by (cases s) (auto split: if_splits)
next
  case (ILit w)
  then show ?case using lower_take_eq [of w s] by (cases w) (auto split: if_splits)
next
  case (Cls k)
  then show ?case by (auto split: list.splits if_splits)
next
  case (Seq a b)
  from Seq.prems(2) obtain c1 s1
    where 1: "(c1, s1) \<in> set (mat a c s)" "(c', r) \<in> set (mat b c1 s1)" by auto
  from mat_suffix [OF 1(1)] mat_suffix [OF 1(2)] have "length s1 \<le> length s" "length r \<le> length s1" by auto
  with Seq.IH(1) [OF _ 1(1)] Seq.IH(2) [OF _ 1(2)] Seq.prems(1) show ?case by fastforce
qed auto

lemma regex_search_Some:
  "regex_search re s = Some m \<Longrightarrow>
     s = m_prefix m @ m_str m @ m_suffix m
     \<and> (m_caps m, m_suffix m) \<in> set (mat re [] (m_str m @ m_suffix m))"
proof (induction re s arbitrary: m rule: regex_search.induct)
  case (1 re s)
  show ?case
  proof (cases "mat re [] s")
    case (Cons p ps)
    obtain c r where p: "p = (c, r)" by fastforce
    with Cons have "(c, r) \<in> set (mat re [] s)" by simp
    from mat_suffix [OF this] obtain u where u: "s = u @ r" by blast
    from "1.prems" Cons p
    have "m = \<lparr>m_prefix = [], m_caps = c, m_str = take (length s - length r) s, m_suffix = r\<rparr>"
      by (simp add: regex_search.simps [of re s])
    with u \<open>(c, r) \<in> set (mat re [] s)\<close> show ?thesis by simp
  next
    case Nil
    show ?thesis
    proof (cases s)
      case (Cons x xs)
      with "1.prems" Nil obtain m' where m': "regex_search re xs = Some m'" "m = m'\<lparr>m_prefix := x # m_prefix m'\<rparr>"
        by (auto simp: regex_search.simps [of re "x # xs"])
      from "1.IH" [OF Nil Cons m'(1)] m'(2) Cons show ?thesis by simp
    qed (use "1.prems" Nil in \<open>simp add: regex_search.simps [of re "[]"]\<close>)
  qed
qed

lemma regex_search_shorter: "consumes re \<Longrightarrow> regex_search re s = Some m \<Longrightarrow> length (m_suffix m) < length s"
  using regex_search_Some [of re s m] mat_consumes [of re "m_caps m" "m_suffix m" "[]" "m_str m @ m_suffix m"]
  by (metis length_append not_add_less1 not_less_iff_gr_or_eq trans_less_add2)

lemma rewrite_all_step:
  "consumes re \<Longrightarrow> regex_search re s = Some m \<Longrightarrow> h m = Inr t \<Longrightarrow>
     rewrite_all re h s =
       (case rewrite_all re h (m_suffix m) of Inl e \<Rightarrow> Inl e | Inr u \<Rightarrow> Inr (m_prefix m @ t @ u))"
  using regex_search_shorter [of re s m] by (simp add: rewrite_all.simps [of re h s])

lemma rewrite_all_error: "regex_search re s = Some m \<Longrightarrow> h m = Inl e \<Longrightarrow> rewrite_all re h s = Inl e"
  by (simp add: rewrite_all.simps [of re h s])

lemma rewrite_all_none: "regex_search re s = None \<Longrightarrow> rewrite_all re h s = Inr s"
  by (simp add: rewrite_all.simps [of re h s])

lemma rewrite_all_Inr: "(\<And>m. \<exists>t. h m = Inr t) \<Longrightarrow> \<exists>t. rewrite_all re h s = Inr t"
proof (induction re h s rule: rewrite_all.induct)
  case (1 re h s)
  show ?case
  proof (cases "regex_search re s")
    case None
    then show ?thesis by (simp add: rewrite_all_none)
  next
    case (Some m)
    from "1.prems" obtain t where t: "h m = Inr t" by blast
    with Some "1.IH" [OF Some t _ "1.prems"] show ?thesis
      by (auto simp: rewrite_all.simps [of re h s])
  qed
qed

section \<open>Words a match must contain\<close>

definition icontains :: "string \<Rightarrow> string \<Rightarrow> bool" where
  \<comment> \<open>the text contains the word, in any case\<close>
  "icontains s w \<longleftrightarrow> (\<exists>p m q. s = p @ m @ q \<and> lower m = lower w)"

fun needs :: "rx \<Rightarrow> string \<Rightarrow> bool" where
  "needs (Lit v) w = (lower v = lower w)"
| "needs (ILit v) w = (lower v = lower w)"
| "needs (Seq a b) w = (needs a w \<or> needs b w)"
| "needs (Alt a b) w = (needs a w \<and> needs b w)"
| "needs (Grp n a) w = needs a w"
| "needs _ w = False"

lemma icontains_append: "icontains s w \<Longrightarrow> icontains (p @ s @ q) w"
  unfolding icontains_def by (metis append.assoc)

lemma icontains_prepend: "icontains s w \<Longrightarrow> icontains (p @ s) w"
  using icontains_append [of s w p "[]"] by simp

lemma icontains_take: "lower (take n s) = lower w \<Longrightarrow> icontains s w"
  unfolding icontains_def
  by (intro exI [of _ "[]"] exI [of _ "take n s"] exI [of _ "drop n s"]) simp

lemma mat_needs: "needs re w \<Longrightarrow> (c', r) \<in> set (mat re c s) \<Longrightarrow> icontains s w"
proof (induction re arbitrary: c s c' r)
  case (Lit v)
  then show ?case by (auto split: if_splits intro: icontains_take [of "length v"])
next
  case (ILit v)
  then show ?case by (auto split: if_splits intro: icontains_take [of "length v"])
next
  case (Seq a b)
  from Seq.prems(2) obtain c1 s1
    where 1: "(c1, s1) \<in> set (mat a c s)" "(c', r) \<in> set (mat b c1 s1)" by auto
  from mat_suffix [OF 1(1)] obtain u where "s = u @ s1" by blast
  with 1 Seq show ?case by (auto intro: icontains_prepend)
qed auto

lemma regex_search_needs: "needs re w \<Longrightarrow> \<not> icontains s w \<Longrightarrow> regex_search re s = None"
proof (rule ccontr)
  assume n: "needs re w" and s: "\<not> icontains s w" and "regex_search re s \<noteq> None"
  then obtain m where "regex_search re s = Some m" by blast
  from regex_search_Some [OF this] mat_needs [OF n] have "icontains (m_str m @ m_suffix m) w"
    and "s = m_prefix m @ (m_str m @ m_suffix m)" by auto
  with s icontains_prepend show False by metis
qed

lemma rewrite_all_needs: "needs re w \<Longrightarrow> \<not> icontains s w \<Longrightarrow> rewrite_all re h s = Inr s"
  by (simp add: rewrite_all_none regex_search_needs)

lemma regex_replace_needs: "needs re w \<Longrightarrow> \<not> icontains s w \<Longrightarrow> regex_replace s re tpl = s"
  by (simp add: regex_replace_def rewrite_all_needs)

section \<open>Formats\<close>

lemma format_lit: "CHR ''$'' \<notin> set xs \<Longrightarrow> format c (xs @ ys) = xs @ format c ys"
proof (induction xs)
  case (Cons x xs)
  then show ?case by (cases "xs @ ys") auto
qed simp

lemma format_ref:
  "is_digit d \<Longrightarrow> ys = [] \<or> \<not> is_digit (hd ys) \<Longrightarrow> format c (CHR ''$'' # d # ys) = sub c (code d - 48) @ format c ys"
  by (cases ys) auto

lemma format_refs:
  assumes "ys = [] \<or> \<not> is_digit (hd ys)"
  shows "format c (''$1'' @ ys) = sub c 1 @ format c ys" "format c (''$2'' @ ys) = sub c 2 @ format c ys"
    "format c (''$3'' @ ys) = sub c 3 @ format c ys" "format c (''$4'' @ ys) = sub c 4 @ format c ys"
proof -
  have d: "is_digit (CHR ''1'')" "is_digit (CHR ''2'')" "is_digit (CHR ''3'')" "is_digit (CHR ''4'')"
    "code (CHR ''1'') = 49" "code (CHR ''2'') = 50" "code (CHR ''3'') = 51" "code (CHR ''4'') = 52"
    by (simp_all add: is_digit_def code_def)
  show "format c (''$1'' @ ys) = sub c 1 @ format c ys" "format c (''$2'' @ ys) = sub c 2 @ format c ys"
    "format c (''$3'' @ ys) = sub c 3 @ format c ys" "format c (''$4'' @ ys) = sub c 4 @ format c ys"
    using assms d by (simp_all add: format_ref del: format.simps(3))
qed

end
