(* ===== verification/ProxyCommand.thy ===== *)
theory ProxyCommand
  imports Regex ErrorMap
begin

text \<open>
  \<open>query/proxy-command.{h,cpp}\<close>: the translation of the access-control commands into SQL, one
  definition per translator, in the order of the file. \<open>file\<close> is the value of \<open>__FILE__\<close> in the
  build, which only shows up in the text of two errors.
\<close>

section \<open>Patterns and quoting\<close>

fun seqs :: "rx list \<Rightarrow> rx" where
  "seqs [] = Lit []"
| "seqs [r] = r"
| "seqs (r # rs) = Seq r (seqs rs)"

definition ws :: rx where "ws = Plus (Cls CSpace)"
definition ws0 :: rx where "ws0 = Star (Cls CSpace)"
definition wd :: rx where "wd = Plus (Cls CWord)"
definition dollar_num :: rx where "dollar_num = Seq (Lit ''$'') (Plus (Cls CDigit))"

definition word_list :: "nat \<Rightarrow> rx" where
  \<comment> \<open>\<open>\w+(,\s*\w+)*\<close> with its group numbered n\<close>
  "word_list n = Seq wd (Star (Grp n (seqs [Lit '','', ws0, wd])))"

definition query_arg :: "nat \<Rightarrow> rx" where
  \<comment> \<open>\<open>\(([^;]+)\)\<close>\<close>
  "query_arg n = seqs [Lit ''('', Grp n (Plus (Cls (CNot '';''))), Lit '')'']"

definition quoted :: "string \<Rightarrow> string" where
  "quoted s = SQ # s @ [SQ]"

definition quote_words :: "string \<Rightarrow> string" where
  \<comment> \<open>put every word of the list in single quotes\<close>
  "quote_words p = regex_replace p (Grp 1 wd) (quoted ''$1'')"

definition TAB :: char where "TAB = CHR 0x09"

type_synonym translated = "string \<times> Error"

fun finish :: "Error + string \<Rightarrow> translated" where
  "finish (Inr s) = (s, NoError)"
| "finish (Inl e) = ([], e)"

section \<open>The translators\<close>

definition re_comment :: rx where
  "re_comment = Alt
     (Grp 1 (Seq (Lit ''--'') (Star (Cls (CNot [CHR 0x0D, CHR 0x0A])))))
     (Grp 2 (seqs [Lit ''/*'', Lazy (Cls CAny), Ahead (Lit ''*/''), Lit ''*/'']))"

definition RemoveComments :: "string \<Rightarrow> translated" where
  "RemoveComments command = (regex_replace command re_comment [], NoError)"

definition re_enable :: rx where
  "re_enable = seqs [ILit ''ENABLE'', ws, ILit ''ACCESS'', ws, ILit ''CONTROL'', ws, Grp 1 wd]"

definition tpl_enable :: string where
  "tpl_enable =
     ''CREATE TABLE '' @ ''$1'' @ ''__access_bindings__ ('' @
     ''   _id             BIGINT NOT NULL,'' @
     ''   _role           TEXT NOT NULL,'' @
     ''   _principal      TEXT NOT NULL,'' @
     ''   _ref            BIGINT NOT NULL,'' @
     ''   _inheritance    BIGINT NOT NULL DEFAULT 0,'' @
     ''   _ts             TIMESTAMP DEFAULT NOW(),'' @
     ''   PRIMARY KEY (_id, _inheritance, _ref),'' @
     ''   FOREIGN KEY (_id) REFERENCES '' @ ''$1'' @ '' (id) ON DELETE CASCADE,'' @
     ''   FOREIGN KEY (_role) REFERENCES __access_roles__ (_name) ON DELETE RESTRICT,'' @
     ''   FOREIGN KEY (_ref) REFERENCES __access_binding_refs__ (_id) ON DELETE CASCADE,'' @
     ''   FOREIGN KEY (_inheritance) REFERENCES __access_inheritances__ (_id) ON DELETE CASCADE'' @
     '');'' @
     ''CREATE TRIGGER '' @ ''$1'' @ ''__upsert__'' @
     ''   AFTER INSERT OR UPDATE ON '' @ ''$1'' @
     ''   FOR EACH ROW'' @
     ''   EXECUTE FUNCTION __set_access_bindings__();'' @
     ''CREATE VIEW '' @ ''$1'' @ ''__acls__ AS'' @
     ''   SELECT b._id, b._role, b._principal, r._operation, r._columns'' @
     ''   FROM '' @ ''$1'' @ ''__access_bindings__ b, __access_roles_expanded__ r'' @
     ''   WHERE r._relation = '' @ quoted ''$1'' @ ''::REGCLASS AND b._role = r._name;'' @
     ''GRANT ALL PRIVILEGES ON '' @ ''$1'' @ '', '' @ ''$1'' @ ''__acls__ TO PUBLIC''"

definition TranslateEnableAccessControl :: "string \<Rightarrow> translated" where
  "TranslateEnableAccessControl command = (regex_replace command re_enable tpl_enable, NoError)"

definition re_create_permission :: rx where
  "re_create_permission = seqs [ILit ''CREATE'', ws, ILit ''ACCESS'', ws, ILit ''PERMISSION'', ws,
     Grp 1 wd, ws, ILit ''ON'', ws, Grp 2 wd, ws, ILit ''FOR'', ws, Grp 3 wd]"

definition tpl_create_permission :: string where
  "tpl_create_permission =
     ''INSERT INTO __access_permissions__ (_name, _relation, _operation)'' @
     [TAB] @ ''VALUES (LOWER('' @ quoted ''$1'' @ ''), '' @ quoted ''$2'' @ '', UPPER('' @ quoted ''$3'' @ ''))''"

definition TranslateCreateAccessPermission :: "string \<Rightarrow> translated" where
  "TranslateCreateAccessPermission command =
     (regex_replace command re_create_permission tpl_create_permission, NoError)"

definition re_create_role :: rx where
  "re_create_role = seqs [ILit ''CREATE'', ws, ILit ''ACCESS'', ws, ILit ''ROLE'', ws, Grp 1 wd, ws,
     ILit ''WITH'', ws, Grp 2 (word_list 3)]"

definition sql_create_role :: "string \<Rightarrow> string \<Rightarrow> string" where
  "sql_create_role r p =
     ''INSERT INTO __access_roles__ (_name, _permissions) VALUES ('' @ quoted r @ '', ARRAY['' @ p @ '']);''
     @ ''INSERT INTO __access_roles_denorm__ (_name, _permission)''
     @ '' SELECT _name, unnest(_permissions)''
     @ '' FROM __access_roles__''
     @ '' WHERE _name = '' @ quoted r"

definition TranslateCreateAccessRole :: "string \<Rightarrow> translated" where
  "TranslateCreateAccessRole command =
     finish (rewrite_all re_create_role
       (\<lambda>m. let r = lower (sub (m_caps m) 1);
                 p = quote_words (lower (sub (m_caps m) 2))
             in Inr (sql_create_role r p)) command)"

definition re_create_inheritance :: rx where
  "re_create_inheritance = seqs [ILit ''CREATE'', ws, ILit ''ACCESS'', ws, ILit ''INHERITANCE'', ws,
     ILit ''FROM'', ws, Grp 1 wd, ws0, Lit ''('', Grp 2 (word_list 3), Lit '')'', ws,
     ILit ''TO'', ws, Grp 4 wd, ws0, Lit ''('', Grp 5 (word_list 6), Lit '')'']"

lemma consumes_wd [simp]: "consumes wd"
  by (simp add: wd_def)

function pair_columns :: "bool \<Rightarrow> string \<Rightarrow> string \<Rightarrow> string \<times> bool \<times> bool" where
  \<comment> \<open>the loop over both column lists: its output, and whether each list still has a word at the end\<close>
  "pair_columns first f_cols t_cols =
     (case regex_search wd f_cols of
        None \<Rightarrow> ([], False, regex_search wd t_cols \<noteq> None)
      | Some f \<Rightarrow>
          (case regex_search wd t_cols of
             None \<Rightarrow> ([], True, False)
           | Some t \<Rightarrow>
               (case pair_columns False (m_suffix f) (m_suffix t) of
                  (rest, f_next, t_next) \<Rightarrow>
                    ((if first then '' WHERE '' else '' AND '') @ m_str f @ '' = $1.'' @ m_str t @ rest,
                     f_next, t_next))))"
  by pat_completeness auto
termination
  by (relation "measure (\<lambda>(b, f, t). length f)") (auto dest: regex_search_shorter [OF consumes_wd])

declare pair_columns.simps [simp del]

definition inheritance_error :: "string \<Rightarrow> Error" where
  "inheritance_error file = Error_init
     [(''S'', ''ERROR''),
      (''M'', ''dimension mismatch between source and destination columns''),
      (''R'', ''TranslateCreateAccessInheritance''),
      (''F'', file),
      (''L'', ''204'')]"

definition sql_inheritance :: "string \<Rightarrow> string \<Rightarrow> string \<Rightarrow> string" where
  "sql_inheritance f t conds =
     ''INSERT INTO __access_inheritances__ (_src, _dst, _src_query)''
     @ '' VALUES ('' @ quoted f @ '', '' @ quoted t @ '', '' @ [SQ] @ ''SELECT id FROM '' @ f
     @ conds @ [SQ] @ '')''"

definition inheritance_match :: "string \<Rightarrow> smatch \<Rightarrow> Error + string" where
  \<comment> \<open>the body of the loop over the matches\<close>
  "inheritance_match file m =
     (let f = sub (m_caps m) 1; t = sub (m_caps m) 4
      in case pair_columns True (sub (m_caps m) 2) (sub (m_caps m) 5) of
           (conds, f_next, t_next) \<Rightarrow>
             if f_next \<noteq> t_next then Inl (inheritance_error file)
             else Inr (sql_inheritance f t conds))"

definition TranslateCreateAccessInheritance :: "string \<Rightarrow> string \<Rightarrow> translated" where
  "TranslateCreateAccessInheritance file command =
     finish (rewrite_all re_create_inheritance (inheritance_match file) command)"

definition re_list_permission :: rx where
  "re_list_permission = seqs [ILit ''LIST'', ws, ILit ''ACCESS'', ws, ILit ''PERMISSION'',
     Opt (Grp 1 (seqs [ws, ILit ''ON'', ws, Grp 2 wd]))]"

definition TranslateListAccessPermission :: "string \<Rightarrow> translated" where
  "TranslateListAccessPermission command =
     finish (rewrite_all re_list_permission
       (\<lambda>m. Inr (''SELECT * FROM __access_permissions__'' @
              (if matched (m_caps m) 2
               then '' WHERE _relation = '' @ quoted (sub (m_caps m) 2) @ ''::REGCLASS'' else []))) command)"

definition re_list_role :: rx where
  "re_list_role = seqs [ILit ''LIST'', ws, ILit ''ACCESS'', ws, ILit ''ROLE'',
     Opt (Grp 1 (seqs [ws, ILit ''WITH'', ws,
       Grp 2 (Alt (seqs [Grp 3 (ILit ''ALL''), ws0, Lit ''('', Grp 4 (word_list 5), Lit '')''])
             (Alt (seqs [Grp 6 (ILit ''ANY''), ws0, Lit ''('', Grp 7 (word_list 8), Lit '')''])
                  (Grp 9 wd)))]))]"

definition TranslateListAccessRole :: "string \<Rightarrow> translated" where
  "TranslateListAccessRole command =
     finish (rewrite_all re_list_role
       (\<lambda>m. let c = m_caps m
             in Inr (''SELECT * FROM __access_roles__'' @
                  (if matched c 3
                   then '' WHERE _permissions @> ARRAY['' @ quote_words (lower (sub c 4)) @ '']''
                   else if matched c 6
                   then '' WHERE _permissions && ARRAY['' @ quote_words (lower (sub c 7)) @ '']''
                   else if matched c 2
                   then '' WHERE _permissions @> ARRAY['' @ quoted (lower (sub c 2)) @ '']''
                   else []))) command)"

definition re_list_inheritance :: rx where
  "re_list_inheritance = seqs [ILit ''LIST'', ws, ILit ''ACCESS'', ws, ILit ''INHERITANCE'',
     Opt (Grp 1 (seqs [ws, Grp 2 (Alt (ILit ''FROM'') (ILit ''TO'')), ws, Grp 3 wd]))]"

definition list_inheritance_error :: "string \<Rightarrow> string \<Rightarrow> Error" where
  "list_inheritance_error file d = Error_init
     [(''S'', ''ERROR''),
      (''M'', ''syntax error at or near '' @ [DQ] @ d @ [DQ]),
      (''R'', ''TranslateListAccessInheritance''),
      (''F'', file),
      (''L'', ''325'')]"

definition list_inheritance_match :: "string \<Rightarrow> smatch \<Rightarrow> Error + string" where
  "list_inheritance_match file m =
     (let c = m_caps m; sel = ''SELECT * FROM __access_inheritances__''
      in if matched c 2
         then (let d = upper (sub c 2); t = sub c 3
               in if d = ''FROM'' then Inr (sel @ '' WHERE _src = '' @ quoted t @ ''::REGCLASS'')
                  else if d = ''TO'' then Inr (sel @ '' WHERE _dst = '' @ quoted t @ ''::REGCLASS'')
                  else Inl (list_inheritance_error file d))
         else Inr sel)"

definition TranslateListAccessInheritance :: "string \<Rightarrow> string \<Rightarrow> translated" where
  "TranslateListAccessInheritance file command =
     finish (rewrite_all re_list_inheritance (list_inheritance_match file) command)"

definition re_bind_role :: rx where
  "re_bind_role = seqs [ILit ''BIND'', ws, ILit ''ACCESS'', ws, ILit ''ROLE'', ws, Grp 1 wd, ws,
     ILit ''TO'', ws, Grp 2 (Plus (Cls (CWordOr ''@''))), ws, ILit ''ON'', ws, Grp 3 wd, ws0, query_arg 4]"

definition tpl_bind_role :: string where
  "tpl_bind_role =
     ''WITH r AS'' @
     ''   (INSERT INTO __access_binding_refs__ (_origin, _origin_id)'' @
     ''       VALUES ('' @ quoted ''$3'' @ '', ('' @ ''$4'' @ ''))'' @
     ''       RETURNING *)'' @
     ''INSERT INTO '' @ ''$3'' @ ''__access_bindings__ (_role, _principal, _id, _ref)'' @
     ''   SELECT '' @ quoted ''$1'' @ '', '' @ quoted ''$2'' @ '', _origin_id, _id'' @
     ''   FROM r''"

definition TranslateBindAccessRole :: "string \<Rightarrow> translated" where
  "TranslateBindAccessRole command = (regex_replace command re_bind_role tpl_bind_role, NoError)"

definition word_or_num :: "nat \<Rightarrow> cc \<Rightarrow> rx" where
  \<comment> \<open>\<open>((k+)|(\$\d+))\<close> with groups n, n + 1 and n + 2\<close>
  "word_or_num n k = Grp n (Alt (Grp (n + 1) (Plus (Cls k))) (Grp (n + 2) dollar_num))"

definition re_unbind_role :: rx where
  "re_unbind_role = seqs [ILit ''UNBIND'', ws, ILit ''ACCESS'', ws, ILit ''ROLE'', ws, word_or_num 1 CWord, ws,
     ILit ''FROM'', ws, word_or_num 4 (CWordOr ''@''), ws, ILit ''ON'', ws, word_or_num 7 CWord, ws0,
     query_arg 10]"

definition TranslateUnbindAccessRole :: "string \<Rightarrow> translated" where
  "TranslateUnbindAccessRole command =
     finish (rewrite_all re_unbind_role
       (\<lambda>m. let c = m_caps m
             in Inr (''DELETE FROM __access_binding_refs__ r''
                  @ '' USING '' @ sub c 7 @ ''__access_bindings__ b''
                  @ '' WHERE b._id = ('' @ sub c 10 @ '')''
                  @ (if matched c 2 then '' AND b._role = '' @ quoted (sub c 2)
                     else if matched c 3 then '' AND b._role = '' @ sub c 3 else [])
                  @ (if matched c 5 then '' AND b._principal = '' @ quoted (sub c 5)
                     else if matched c 6 then '' AND b._principal = '' @ sub c 6 else [])
                  @ '' AND b._inheritance = 0''
                  @ '' AND b._ref = r._id'')) command)"

definition re_list_binding :: rx where
  "re_list_binding = seqs [ILit ''LIST'', ws, ILit ''ACCESS'', ws, ILit ''ROLE'', ws, ILit ''BINDING'', ws,
     ILit ''ON'', ws, Grp 1 wd, ws0, query_arg 2]"

definition tpl_list_binding :: string where
  "tpl_list_binding = ''SELECT *'' @ ''   FROM '' @ ''$1'' @ ''__access_bindings__'' @ ''   WHERE _id = ('' @ ''$2'' @ '')''"

definition TranslateListAccessRoleBinding :: "string \<Rightarrow> translated" where
  "TranslateListAccessRoleBinding command = (regex_replace command re_list_binding tpl_list_binding, NoError)"

section \<open>The chain\<close>

fun and_then :: "string \<Rightarrow> translated \<Rightarrow> (string \<Rightarrow> translated) \<Rightarrow> translated" where
  \<comment> \<open>\<open>if (err) return {query, err}\<close>, else the next translator\<close>
  "and_then query (s, err) f = (if Error_bool err then (query, err) else f s)"

definition Translate :: "string \<Rightarrow> string \<Rightarrow> translated" where
  "Translate file query0 =
     (let query = cstr query0
      in and_then query (RemoveComments query) (\<lambda>s.
         and_then query (TranslateEnableAccessControl s) (\<lambda>s.
         and_then query (TranslateCreateAccessPermission s) (\<lambda>s.
         and_then query (TranslateCreateAccessRole s) (\<lambda>s.
         and_then query (TranslateCreateAccessInheritance file s) (\<lambda>s.
         and_then query (TranslateListAccessPermission s) (\<lambda>s.
         and_then query (TranslateListAccessRoleBinding s) (\<lambda>s.
         and_then query (TranslateListAccessRole s) (\<lambda>s.
         and_then query (TranslateListAccessInheritance file s) (\<lambda>s.
         and_then query (TranslateBindAccessRole s) (\<lambda>s.
         and_then query (TranslateUnbindAccessRole s) (\<lambda>s. (s, NoError)))))))))))))"

end
