(* ===== verification/Json.thy ===== *)
theory Json
  imports Prelude
begin

text \<open>
  JSON values as \<open>nlohmann::json\<close> documents them (objects are sorted by key; a parse tree holds no
  fractions), the accesses the program makes, and \<open>query/jsonutil.h\<close>. A \<open>json*\<close> into a tree is the
  path from its root.
\<close>

section \<open>Values\<close>

datatype json =
    JNull
  | JBool bool
  | JNum int
  | JStr string
  | JArr "json list"
  | JObj "(string \<times> json) list"

fun is_primitive :: "json \<Rightarrow> bool" where
  "is_primitive (JArr vs) = False"
| "is_primitive (JObj kvs) = False"
| "is_primitive _ = True"

definition type_error :: exn where
  \<comment> \<open>\<open>json::type_error\<close>; only its class matters to the program, its text is sent to the client\<close>
  "type_error = StdException ''json.exception.type_error''"

fun dec_nat :: "nat \<Rightarrow> string" where
  "dec_nat n = (if n < 10 then [char_of (48 + n)] else dec_nat (n div 10) @ [char_of (48 + n mod 10)])"

declare dec_nat.simps [simp del]

definition to_string :: "int \<Rightarrow> string" where
  \<comment> \<open>\<open>std::to_string\<close>\<close>
  "to_string i = (if i < 0 then CHR ''-'' # dec_nat (nat (- i)) else dec_nat (nat i))"

section \<open>Iteration and access\<close>

fun index_items :: "nat \<Rightarrow> json list \<Rightarrow> (string \<times> json) list" where
  "index_items n [] = []"
| "index_items n (v # vs) = (dec_nat n, v) # index_items (Suc n) vs"

fun items :: "json \<Rightarrow> (string \<times> json) list" where
  \<comment> \<open>\<open>j.items()\<close>: an array has its indices as keys, a scalar is its own only item\<close>
  "items (JObj kvs) = kvs"
| "items (JArr vs) = index_items 0 vs"
| "items JNull = []"
| "items j = [([], j)]"

fun str_less :: "string \<Rightarrow> string \<Rightarrow> bool" where
  "str_less [] t = (t \<noteq> [])"
| "str_less s [] = False"
| "str_less (x # s) (y # t) =
     (if x = y then str_less s t else (of_char x :: nat) < of_char y)"

fun obj_put :: "string \<Rightarrow> json \<Rightarrow> (string \<times> json) list \<Rightarrow> (string \<times> json) list" where
  "obj_put k v [] = [(k, v)]"
| "obj_put k v ((k', v') # kvs) =
     (if k = k' then (k, v) # kvs
      else if str_less k k' then (k, v) # (k', v') # kvs
      else (k', v') # obj_put k v kvs)"

datatype step = Key string | Idx nat

fun field :: "step \<Rightarrow> json \<Rightarrow> json run" where
  \<comment> \<open>the value \<open>j[k]\<close> reads, null where it first inserts one\<close>
  "field (Key k) (JObj kvs) = Ret (case map_of kvs k of None \<Rightarrow> JNull | Some v \<Rightarrow> v)"
| "field (Key k) JNull = Ret JNull"
| "field (Idx i) (JArr vs) = Ret (if i < length vs then vs ! i else JNull)"
| "field (Idx i) JNull = Ret JNull"
| "field _ _ = Throw type_error"

fun set_field :: "step \<Rightarrow> json \<Rightarrow> json \<Rightarrow> json" where
  \<comment> \<open>the container after \<open>j[k] = v\<close>\<close>
  "set_field (Key k) v (JObj kvs) = JObj (obj_put k v kvs)"
| "set_field (Key k) v JNull = JObj [(k, v)]"
| "set_field (Idx i) v (JArr vs) =
     JArr (if i < length vs then vs[i := v] else vs @ replicate (i - length vs) JNull @ [v])"
| "set_field (Idx i) v JNull = JArr (replicate i JNull @ [v])"
| "set_field _ v j = j"

fun update_at :: "step list \<Rightarrow> (json \<Rightarrow> ('a \<times> json) run) \<Rightarrow> json \<Rightarrow> ('a \<times> json) run" where
  \<comment> \<open>run an operation on \<open>j[k1][k2]\<dots>\<close>, with the nulls that these accesses insert\<close>
  "update_at [] f j = f j"
| "update_at (k # ks) f j =
     bind_run (field k j) (\<lambda>v. bind_run (update_at ks f v) (\<lambda>(x, v'). Ret (x, set_field k v' j)))"

definition read_at :: "step list \<Rightarrow> json \<Rightarrow> (json \<times> json) run" where
  \<comment> \<open>\<open>j[k1][k2]\<dots>\<close> read: its value and the tree after the access\<close>
  "read_at ks = update_at ks (\<lambda>v. Ret (v, v))"

fun get_string :: "json \<Rightarrow> string run" where
  "get_string (JStr s) = Ret s"
| "get_string _ = Throw type_error"

fun get_bool :: "json \<Rightarrow> bool run" where
  "get_bool (JBool b) = Ret b"
| "get_bool _ = Throw type_error"

fun contains :: "json \<Rightarrow> string \<Rightarrow> bool" where
  "contains (JObj kvs) k = (map_of kvs k \<noteq> None)"
| "contains _ k = False"

fun json_len :: "json \<Rightarrow> nat" where
  "json_len JNull = 0"
| "json_len (JArr vs) = length vs"
| "json_len (JObj kvs) = length kvs"
| "json_len _ = 1"

fun push_back :: "json \<Rightarrow> json \<Rightarrow> json run" where
  "push_back (JArr vs) v = Ret (JArr (vs @ [v]))"
| "push_back JNull v = Ret (JArr [v])"
| "push_back _ v = Throw type_error"

lemma dec_nat_digits: "c \<in> set (dec_nat n) \<Longrightarrow> of_char c \<in> {48..57::nat}"
proof (induction n rule: dec_nat.induct)
  case (1 n)
  then show ?case by (auto simp: dec_nat.simps [of n] split: if_splits)
qed

lemma dec_nat_not_Nil [simp]: "dec_nat n \<noteq> []"
  by (simp add: dec_nat.simps [of n])

lemma dec_nat_not_word: "\<forall>c \<in> set w. of_char c \<notin> {48..57::nat} \<Longrightarrow> dec_nat n \<noteq> w"
  using dec_nat_digits [of "hd (dec_nat n)" n] dec_nat_not_Nil [of n] list.set_sel(1) by metis

section \<open>Finding a node\<close>

fun json_size :: "json \<Rightarrow> nat" and items_size :: "(string \<times> json) list \<Rightarrow> nat" and list_size' :: "json list \<Rightarrow> nat" where
  "json_size (JArr vs) = Suc (list_size' vs)"
| "json_size (JObj kvs) = Suc (items_size kvs)"
| "json_size _ = 0"
| "items_size [] = 0"
| "items_size ((k, v) # kvs) = Suc (json_size v + items_size kvs)"
| "list_size' [] = 0"
| "list_size' (v # vs) = Suc (json_size v + list_size' vs)"

lemma items_size_index [simp]: "items_size (index_items n vs) = list_size' vs"
  by (induction vs arbitrary: n) auto

lemma items_size_items: "\<not> is_primitive j \<Longrightarrow> items_size (items j) < json_size j"
  by (cases j) auto

lemma items_size_mem: "(k, v) \<in> set kvs \<Longrightarrow> json_size v < items_size kvs"
  by (induction kvs) auto

fun item_step :: "json \<Rightarrow> string \<Rightarrow> nat \<Rightarrow> step" where
  "item_step (JArr vs) k i = Idx i"
| "item_step _ k i = Key k"

function FindNode :: "json \<Rightarrow> string \<Rightarrow> step list option"
  and FindNode_items :: "json \<Rightarrow> nat \<Rightarrow> (string \<times> json) list \<Rightarrow> string \<Rightarrow> step list option" where
  "FindNode j key = (if is_primitive j then None else FindNode_items j 0 (items j) key)"
| "FindNode_items j i [] key = None"
| "FindNode_items j i ((k, v) # kvs) key =
     (if k = key then Some [item_step j k i]
      else case (if is_primitive v then None else FindNode v key) of
             Some p \<Rightarrow> Some (item_step j k i # p)
           | None \<Rightarrow> FindNode_items j (Suc i) kvs key)"
  by pat_completeness auto
termination
  by (relation "measure (\<lambda>x. case x of Inl (j, k) \<Rightarrow> json_size j | Inr (j, i, kvs, k) \<Rightarrow> items_size kvs)")
     (auto simp: items_size_items)

declare FindNode.simps [simp del]

function keys_of :: "json \<Rightarrow> string list" where
  \<comment> \<open>the keys of all items of a tree, an item before the ones inside it\<close>
  "keys_of j = (if is_primitive j then [] else concat (map (\<lambda>(k, v). k # keys_of v) (items j)))"
  by pat_completeness auto
termination
  by (relation "measure json_size") (auto intro: less_trans [OF items_size_mem items_size_items])

declare keys_of.simps [simp del]

lemma FindNode_None:
  "FindNode j key = None \<longleftrightarrow> key \<notin> set (keys_of j)"
  "FindNode_items j i kvs key = None \<longleftrightarrow> key \<notin> set (concat (map (\<lambda>(k, v). k # keys_of v) kvs))"
proof (induction j key and j i kvs key rule: FindNode_FindNode_items.induct)
  case (1 j key)
  then show ?case by (simp add: FindNode.simps [of j] keys_of.simps [of j])
next
  case (3 j i k v kvs key)
  show ?case
  proof (cases "k = key \<or> is_primitive v")
    case False
    with 3 show ?thesis by (auto split: option.splits)
  qed (use 3 in \<open>auto simp: keys_of.simps [of v]\<close>)
qed simp

text \<open>\<open>FindNode\<close> finds a node exactly when some item of the tree, at any depth, has the key.\<close>
theorem FindNode_complete: "FindNode j key \<noteq> None \<longleftrightarrow> key \<in> set (keys_of j)"
  by (simp add: FindNode_None)

section \<open>Sorted objects\<close>

lemma str_less_irrefl [simp]: "\<not> str_less s s"
  by (induction s) auto

lemma str_less_Nil [simp]: "\<not> str_less t []"
  by (cases t) auto

lemma str_less_asym: "str_less s t \<Longrightarrow> \<not> str_less t s"
  by (induction s t rule: str_less.induct) (auto split: if_splits)

function json_wf :: "json \<Rightarrow> bool" where
  \<comment> \<open>the keys of every object are sorted, as those of a \<open>std::map\<close> are\<close>
  "json_wf j = (if is_primitive j then True else
     ((case j of JObj kvs \<Rightarrow> sorted_wrt str_less (map fst kvs) | _ \<Rightarrow> True)
      \<and> (\<forall>(k, v) \<in> set (items j). json_wf v)))"
  by pat_completeness auto
termination
  by (relation "measure json_size") (auto intro: less_trans [OF items_size_mem items_size_items])

declare json_wf.simps [simp del]

lemma json_wf_items: "json_wf j \<Longrightarrow> \<not> is_primitive j \<Longrightarrow> (k, v) \<in> set (items j) \<Longrightarrow> json_wf v"
  by (subst (asm) json_wf.simps) auto

lemma json_wf_sorted: "json_wf (JObj kvs) \<Longrightarrow> sorted_wrt str_less (map fst kvs)"
  by (subst (asm) json_wf.simps) auto

lemma map_of_obj_put [simp]: "map_of (obj_put k v kvs) k' = (if k' = k then Some v else map_of kvs k')"
  by (induction k v kvs rule: obj_put.induct) auto

lemma obj_put_same: "sorted_wrt str_less (map fst kvs) \<Longrightarrow> map_of kvs k = Some v \<Longrightarrow> obj_put k v kvs = kvs"
proof (induction k v kvs rule: obj_put.induct)
  case (2 k v k' v' kvs)
  show ?case
  proof (cases "k = k'")
    case False
    with 2 have "map_of kvs k = Some v" by simp
    moreover from this have "k \<in> set (map fst kvs)" using map_of_SomeD by force
    with 2 have "str_less k' k" by auto
    ultimately show ?thesis using 2 False str_less_asym by auto
  qed (use 2 in simp)
qed simp

lemma read_field: "json_wf (JObj kvs) \<Longrightarrow> map_of kvs k = Some v \<Longrightarrow> read_at [Key k] (JObj kvs) = Ret (v, JObj kvs)"
  using obj_put_same [OF json_wf_sorted] by (simp add: read_at_def)

lemma read_string_same:
  assumes "json_wf j" "read_at [Key k] j = Ret (x, j')" "get_string x = Ret s"
  shows "j' = j"
proof -
  from assms(3) have x: "x = JStr s" by (cases x) auto
  show ?thesis
  proof (cases j)
    case (JObj kvs)
    with assms(2) x have "map_of kvs k = Some (JStr s)"
      by (auto simp: read_at_def run_simps split: option.splits)
    with read_field assms(1,2) JObj show ?thesis by fastforce
  qed (use assms(2) x in \<open>auto simp: read_at_def run_simps\<close>)
qed

end
