(* ===== verification/QueryModel.thy ===== *)
theory QueryModel
  imports Json ErrorMap
begin

text \<open>
  \<open>query/query.{h,cpp}\<close>: a parsed query. libpg_query's parser and deparser, with the JSON and
  protobuf conversions around them, are the arguments \<open>pg_parse\<close> and \<open>pg_deparse\<close>.
\<close>

record Query =
  q_valid :: bool
  q_json :: json

record pg_error =
  pe_message :: string
  pe_funcname :: string
  pe_filename :: string
  pe_lineno :: int
  pe_cursorpos :: int

definition Query_new :: Query where
  "Query_new = \<lparr>q_valid = False, q_json = JNull\<rparr>"

definition Query_copy :: "Query \<Rightarrow> Query" where
  "Query_copy q = \<lparr>q_valid = q_valid q, q_json = q_json q\<rparr>"

definition Query_bool :: "Query \<Rightarrow> bool" where
  "Query_bool q = q_valid q"

definition parse_error :: "pg_error \<Rightarrow> Error" where
  "parse_error e = Error_init
     [(''S'', ''ERROR''),
      (''M'', pe_message e),
      (''R'', pe_funcname e),
      (''F'', pe_filename e),
      (''L'', to_string (pe_lineno e)),
      (''P'', to_string (pe_cursorpos e))]"

definition Parse :: "(string \<Rightarrow> pg_error + json run) \<Rightarrow> string \<Rightarrow> (Query \<times> Error) run" where
  "Parse pg_parse raw_query =
     (case pg_parse raw_query of
        Inl e \<Rightarrow> Ret (Query_new, parse_error e)
      | Inr tree \<Rightarrow> bind_run tree (\<lambda>j. Ret (\<lparr>q_valid = True, q_json = j\<rparr>, NoError)))"

definition ToString :: "(json \<Rightarrow> string option) \<Rightarrow> Query \<Rightarrow> string run" where
  "ToString pg_deparse q =
     (case pg_deparse (q_json q) of
        None \<Rightarrow> Crash AssertFail
      | Some s \<Rightarrow> Ret (cstr s))"

lemma Query_bool_simps [simp]: "\<not> Query_bool Query_new" "Query_copy q = q"
  by (simp_all add: Query_bool_def Query_new_def Query_copy_def)

lemma parse_error_bool: "Error_bool (parse_error e)"
  by (simp add: parse_error_def)

lemma parse_error_no_code: "\<not> Error_contains (parse_error e) ''C''"
  unfolding parse_error_def Error_contains_init by simp

lemma Parse_valid: "Parse pg_parse s = Ret (q, e) \<Longrightarrow> Query_bool q \<longleftrightarrow> \<not> Error_bool e"
  by (auto simp: Parse_def run_simps parse_error_bool Query_bool_def Query_new_def split: sum.splits)

end
