(* ===== verification/BlockingQueue.thy ===== *)
theory BlockingQueue
  imports Prelude
begin

text \<open>
  \<open>concurrency/blocking-queue.h\<close>: the queue through which worker threads, the watcher and the
  connection pool hand objects to each other. First the critical sections as functions of the queue
  they find, then the interleavings of any number of producers and consumers as a step relation.
\<close>

section \<open>The operations\<close>

type_synonym 'a bqueue = "'a list"

datatype ('a, 'q) pop_res = Popped 'a 'q | TimedOut 'q | StillWaiting

definition Push :: "'a bqueue \<Rightarrow> 'a \<Rightarrow> 'a bqueue" where
  "Push q x = q @ [x]"

fun Pop :: "int \<Rightarrow> 'a bqueue \<Rightarrow> ('a bqueue \<times> bool) list \<Rightarrow> ('a, 'a bqueue) pop_res" where
  \<comment> \<open>the queue found when the lock is taken, then for each return from the wait the queue found then
     and whether the wait reports a timeout; the list ends while the consumer still waits\<close>
  "Pop ms (x # q) ws = Popped x q"
| "Pop ms [] [] = StillWaiting"
| "Pop ms [] ((q, timeout) # ws) =
     (if ms < 0 then Pop ms q ws else if timeout then TimedOut q else Pop ms q ws)"

definition Queue_Size :: "'a bqueue \<Rightarrow> nat" where
  "Queue_Size q = length q"

lemma Pop_TimedOut: "Pop ms q ws = TimedOut q' \<Longrightarrow> 0 \<le> ms \<and> (q', True) \<in> set ws"
  by (induction ms q ws rule: Pop.induct) (auto split: if_splits)

lemma Pop_Popped: "Pop ms q ws = Popped x q' \<Longrightarrow> x # q' = q \<or> x # q' \<in> fst ` set ws"
  by (induction ms q ws rule: Pop.induct) (auto split: if_splits)

lemma Pop_StillWaiting: "Pop ms q ws = StillWaiting \<Longrightarrow> q = [] \<and> (\<forall>w \<in> set ws. fst w = [])"
proof (induction ms q ws rule: Pop.induct)
  case (3 ms q timeout ws)
  then show ?case by (auto split: if_splits)
qed auto

section \<open>The interface of the queue\<close>

text \<open>
  What the thread pool and the connection pool rely on: a push appends, a pop that returns an item
  returns the oldest item of the queue it found, a pop that finds an item does not wait, and only a
  pop with a deadline gives up.
\<close>

locale fifo =
  fixes items :: "'q \<Rightarrow> 'a list"
    and push :: "'q \<Rightarrow> 'a \<Rightarrow> 'q"
    and pop :: "int \<Rightarrow> 'q \<Rightarrow> ('q \<times> bool) list \<Rightarrow> ('a, 'q) pop_res"
  assumes items_push: "items (push q x) = items q @ [x]"
    and pop_hit: "items q = x # xs \<Longrightarrow> \<exists>q'. pop ms q ws = Popped x q' \<and> items q' = xs"
    and pop_oldest: "pop ms q ws = Popped x q' \<Longrightarrow> \<exists>q0 \<in> insert q (fst ` set ws). items q0 = x # items q'"
    and pop_gives_up: "pop ms q ws = TimedOut q' \<Longrightarrow> 0 \<le> ms \<and> (q', True) \<in> set ws"
begin

fun push_all :: "'q \<Rightarrow> 'a list \<Rightarrow> 'q" where
  "push_all q [] = q"
| "push_all q (x # xs) = push_all (push q x) xs"

fun pop_n :: "nat \<Rightarrow> 'q \<Rightarrow> 'a list" where
  "pop_n 0 q = []"
| "pop_n (Suc n) q = (case pop (- 1) q [] of Popped x q' \<Rightarrow> x # pop_n n q' | _ \<Rightarrow> [])"

lemma items_push_all: "items (push_all q xs) = items q @ xs"
  by (induction xs arbitrary: q) (auto simp: items_push)

lemma pop_n_take: "pop_n n q = take n (items q)"
proof (induction n arbitrary: q)
  case 0
  then show ?case by simp
next
  case (Suc n)
  show ?case
  proof (cases "items q")
    case Nil
    have "\<And>x q'. pop (- 1) q [] \<noteq> Popped x q'"
      using pop_oldest [of "- 1" q "[]"] Nil by fastforce
    with Nil show ?thesis by (cases "pop (- 1) q []") auto
  next
    case (Cons x xs)
    from pop_hit [OF this] obtain q' where "pop (- 1) q [] = Popped x q'" "items q' = xs" by blast
    with Suc.IH [of q'] Cons show ?thesis by simp
  qed
qed

lemma first_in_first_out: "items q = [] \<Longrightarrow> pop_n (length xs) (push_all q xs) = xs"
  by (simp add: pop_n_take items_push_all)

end

interpretation bq: fifo "\<lambda>q. q" Push Pop
proof unfold_locales
  show "Pop ms q ws = Popped x q' \<Longrightarrow> \<exists>q0 \<in> insert q (fst ` set ws). q0 = x # q'" for ms q ws x q'
    using Pop_Popped [of ms q ws x q'] by auto
qed (auto simp: Push_def dest: Pop_TimedOut)

section \<open>Interleavings\<close>

text \<open>
  Every critical section is one step. A consumer is outside, or inside the wait; a wake-up may be a
  notification or spurious, and the wait may report a timeout at any moment after the deadline. The
  state records the items pushed and delivered so far.
\<close>

record 'a bq_sys =
  queue :: "'a bqueue"
  asleep :: "nat set"
  pushed :: "'a list"
  delivered :: "(nat \<times> 'a) list"

definition bq_init :: "'a bq_sys" where
  "bq_init = \<lparr>queue = [], asleep = {}, pushed = [], delivered = []\<rparr>"

inductive bq_step :: "'a bq_sys \<Rightarrow> 'a bq_sys \<Rightarrow> bool" where
  push: "bq_step s (s\<lparr>queue := Push (queue s) x, pushed := pushed s @ [x]\<rparr>)"
| pop_item: "c \<notin> asleep s \<Longrightarrow> Pop ms (queue s) [] = Popped x q \<Longrightarrow>
     bq_step s (s\<lparr>queue := q, delivered := delivered s @ [(c, x)]\<rparr>)"
| pop_wait: "c \<notin> asleep s \<Longrightarrow> Pop ms (queue s) [] = StillWaiting \<Longrightarrow>
     bq_step s (s\<lparr>asleep := insert c (asleep s)\<rparr>)"
| wake_item: "c \<in> asleep s \<Longrightarrow> Pop ms [] [(queue s, False)] = Popped x q \<Longrightarrow>
     bq_step s (s\<lparr>queue := q, asleep := asleep s - {c}, delivered := delivered s @ [(c, x)]\<rparr>)"
| wake_again: "c \<in> asleep s \<Longrightarrow> Pop ms [] [(queue s, False)] = StillWaiting \<Longrightarrow> bq_step s s"
| give_up: "c \<in> asleep s \<Longrightarrow> Pop ms [] [(queue s, True)] = TimedOut q \<Longrightarrow>
     bq_step s (s\<lparr>queue := q, asleep := asleep s - {c}\<rparr>)"

inductive bq_reach :: "'a bq_sys \<Rightarrow> bool" where
  init: "bq_reach bq_init"
| step: "bq_reach s \<Longrightarrow> bq_step s t \<Longrightarrow> bq_reach t"

definition bq_fifo :: "'a bq_sys \<Rightarrow> bool" where
  "bq_fifo s \<longleftrightarrow> pushed s = map snd (delivered s) @ queue s"

lemma Pop_now_Popped: "Pop ms q [] = Popped x q' \<longleftrightarrow> q = x # q'"
  by (cases q) auto

lemma Pop_woken_Popped: "Pop ms [] [(q, False)] = Popped x q' \<longleftrightarrow> q = x # q'"
  by (cases q) (auto split: if_splits)

lemma Pop_woken_TimedOut: "Pop ms [] [(q, True)] = TimedOut q' \<Longrightarrow> q' = q"
  using Pop_TimedOut [of ms "[]" "[(q, True)]" q'] by auto

lemmas Pop_now = Pop_now_Popped Pop_woken_Popped

lemma bq_step_fifo: "bq_step s t \<Longrightarrow> bq_fifo s \<Longrightarrow> bq_fifo t"
  by (induction rule: bq_step.induct)
     (auto simp: bq_fifo_def Push_def Pop_now simp del: Pop.simps dest: Pop_woken_TimedOut)

lemma bq_reach_fifo: "bq_reach s \<Longrightarrow> bq_fifo s"
  by (induction rule: bq_reach.induct) (auto simp: bq_fifo_def bq_init_def dest: bq_step_fifo)

inductive_cases bq_stepE: "bq_step s t"

section \<open>Properties\<close>

text \<open>C35. However the threads interleave, with waits, spurious wake-ups and timeouts, the items delivered so
  far are the first items pushed, in the order of the pushes, and the rest is still queued: none is lost
  or delivered twice.\<close>
theorem queue_fifo:
  assumes "bq_reach s"
  shows "pushed s = map snd (delivered s) @ queue s"
  using bq_reach_fifo [OF assms] by (simp add: bq_fifo_def)

lemma queue_fifo_witness:
  "pushed \<lparr>queue = [], asleep = {}, pushed = [5], delivered = [(1, 5)]\<rparr>
   = map snd (delivered \<lparr>queue = [], asleep = {}, pushed = [5], delivered = [(1::nat, 5::nat)]\<rparr>)
     @ queue \<lparr>queue = [], asleep = {}, pushed = [5], delivered = [(1, 5)]\<rparr>"
proof (rule queue_fifo)
  have "bq_step bq_init \<lparr>queue = [5], asleep = {}, pushed = [5::nat], delivered = []\<rparr>"
    using bq_step.push [of bq_init "5::nat"] by (simp add: bq_init_def Push_def)
  moreover have "bq_step \<lparr>queue = [5], asleep = {}, pushed = [5::nat], delivered = []\<rparr>
      \<lparr>queue = [], asleep = {}, pushed = [5], delivered = [(1, 5)]\<rparr>"
    using bq_step.pop_item [of 1 "\<lparr>queue = [5], asleep = {}, pushed = [5::nat], delivered = []\<rparr>" 100 5 "[]"] by simp
  ultimately show "bq_reach \<lparr>queue = [], asleep = {}, pushed = [5::nat], delivered = [(1, 5)]\<rparr>"
    by (meson bq_reach.init bq_reach.step)
qed

text \<open>A consumer whose wait reports the timeout gives up without looking at the queue again, also when an
  item arrived in the meantime; with a negative timeout it never gives up.\<close>
theorem timeout_leaves_item:
  "Pop ms [] [(x # q, True)] = (if ms < 0 then Popped x q else TimedOut (x # q))"
  by simp

end
