(* ===== verification/ConnPool.thy ===== *)
theory ConnPool
  imports BlockingQueue
begin

text \<open>
  \<open>conn/pqxx-conn.{h,cpp}\<close>: the pool of database connections. A connection is a number, fresh for
  every \<open>PqxxConn\<close> that is constructed; \<open>connect n\<close> is the exception the n-th construction throws,
  if it throws. The destructor of a pooled connection puts a new one into the pool.
\<close>

section \<open>The operations\<close>

fun uri :: "string option \<Rightarrow> string option \<Rightarrow> string option \<Rightarrow> string \<Rightarrow> string \<Rightarrow> string run" where
  \<comment> \<open>the environment variables POSTGRES_USER, POSTGRES_PASSWORD and POSTGRES_DB, then host and port; a variable
     that is not set is a null string\<close>
  "uri (Some user) (Some pass) (Some db) host port =
     Ret (''postgresql://'' @ user @ '':'' @ pass @ ''@'' @ host @ '':'' @ port @ ''/'' @ db)"
| "uri _ _ _ host port = Crash NullDeref"

record PqxxConnPool =
  pool_size :: nat
  conns :: "nat bqueue"
  made :: nat

definition PqxxConn_new :: "(nat \<Rightarrow> exn option) \<Rightarrow> nat \<Rightarrow> nat run" where
  "PqxxConn_new connect n = (case connect n of None \<Rightarrow> Ret n | Some e \<Rightarrow> Throw e)"

definition add_conn :: "(nat \<Rightarrow> exn option) \<Rightarrow> PqxxConnPool \<Rightarrow> PqxxConnPool run" where
  "add_conn connect p =
     bind_run (PqxxConn_new connect (made p))
       (\<lambda>c. Ret (p\<lparr>conns := Push (conns p) c, made := Suc (made p)\<rparr>))"

fun add_conns :: "(nat \<Rightarrow> exn option) \<Rightarrow> nat \<Rightarrow> PqxxConnPool \<Rightarrow> PqxxConnPool run" where
  "add_conns connect 0 p = Ret p"
| "add_conns connect (Suc n) p = bind_run (add_conn connect p) (add_conns connect n)"

definition PqxxConnPool_new :: "(nat \<Rightarrow> exn option) \<Rightarrow> nat \<Rightarrow> PqxxConnPool run" where
  "PqxxConnPool_new connect n = add_conns connect n \<lparr>pool_size = n, conns = [], made = 0\<rparr>"

definition Acquire :: "int \<Rightarrow> PqxxConnPool \<Rightarrow> (nat bqueue \<times> bool) list \<Rightarrow> (PqxxConnPool \<times> nat option) option" where
  \<comment> \<open>\<open>None\<close> while the caller waits; a null pointer when the wait timed out\<close>
  "Acquire ms p ws =
     (case Pop ms (conns p) ws of
        Popped c q \<Rightarrow> Some (p\<lparr>conns := q\<rparr>, Some c)
      | TimedOut q \<Rightarrow> Some (p\<lparr>conns := q\<rparr>, None)
      | StillWaiting \<Rightarrow> None)"

definition has_room :: "PqxxConnPool \<Rightarrow> bool" where
  "has_room p \<longleftrightarrow> Queue_Size (conns p) < pool_size p"

definition Release :: "(nat \<Rightarrow> exn option) \<Rightarrow> PqxxConnPool \<Rightarrow> PqxxConnPool run" where
  "Release connect p = (if has_room p then add_conn connect p else Ret p)"

definition PqxxConn_delete :: "(nat \<Rightarrow> exn option) \<Rightarrow> PqxxConnPool \<Rightarrow> PqxxConnPool run" where
  \<comment> \<open>the destructor of a pooled connection; an exception that leaves a destructor ends the process\<close>
  "PqxxConn_delete connect p =
     (case Release connect p of Throw e \<Rightarrow> Crash Terminate | r \<Rightarrow> r)"

section \<open>Threads sharing the pool\<close>

text \<open>
  The comparison in \<open>Release\<close> and the push after it are separate steps, with any number of threads
  between them: \<open>closing\<close> counts the destructors before the comparison, \<open>adding\<close> those past it.
\<close>

record pool_sys =
  pool :: PqxxConnPool
  held :: "nat list"
  closing :: nat
  adding :: nat

inductive pool_step :: "(nat \<Rightarrow> exn option) \<Rightarrow> pool_sys \<Rightarrow> pool_sys \<Rightarrow> bool" for connect where
  acquire: "Acquire ms (pool s) [] = Some (p, Some c) \<Longrightarrow>
     pool_step connect s (s\<lparr>pool := p, held := c # held s\<rparr>)"
| destroy: "c \<in> set (held s) \<Longrightarrow>
     pool_step connect s (s\<lparr>held := remove1 c (held s), closing := Suc (closing s)\<rparr>)"
| room: "closing s = Suc n \<Longrightarrow> has_room (pool s) \<Longrightarrow>
     pool_step connect s (s\<lparr>closing := n, adding := Suc (adding s)\<rparr>)"
| full: "closing s = Suc n \<Longrightarrow> \<not> has_room (pool s) \<Longrightarrow> pool_step connect s (s\<lparr>closing := n\<rparr>)"
| add: "adding s = Suc n \<Longrightarrow> add_conn connect (pool s) = Ret p \<Longrightarrow>
     pool_step connect s (s\<lparr>pool := p, adding := n\<rparr>)"

inductive pool_reach :: "(nat \<Rightarrow> exn option) \<Rightarrow> nat \<Rightarrow> pool_sys \<Rightarrow> bool" for connect n where
  init: "PqxxConnPool_new connect n = Ret p \<Longrightarrow>
     pool_reach connect n \<lparr>pool = p, held = [], closing = 0, adding = 0\<rparr>"
| step: "pool_reach connect n s \<Longrightarrow> pool_step connect s t \<Longrightarrow> pool_reach connect n t"

section \<open>The pool invariant\<close>

definition pool_inv :: "nat \<Rightarrow> pool_sys \<Rightarrow> bool" where
  "pool_inv n s \<longleftrightarrow>
     pool_size (pool s) = n
     \<and> length (conns (pool s)) + length (held s) + closing s + adding s = n
     \<and> distinct (conns (pool s) @ held s)
     \<and> (\<forall>c \<in> set (conns (pool s) @ held s). c < made (pool s))"

lemma add_conn_Ret:
  "add_conn connect p = Ret p' \<longleftrightarrow>
     connect (made p) = None \<and> p' = p\<lparr>conns := conns p @ [made p], made := Suc (made p)\<rparr>"
  by (auto simp: add_conn_def PqxxConn_new_def Push_def run_simps split: option.splits)

lemma add_conns_Ret:
  "add_conns connect k p = Ret p' \<Longrightarrow>
     pool_size p' = pool_size p \<and> made p' = made p + k \<and> conns p' = conns p @ [made p..<made p + k]"
proof (induction k arbitrary: p)
  case 0
  then show ?case by simp
next
  case (Suc k)
  from Suc.prems have "add_conns connect k (p\<lparr>conns := conns p @ [made p], made := Suc (made p)\<rparr>) = Ret p'"
    by (auto simp: run_simps add_conn_Ret)
  from Suc.IH [OF this] show ?case by (simp add: upt_conv_Cons)
qed

lemma pool_inv_init:
  "PqxxConnPool_new connect n = Ret p \<Longrightarrow> pool_inv n \<lparr>pool = p, held = [], closing = 0, adding = 0\<rparr>"
  by (auto simp: PqxxConnPool_new_def pool_inv_def dest: add_conns_Ret)

lemma Acquire_now: "Acquire ms p [] = Some (p', Some c) \<longleftrightarrow> conns p = c # conns p' \<and> p' = p\<lparr>conns := conns p'\<rparr>"
  by (cases "conns p") (auto simp: Acquire_def)

lemma destroy_held: "c \<in> set xs \<Longrightarrow> Suc (length (remove1 c xs)) = length xs"
  by (induction xs) auto

lemma pool_step_inv: "pool_step connect s t \<Longrightarrow> pool_inv n s \<Longrightarrow> pool_inv n t"
proof (induction rule: pool_step.induct)
  case (acquire ms s p c)
  then have "conns (pool s) = c # conns p" "pool_size p = pool_size (pool s)" "made p = made (pool s)"
    by (auto simp: Acquire_now) (metis PqxxConnPool.select_convs PqxxConnPool.update_convs PqxxConnPool.surjective)+
  with acquire.prems show ?case by (auto simp: pool_inv_def)
next
  case (destroy c s)
  have "set (remove1 c (held s)) \<subseteq> set (held s)" by (rule set_remove1_subset)
  with destroy destroy_held [OF destroy.hyps] show ?case
    by (auto simp: pool_inv_def)
next
  case (room s n')
  then show ?case by (auto simp: pool_inv_def)
next
  case (full s n')
  then show ?case by (auto simp: pool_inv_def has_room_def Queue_Size_def)
next
  case (add s n' p)
  then show ?case by (auto simp: pool_inv_def add_conn_Ret less_Suc_eq)
qed

lemma pool_reach_inv: "pool_reach connect n s \<Longrightarrow> pool_inv n s"
  by (induction rule: pool_reach.induct) (auto intro: pool_inv_init pool_step_inv)

section \<open>Properties\<close>

text \<open>C36. Whatever threads acquire and drop connections, each connection is in the pool or held by one thread
  and not both, and the pool never holds more than its size; when no thread holds or is returning a
  connection, it is full.\<close>
theorem pool_conserved:
  assumes "pool_reach connect n s"
  shows "distinct (conns (pool s) @ held s) \<and> length (conns (pool s)) \<le> n
     \<and> (held s = [] \<and> closing s = 0 \<and> adding s = 0 \<longrightarrow> length (conns (pool s)) = n)"
  using pool_reach_inv [OF assms] by (auto simp: pool_inv_def)

lemma pool_conserved_witness:
  "distinct (conns (pool \<lparr>pool = \<lparr>pool_size = 1, conns = [], made = 1\<rparr>, held = [0], closing = 0, adding = 0\<rparr>)
      @ held \<lparr>pool = \<lparr>pool_size = 1, conns = [], made = 1\<rparr>, held = [0], closing = 0, adding = 0\<rparr>)"
proof -
  let ?p = "\<lparr>pool_size = 1, conns = [0], made = 1\<rparr>" and ?c = "\<lambda>_. None"
  have "PqxxConnPool_new ?c 1 = Ret ?p" by (simp add: PqxxConnPool_new_def add_conn_def PqxxConn_new_def Push_def)
  from pool_reach.init [OF this] have r: "pool_reach ?c 1 \<lparr>pool = ?p, held = [], closing = 0, adding = 0\<rparr>" .
  have "pool_step ?c \<lparr>pool = ?p, held = [], closing = 0, adding = 0\<rparr>
      \<lparr>pool = \<lparr>pool_size = 1, conns = [], made = 1\<rparr>, held = [0], closing = 0, adding = 0\<rparr>"
    using pool_step.acquire [of 500 "\<lparr>pool = ?p, held = [], closing = 0, adding = 0\<rparr>"
        "\<lparr>pool_size = 1, conns = [], made = 1\<rparr>" 0 ?c] by (simp add: Acquire_def)
  from pool_conserved [OF pool_reach.step [OF r this]] show ?thesis by blast
qed

end
