(* ===== verification/Schema.thy ===== *)
theory Schema
  imports ConnPool
begin

text \<open>
  \<open>schema/schema-tracker.{h,cpp}\<close>: the set of relation names whose access is controlled. The rows
  of the catalog query are an argument of \<open>Refresh\<close>.
\<close>

section \<open>The operations\<close>

definition ends_with :: "string \<Rightarrow> string \<Rightarrow> bool" where
  "ends_with s t \<longleftrightarrow> length t \<le> length s \<and> drop (length s - length t) s = t"

type_synonym SchemaTracker = "string list"

definition excluded :: "string list" where
  "excluded = [
     ''__access_binding_refs__'',
     ''__access_inheritances__'',
     ''__access_permissions__'',
     ''__access_roles__'',
     ''__access_roles_denorm__'',
     ''__access_roles_expanded__'',
     ''gorp_migrations'']"

definition AddRelName :: "SchemaTracker \<Rightarrow> string \<Rightarrow> SchemaTracker" where
  "AddRelName relnames relname =
     (if \<not> ends_with relname ''__acl__'' \<and> \<not> ends_with relname ''__access_bindings__''
      then List.insert relname relnames else relnames)"

definition Exist :: "SchemaTracker \<Rightarrow> string \<Rightarrow> bool" where
  "Exist relnames relname =
     (if List.member excluded relname \<or> ends_with relname ''__acl__''
         \<or> ends_with relname ''__access_bindings__''
      then False else List.member relnames relname)"

fun Refresh_rows :: "SchemaTracker \<Rightarrow> string list \<Rightarrow> SchemaTracker" where
  "Refresh_rows relnames [] = relnames"
| "Refresh_rows relnames (row # rows) =
     Refresh_rows
       (let relname = cstr row
        in if \<not> ends_with relname ''__acl__'' \<and> \<not> ends_with relname ''__access_bindings__''
           then List.insert relname relnames else relnames) rows"

definition Refresh :: "SchemaTracker \<Rightarrow> nat option option \<Rightarrow> string list run \<Rightarrow> SchemaTracker run" where
  \<comment> \<open>the pool is null, or what \<open>Acquire\<close> returned; then the rows of the catalog query\<close>
  "Refresh relnames pcp catalog =
     (case pcp of
        None \<Rightarrow> Ret relnames
      | Some None \<Rightarrow> Crash NullDeref
      | Some (Some c) \<Rightarrow> bind_run catalog (\<lambda>rows. Ret (Refresh_rows relnames rows)))"

section \<open>The interface of the tracker\<close>

text \<open>
  The rewriting of queries and the plug-ins ask whether a name is controlled and add names. The
  provider promises that adding a name changes the answer for that name only, that an ordinary name
  is controlled once added, and that the names of the proxy's own relations never are.
\<close>

definition internal_name :: "string \<Rightarrow> bool" where
  "internal_name n \<longleftrightarrow> n \<in> set excluded \<or> ends_with n ''__acl__'' \<or> ends_with n ''__access_bindings__''"

locale name_registry =
  fixes known :: "'r \<Rightarrow> string \<Rightarrow> bool"
    and add_name :: "'r \<Rightarrow> string \<Rightarrow> 'r"
    and internal :: "string \<Rightarrow> bool"
  assumes known_add: "\<not> internal n \<Longrightarrow> known (add_name r n) n"
    and known_other: "m \<noteq> n \<Longrightarrow> known (add_name r n) m = known r m"
    and known_not_internal: "known r n \<Longrightarrow> \<not> internal n"
begin

lemma known_add_iff: "known (add_name r n) m \<longleftrightarrow> known r m \<or> (m = n \<and> \<not> internal n)"
  using known_add known_other known_not_internal by metis

lemma known_add_all: "known (fold (\<lambda>n r. add_name r n) ns r) m \<longleftrightarrow> known r m \<or> (m \<in> set ns \<and> \<not> internal m)"
  by (induction ns arbitrary: r) (auto simp: known_add_iff)

lemma known_order: "set ns = set ms \<Longrightarrow>
    known (fold (\<lambda>n r. add_name r n) ns r) m = known (fold (\<lambda>n r. add_name r n) ms r) m"
  by (simp add: known_add_all)

end

interpretation tracker: name_registry Exist AddRelName internal_name
  by unfold_locales (auto simp: Exist_def AddRelName_def internal_name_def)

lemma Refresh_rows_fold: "Refresh_rows r rows = fold (\<lambda>n r. AddRelName r n) (map cstr rows) r"
  by (induction r rows rule: Refresh_rows.induct) (auto simp: AddRelName_def Let_def)

lemma Refresh_Exist: "Refresh r (Some (Some c)) (Ret rows) = Ret r' \<Longrightarrow>
    Exist r' n \<longleftrightarrow> Exist r n \<or> (n \<in> cstr ` set rows \<and> \<not> internal_name n)"
  by (auto simp: Refresh_def Refresh_rows_fold tracker.known_add_all)

lemma ends_with_append [simp]: "ends_with (s @ t) t"
  by (simp add: ends_with_def)

lemma acls_view_not_internal: "\<not> ends_with (t @ ''__acls__'') ''__acl__''"
  by (simp add: ends_with_def)

section \<open>Properties\<close>

text \<open>After a refresh a name is controlled exactly when it was before or is a relation of the catalog, and
  is not one of the proxy's own names.\<close>
theorem refresh_exact:
  assumes "Refresh r (Some (Some c)) (Ret rows) = Ret r'"
  shows "Exist r' n \<longleftrightarrow> Exist r n \<or> (n \<in> cstr ` set rows \<and> \<not> internal_name n)"
  using assms by (rule Refresh_Exist)

lemma refresh_exact_witness:
  "Exist [''docs''] ''docs'' \<longleftrightarrow> Exist [] ''docs'' \<or> (''docs'' \<in> cstr ` set [''docs'', ''docs__access_bindings__''] \<and> \<not> internal_name ''docs'')"
  by (rule refresh_exact [of _ 0]) code_simp

text \<open>The view of access rights that ENABLE ACCESS CONTROL creates for a relation is named with the suffix
  \<open>__acls__\<close> and the tracker excludes the suffix \<open>__acl__\<close>: once such a view is added it counts as a
  controlled relation.\<close>
theorem acls_view_tracked: "Exist (AddRelName r (t @ ''__acls__'')) (t @ ''__acls__'')"
proof -
  have "\<not> ends_with (t @ ''__acls__'') ''__access_bindings__''"
  proof
    assume "ends_with (t @ ''__acls__'') ''__access_bindings__''"
    then obtain u where "t @ ''__acls__'' = u @ ''__access_bindings__''"
      unfolding ends_with_def by (metis append_take_drop_id)
    then have "rev (t @ ''__acls__'') = rev (u @ ''__access_bindings__'')" by simp
    then show False by simp
  qed
  moreover have "t @ ''__acls__'' \<notin> set excluded"
  proof
    assume "t @ ''__acls__'' \<in> set excluded"
    then have "rev (t @ ''__acls__'') \<in> rev ` set excluded" by blast
    then show False by (simp add: excluded_def)
  qed
  ultimately show ?thesis
    using acls_view_not_internal by (intro tracker.known_add) (simp add: internal_name_def)
qed

end
