(* ===== verification/Acler.thy ===== *)
theory Acler
  imports QueryModel Schema
begin

text \<open>
  \<open>query/query-acler.{h,cpp}\<close> and \<open>query/join_expr.tpl\<close>: the rewriting that joins every controlled
  relation of a FROM clause with the view of its access rights. ctemplate with the JSON parser behind
  it is the argument \<open>expand\<close>; \<open>join_expr\<close> is the tree the template describes.
\<close>

section \<open>The template\<close>

record join_dict =
  TABLE_NAME :: string
  OPERATION :: string
  TABLE_ALIAS :: "string option"
  TABLE_REF :: string

definition str_node :: "string \<Rightarrow> json" where
  "str_node s = JObj [(''String'', JObj [(''str'', JStr s)])]"

definition column_ref :: "string \<Rightarrow> string \<Rightarrow> json" where
  "column_ref t c = JObj [(''ColumnRef'', JObj [(''fields'', JArr [str_node t, str_node c])])]"

definition equals :: "json \<Rightarrow> json \<Rightarrow> json" where
  "equals l r = JObj [(''A_Expr'', JObj [(''kind'', JStr ''AEXPR_OP''), (''lexpr'', l),
     (''name'', JArr [str_node ''='']), (''rexpr'', r)])]"

definition range_var :: "string option \<Rightarrow> string \<Rightarrow> json" where
  "range_var alias relname = JObj [(''RangeVar'', JObj
     ((case alias of None \<Rightarrow> [] | Some a \<Rightarrow> [(''alias'', JObj [(''aliasname'', JStr a)])])
      @ [(''inh'', JBool True), (''relname'', JStr relname), (''relpersistence'', JStr ''p'')]))]"

definition join_expr :: "join_dict \<Rightarrow> json" where
  "join_expr d =
     (let ref = TABLE_REF d; acls = TABLE_REF d @ ''__acls__''
      in JObj [(''JoinExpr'', JObj
           [(''jointype'', JStr ''JOIN_INNER''),
            (''larg'', range_var (TABLE_ALIAS d) (TABLE_NAME d)),
            (''quals'', JObj [(''BoolExpr'', JObj
               [(''args'', JArr
                  [equals (column_ref ref ''id'') (column_ref acls ''_id''),
                   equals (column_ref acls ''_principal'')
                     (JObj [(''SQLValueFunction'', JObj [(''op'', JStr ''SVFOP_CURRENT_USER''), (''typmod'', JNum (- 1))])]),
                   equals (column_ref acls ''_operation'')
                     (JObj [(''A_Const'', JObj [(''val'', str_node (OPERATION d))])])]),
                (''boolop'', JStr ''AND_EXPR'')])]),
            (''rarg'', range_var (map_option (\<lambda>a. a @ ''__acls__'') (TABLE_ALIAS d)) (TABLE_NAME d @ ''__acls__''))])])"

section \<open>The rewriting\<close>

definition join_for :: "string \<Rightarrow> json \<Rightarrow> join_dict run" where
  \<comment> \<open>the dictionary for the node of a controlled relation\<close>
  "join_for relname v =
     (if contains v ''alias''
      then bind_run (read_at [Key ''alias'', Key ''aliasname''] v) (\<lambda>(a, _).
           bind_run (get_string a) (\<lambda>aliasname.
             Ret \<lparr>TABLE_NAME = relname, OPERATION = ''SELECT'', TABLE_ALIAS = Some aliasname, TABLE_REF = aliasname\<rparr>))
      else Ret \<lparr>TABLE_NAME = relname, OPERATION = ''SELECT'', TABLE_ALIAS = None, TABLE_REF = relname\<rparr>)"

fun with_items :: "json \<Rightarrow> (string \<times> json) list \<Rightarrow> json" where
  \<comment> \<open>the container after a loop over its items changed their values\<close>
  "with_items (JArr vs) kvs = JArr (map snd kvs)"
| "with_items (JObj kvs') kvs = JObj kvs"
| "with_items j kvs = j"

fun tracked :: "SchemaTracker option \<Rightarrow> string \<Rightarrow> bool" where
  "tracked None relname = False"
| "tracked (Some st) relname = Exist st relname"

text \<open>
  The loops are functions on the items. The loop over a FROM clause may replace the container it
  runs over and return (\<open>Inl\<close>); the loop over the items of a statement only changes their values.
  A scalar is its own only item, under the empty key, and stays as it is.
\<close>

function AclSelectStmt :: "(join_dict \<Rightarrow> json run) \<Rightarrow> SchemaTracker option \<Rightarrow> json \<Rightarrow> json run"
  and select_items :: "(join_dict \<Rightarrow> json run) \<Rightarrow> SchemaTracker option \<Rightarrow> (string \<times> json) list \<Rightarrow> (string \<times> json) list run"
  and AclSelectStmtFromClause :: "(join_dict \<Rightarrow> json run) \<Rightarrow> SchemaTracker option \<Rightarrow> json \<Rightarrow> json run"
  and from_items :: "(join_dict \<Rightarrow> json run) \<Rightarrow> SchemaTracker option \<Rightarrow> (string \<times> json) list
                     \<Rightarrow> (json + (string \<times> json) list) run" where
  "AclSelectStmt expand st j =
     (if is_primitive j then Ret j
      else bind_run (select_items expand st (items j)) (\<lambda>kvs. Ret (with_items j kvs)))"
| "select_items expand st [] = Ret []"
| "select_items expand st ((k, v) # kvs) =
     bind_run
       (if k = ''fromClause'' then AclSelectStmtFromClause expand st v
        else if k = ''intoClause'' then Ret v
        else if k = ''whereClause'' then Ret v
        else if k = ''targetList'' then Ret v
        else if \<not> is_primitive v then AclSelectStmt expand st v
        else Ret v)
       (\<lambda>v'. bind_run (select_items expand st kvs) (\<lambda>kvs'. Ret ((k, v') # kvs')))"
| "AclSelectStmtFromClause expand st j =
     (if is_primitive j then Ret j
      else bind_run (from_items expand st (items j)) (\<lambda>r.
             case r of Inl j' \<Rightarrow> Ret j' | Inr kvs \<Rightarrow> Ret (with_items j kvs)))"
| "from_items expand st [] = Ret (Inr [])"
| "from_items expand st ((k, v) # kvs) =
     (if k = ''RangeVar'' then
        bind_run (read_at [Key ''relname''] v) (\<lambda>(n, v').
        bind_run (get_string n) (\<lambda>relname.
          if \<not> tracked st relname
          then bind_run (from_items expand st kvs) (\<lambda>r.
                 Ret (map_sum id (Cons (k, v')) r))
          else bind_run (join_for relname v') (\<lambda>d.
               bind_run (expand d) (\<lambda>j. Ret (Inl j)))))
      else
        bind_run
          (if k = ''SelectStmt'' then AclSelectStmt expand st v
           else if \<not> is_primitive v then AclSelectStmtFromClause expand st v
           else Ret v)
          (\<lambda>v'. bind_run (from_items expand st kvs) (\<lambda>r.
             Ret (map_sum id (Cons (k, v')) r))))"
  by pat_completeness auto
termination
  by (relation "measure (\<lambda>x. case x of
        Inl (Inl (e, s, j)) \<Rightarrow> json_size j | Inl (Inr (e, s, kvs)) \<Rightarrow> items_size kvs
      | Inr (Inl (e, s, j)) \<Rightarrow> json_size j | Inr (Inr (e, s, kvs)) \<Rightarrow> items_size kvs)")
     (auto simp: items_size_items)

function Acl_json :: "(join_dict \<Rightarrow> json run) \<Rightarrow> SchemaTracker option \<Rightarrow> json \<Rightarrow> json run"
  and Acl_items :: "(join_dict \<Rightarrow> json run) \<Rightarrow> SchemaTracker option \<Rightarrow> (string \<times> json) list \<Rightarrow> (string \<times> json) list run" where
  "Acl_json expand st j =
     (if is_primitive j then Ret j
      else bind_run (Acl_items expand st (items j)) (\<lambda>kvs. Ret (with_items j kvs)))"
| "Acl_items expand st [] = Ret []"
| "Acl_items expand st ((k, v) # kvs) =
     bind_run
       (if k = ''SelectStmt'' then AclSelectStmt expand st v
        else if \<not> is_primitive v then Acl_json expand st v
        else Ret v)
       (\<lambda>v'. bind_run (Acl_items expand st kvs) (\<lambda>kvs'. Ret ((k, v') # kvs')))"
  by pat_completeness auto
termination
  by (relation "measure (\<lambda>x. case x of Inl (e, s, j) \<Rightarrow> json_size j | Inr (e, s, kvs) \<Rightarrow> items_size kvs)")
     (auto simp: items_size_items)

declare AclSelectStmt.simps [simp del] AclSelectStmtFromClause.simps [simp del] Acl_json.simps [simp del]

definition Acl :: "(join_dict \<Rightarrow> json run) \<Rightarrow> SchemaTracker option \<Rightarrow> Query \<Rightarrow> Query run" where
  "Acl expand st q = bind_run (Acl_json expand st (q_json q)) (\<lambda>j. Ret (q\<lparr>q_json := j\<rparr>))"

section \<open>What the rewriting leaves alone\<close>

lemma with_items_same: "\<not> is_primitive j \<Longrightarrow> with_items j (items j) = j"
proof (cases j)
  case (JArr vs)
  have "map snd (index_items n vs) = vs" for n by (induction vs arbitrary: n) auto
  with JArr show ?thesis by simp
qed auto

definition wf_items :: "(string \<times> json) list \<Rightarrow> bool" where
  "wf_items kvs \<longleftrightarrow> (\<forall>(k, v) \<in> set kvs. json_wf v)"

lemma wf_items_simps [simp]: "wf_items []" "wf_items ((k, v) # kvs) \<longleftrightarrow> json_wf v \<and> wf_items kvs"
  by (auto simp: wf_items_def)

lemma wf_items_items: "json_wf j \<Longrightarrow> \<not> is_primitive j \<Longrightarrow> wf_items (items j)"
  using json_wf_items by (auto simp: wf_items_def)

lemma untracked_identity:
  assumes "\<forall>n. \<not> tracked st n"
  shows "json_wf j \<Longrightarrow> AclSelectStmt expand st j = Ret j' \<Longrightarrow> j' = j"
    "wf_items kvs \<Longrightarrow> select_items expand st kvs = Ret kvs' \<Longrightarrow> kvs' = kvs"
    "json_wf j \<Longrightarrow> AclSelectStmtFromClause expand st j = Ret j' \<Longrightarrow> j' = j"
    "wf_items kvs \<Longrightarrow> from_items expand st kvs = Ret r \<Longrightarrow> r = Inr kvs"
  using assms
proof (induction expand st j and expand st kvs and expand st j and expand st kvs
    arbitrary: j' and kvs' and j' and r
    rule: AclSelectStmt_select_items_AclSelectStmtFromClause_from_items.induct)
  case (1 expand st j)
  then show ?case
    by (auto simp: AclSelectStmt.simps [of _ _ j] run_simps wf_items_items with_items_same split: if_splits)
next
  case (3 expand st k v kvs)
  then show ?case by (auto simp: run_simps split: if_splits)
next
  case (4 expand st j)
  then show ?case
    by (cases "is_primitive j")
       (auto simp: AclSelectStmtFromClause.simps [of _ _ j] run_simps wf_items_items with_items_same)
next
  case (6 expand st k v kvs)
  then show ?case by (fastforce simp: run_simps split: if_splits dest: read_string_same)
qed auto

lemma untracked_identity_Acl:
  assumes "\<forall>n. \<not> tracked st n"
  shows "json_wf j \<Longrightarrow> Acl_json expand st j = Ret j' \<Longrightarrow> j' = j"
    "wf_items kvs \<Longrightarrow> Acl_items expand st kvs = Ret kvs' \<Longrightarrow> kvs' = kvs"
  using assms
proof (induction expand st j and expand st kvs arbitrary: j' and kvs' rule: Acl_json_Acl_items.induct)
  case (1 expand st j)
  then show ?case
    by (auto simp: Acl_json.simps [of _ _ j] run_simps wf_items_items with_items_same split: if_splits)
next
  case (3 expand st k v kvs)
  then show ?case by (auto simp: run_simps dest: untracked_identity(1) split: if_splits)
qed auto

lemma no_select_identity:
  shows "''SelectStmt'' \<notin> set (keys_of j) \<Longrightarrow> Acl_json expand st j = Ret j"
    "''SelectStmt'' \<notin> set (concat (map (\<lambda>(k, v). k # keys_of v) kvs)) \<Longrightarrow> Acl_items expand st kvs = Ret kvs"
proof (induction expand st j and expand st kvs rule: Acl_json_Acl_items.induct)
  case (1 expand st j)
  then show ?case by (auto simp: Acl_json.simps [of _ _ j] keys_of.simps [of j] with_items_same)
qed auto

section \<open>Complete mediation\<close>

lemma keys_kept:
  "select_items expand st kvs = Ret kvs' \<Longrightarrow> map fst kvs' = map fst kvs"
  by (induction kvs arbitrary: kvs') (auto simp: run_simps)

lemma map_sum_Inr: "map_sum id f r = Inr q \<longleftrightarrow> (\<exists>x. r = Inr x \<and> q = f x)"
  by (cases r) auto

lemma from_keys_kept:
  "from_items expand st kvs = Ret (Inr kvs') \<Longrightarrow> map fst kvs' = map fst kvs"
proof (induction kvs arbitrary: kvs')
  case (Cons p kvs)
  then show ?case by (cases p) (auto simp: run_simps map_sum_Inr split: if_splits)
qed simp

lemma items_with_items:
  "\<not> is_primitive j \<Longrightarrow> map fst kvs = map fst (items j) \<Longrightarrow> items (with_items j kvs) = kvs"
proof (cases j)
  case (JArr vs)
  have "map fst kvs = map fst (index_items n vs) \<Longrightarrow> index_items n (map snd kvs) = kvs" for n
    by (induction vs arbitrary: kvs n) auto
  moreover assume "map fst kvs = map fst (items j)"
  ultimately show ?thesis using JArr by simp
qed auto

lemma is_primitive_with_items [simp]: "is_primitive (with_items j kvs) = is_primitive j"
  by (cases j) auto

fun range_name :: "json \<Rightarrow> json option" where
  "range_name (JObj kvs) = map_of kvs ''relname''"
| "range_name _ = None"

lemma read_relname:
  assumes "read_at [Key ''relname''] v = Ret (x, v')" "get_string x = Ret n"
  shows "range_name v' = Some (JStr n)"
proof -
  from assms(2) have "x = JStr n" by (cases x) auto
  with assms(1) show ?thesis
    by (cases v) (auto simp: read_at_def run_simps map_of_obj_put split: option.splits)
qed

definition is_guard :: "(join_dict \<Rightarrow> json run) \<Rightarrow> SchemaTracker option \<Rightarrow> json \<Rightarrow> bool" where
  \<comment> \<open>the tree is the expanded template for a controlled relation, under its alias when it has one\<close>
  "is_guard expand st j \<longleftrightarrow>
     (\<exists>d. expand d = Ret j \<and> tracked st (TABLE_NAME d) \<and> OPERATION d = ''SELECT''
          \<and> TABLE_REF d = (case TABLE_ALIAS d of None \<Rightarrow> TABLE_NAME d | Some a \<Rightarrow> a))"

inductive select_ok :: "(join_dict \<Rightarrow> json run) \<Rightarrow> SchemaTracker option \<Rightarrow> json \<Rightarrow> bool"
  and from_ok :: "(join_dict \<Rightarrow> json run) \<Rightarrow> SchemaTracker option \<Rightarrow> json \<Rightarrow> bool"
  for expand :: "join_dict \<Rightarrow> json run" and st :: "SchemaTracker option" where
  select_node:
    "(\<And>k v. (k, v) \<in> set (items j) \<Longrightarrow>
        (k = ''fromClause'' \<longrightarrow> from_ok expand st v)
        \<and> (k \<notin> {''fromClause'', ''intoClause'', ''whereClause'', ''targetList''} \<longrightarrow>
             is_primitive v \<or> select_ok expand st v))
     \<Longrightarrow> select_ok expand st j"
| from_guard: "is_guard expand st j \<Longrightarrow> from_ok expand st j"
| from_node:
    "(\<And>k v. (k, v) \<in> set (items j) \<Longrightarrow>
        (k = ''RangeVar'' \<longrightarrow> (\<exists>n. range_name v = Some (JStr n) \<and> \<not> tracked st n))
        \<and> (k = ''SelectStmt'' \<longrightarrow> select_ok expand st v)
        \<and> (k \<notin> {''RangeVar'', ''SelectStmt''} \<longrightarrow> is_primitive v \<or> from_ok expand st v))
     \<Longrightarrow> from_ok expand st j"

inductive query_ok :: "(join_dict \<Rightarrow> json run) \<Rightarrow> SchemaTracker option \<Rightarrow> json \<Rightarrow> bool"
  for expand :: "join_dict \<Rightarrow> json run" and st :: "SchemaTracker option" where
  "(\<And>k v. (k, v) \<in> set (items j) \<Longrightarrow>
        (k = ''SelectStmt'' \<longrightarrow> select_ok expand st v)
        \<and> (k \<noteq> ''SelectStmt'' \<longrightarrow> is_primitive v \<or> query_ok expand st v))
     \<Longrightarrow> query_ok expand st j"

lemma join_for_guard:
  "join_for n v = Ret d \<Longrightarrow> tracked st n \<Longrightarrow> expand d = Ret j \<Longrightarrow> is_guard expand st j"
  unfolding is_guard_def join_for_def
  by (rule exI [of _ d]) (auto simp: run_simps split: if_splits)

lemma primitive_items: "is_primitive j \<Longrightarrow> (k, v) \<in> set (items j) \<Longrightarrow> k = [] \<and> is_primitive v"
  by (cases j) auto

lemma primitive_ok: "is_primitive j \<Longrightarrow> select_ok expand st j" "is_primitive j \<Longrightarrow> from_ok expand st j"
  by (rule select_node, drule (1) primitive_items, simp) (rule from_node, drule (1) primitive_items, simp)

lemma mediated:
  "AclSelectStmt expand st j = Ret j' \<Longrightarrow> select_ok expand st j'"
  "select_items expand st kvs = Ret kvs' \<Longrightarrow> (k, v) \<in> set kvs' \<Longrightarrow>
     (k = ''fromClause'' \<longrightarrow> from_ok expand st v)
     \<and> (k \<notin> {''fromClause'', ''intoClause'', ''whereClause'', ''targetList''} \<longrightarrow>
          is_primitive v \<or> select_ok expand st v)"
  "AclSelectStmtFromClause expand st j = Ret j' \<Longrightarrow> from_ok expand st j'"
  "from_items expand st kvs = Ret r \<Longrightarrow>
     case r of Inl j \<Rightarrow> is_guard expand st j
     | Inr kvs' \<Rightarrow> (\<forall>(k, v) \<in> set kvs'.
         (k = ''RangeVar'' \<longrightarrow> (\<exists>n. range_name v = Some (JStr n) \<and> \<not> tracked st n))
         \<and> (k = ''SelectStmt'' \<longrightarrow> select_ok expand st v)
         \<and> (k \<notin> {''RangeVar'', ''SelectStmt''} \<longrightarrow> is_primitive v \<or> from_ok expand st v))"
proof (induction expand st j and expand st kvs and expand st j and expand st kvs
    arbitrary: j' and kvs' k v and j' and r
    rule: AclSelectStmt_select_items_AclSelectStmtFromClause_from_items.induct)
  case (1 expand st j)
  show ?case
  proof (cases "is_primitive j")
    case True
    with 1 show ?thesis by (simp add: AclSelectStmt.simps [of _ _ j] primitive_ok)
  next
    case False
    with 1(2) obtain kvs where *: "select_items expand st (items j) = Ret kvs" "j' = with_items j kvs"
      by (auto simp: AclSelectStmt.simps [of _ _ j] run_simps)
    from 1(1) [OF False *(1)] items_with_items [OF False keys_kept [OF *(1)]] show ?thesis
      unfolding *(2) by (intro select_node) simp
  qed
next
  case (3 expand st k v kvs)
  then show ?case by (fastforce simp: run_simps split: if_splits)
next
  case (4 expand st j)
  show ?case
  proof (cases "is_primitive j")
    case True
    with 4 show ?thesis by (simp add: AclSelectStmtFromClause.simps [of _ _ j] primitive_ok)
  next
    case False
    with 4(2) obtain r where *: "from_items expand st (items j) = Ret r"
        "(case r of Inl j' \<Rightarrow> Ret j' | Inr kvs \<Rightarrow> Ret (with_items j kvs)) = Ret j'"
      by (auto simp: AclSelectStmtFromClause.simps [of _ _ j] run_simps)
    note IH = 4(1) [OF False *(1)]
    show ?thesis
    proof (cases r)
      case (Inl g)
      with IH * show ?thesis by (simp add: from_guard)
    next
      case (Inr kvs)
      with *(2) have "j' = with_items j kvs" by simp
      with IH Inr items_with_items [OF False from_keys_kept [OF *(1) [unfolded Inr]]] show ?thesis
        by (intro from_node) auto
    qed
  qed
next
  case (6 expand st k v kvs)
  let ?ok = "\<lambda>r. case r of Inl j \<Rightarrow> is_guard expand st j
     | Inr kvs' \<Rightarrow> (\<forall>(k, v) \<in> set kvs'.
         (k = ''RangeVar'' \<longrightarrow> (\<exists>n. range_name v = Some (JStr n) \<and> \<not> tracked st n))
         \<and> (k = ''SelectStmt'' \<longrightarrow> select_ok expand st v)
         \<and> (k \<notin> {''RangeVar'', ''SelectStmt''} \<longrightarrow> is_primitive v \<or> from_ok expand st v))"
  have step: "?ok r' \<Longrightarrow> ?ok (Inr [(k, w)]) \<Longrightarrow> ?ok (map_sum id (Cons (k, w)) r')" for r' w
    by (cases r') auto
  show ?case
  proof (cases "k = ''RangeVar''")
    case True
    with 6(5) obtain x v' n where n: "read_at [Key ''relname''] v = Ret (x, v')" "get_string x = Ret n"
      by (auto simp: run_simps)
    show ?thesis
    proof (cases "tracked st n")
      case tracked: True
      with 6(5) True n show ?thesis by (auto simp: run_simps dest: join_for_guard)
    next
      case untracked: False
      with 6(5) True n obtain r' where r': "from_items expand st kvs = Ret r'" "r = map_sum id (Cons (k, v')) r'"
        by (auto simp: run_simps)
      from 6(1) [OF True n(1) refl n(2) untracked r'(1)] read_relname [OF n] untracked True r'(2) step
      show ?thesis by simp
    qed
  next
    case False
    with 6(5) obtain w r' where w: "(if k = ''SelectStmt'' then AclSelectStmt expand st v
           else if \<not> is_primitive v then AclSelectStmtFromClause expand st v else Ret v) = Ret w"
      and r': "from_items expand st kvs = Ret r'" "r = map_sum id (Cons (k, w)) r'"
      by (auto simp: run_simps)
    from w False 6(2) [OF False] 6(3) [OF False] have "?ok (Inr [(k, w)])" by (auto split: if_splits)
    with 6(4) [OF False w r'(1)] r'(2) step show ?thesis by simp
  qed
qed auto

section \<open>The result on ordinary queries\<close>

definition plain_name :: "string \<Rightarrow> bool" where
  \<comment> \<open>printable, with nothing that JSON would have to escape\<close>
  "plain_name n \<longleftrightarrow> list_all (\<lambda>c. of_char c \<in> {32..126::nat} \<and> c \<noteq> DQ \<and> c \<noteq> CHR 0x5C) n"

definition access_join :: "string option \<Rightarrow> string \<Rightarrow> json" where
  "access_join alias t = join_expr
     \<lparr>TABLE_NAME = t, OPERATION = ''SELECT'', TABLE_ALIAS = alias,
      TABLE_REF = (case alias of None \<Rightarrow> t | Some a \<Rightarrow> a)\<rparr>"

definition template_ok :: "(join_dict \<Rightarrow> json run) \<Rightarrow> bool" where
  \<comment> \<open>expanding the template and parsing the result gives the tree it describes, for plain names\<close>
  "template_ok expand \<longleftrightarrow>
     (\<forall>d. plain_name (TABLE_NAME d) \<longrightarrow> plain_name (TABLE_REF d) \<longrightarrow> expand d = Ret (join_expr d))"

lemma range_var_parts:
  "read_at [Key ''relname''] (JObj ((case a of None \<Rightarrow> [] | Some a \<Rightarrow> [(''alias'', JObj [(''aliasname'', JStr a)])])
      @ [(''inh'', JBool True), (''relname'', JStr t), (''relpersistence'', JStr ''p'')]))
   = Ret (JStr t, JObj ((case a of None \<Rightarrow> [] | Some a \<Rightarrow> [(''alias'', JObj [(''aliasname'', JStr a)])])
      @ [(''inh'', JBool True), (''relname'', JStr t), (''relpersistence'', JStr ''p'')]))"
  "join_for t (JObj ((case a of None \<Rightarrow> [] | Some a \<Rightarrow> [(''alias'', JObj [(''aliasname'', JStr a)])])
      @ [(''inh'', JBool True), (''relname'', JStr t), (''relpersistence'', JStr ''p'')]))
   = Ret \<lparr>TABLE_NAME = t, OPERATION = ''SELECT'', TABLE_ALIAS = a,
          TABLE_REF = (case a of None \<Rightarrow> t | Some a \<Rightarrow> a)\<rparr>"
  by (cases a; simp add: read_at_def join_for_def)+

lemma range_var_acl:
  assumes "template_ok expand" "plain_name t" "\<forall>x. a = Some x \<longrightarrow> plain_name x"
  shows "AclSelectStmtFromClause expand st (range_var a t)
    = Ret (if tracked st t then access_join a t else range_var a t)"
proof -
  have "expand \<lparr>TABLE_NAME = t, OPERATION = ''SELECT'', TABLE_ALIAS = a,
          TABLE_REF = (case a of None \<Rightarrow> t | Some a \<Rightarrow> a)\<rparr> = Ret (access_join a t)"
    using assms by (cases a) (simp_all add: template_ok_def access_join_def)
  then show ?thesis
    unfolding range_var_def AclSelectStmtFromClause.simps [of _ _ "JObj _"] by (simp add: range_var_parts)
qed

lemma index_not_clause: "dec_nat n \<noteq> ''RangeVar''" "dec_nat n \<noteq> ''SelectStmt''"
  by (rule dec_nat_not_word, simp)+

lemma from_list:
  assumes "template_ok expand"
    "\<forall>(a, t) \<in> set ts. plain_name t \<and> (\<forall>x. a = Some x \<longrightarrow> plain_name x)"
  shows "AclSelectStmtFromClause expand st (JArr (map (\<lambda>(a, t). range_var a t) ts))
       = Ret (JArr (map (\<lambda>(a, t). if tracked st t then access_join a t else range_var a t) ts))"
proof -
  have "from_items expand st (index_items n (map (\<lambda>(a, t). range_var a t) ts))
      = Ret (Inr (index_items n (map (\<lambda>(a, t). if tracked st t then access_join a t else range_var a t) ts)))" for n
    using assms(2)
  proof (induction ts arbitrary: n)
    case (Cons p ts)
    obtain a t where p: "p = (a, t)" by fastforce
    have "\<not> is_primitive (range_var a t)" by (simp add: range_var_def)
    with Cons p range_var_acl [OF assms(1), of t a st] show ?case
      by (simp add: index_not_clause)
  qed simp
  moreover have "map snd (index_items n vs) = vs" for n vs by (induction vs arbitrary: n) auto
  ultimately show ?thesis by (simp add: AclSelectStmtFromClause.simps [of _ _ "JArr _"])
qed

lemma kept_clauses:
  "select_items expand st kvs = Ret kvs' \<Longrightarrow> k \<in> {''intoClause'', ''whereClause'', ''targetList''} \<Longrightarrow>
     map_of kvs' k = map_of kvs k"
  by (induction kvs arbitrary: kvs') (auto simp: run_simps)

lemma Acl_query_ok:
  "Acl_json expand st j = Ret j' \<Longrightarrow> query_ok expand st j'"
  "Acl_items expand st kvs = Ret kvs' \<Longrightarrow> (k, v) \<in> set kvs' \<Longrightarrow>
     (k = ''SelectStmt'' \<longrightarrow> select_ok expand st v)
     \<and> (k \<noteq> ''SelectStmt'' \<longrightarrow> is_primitive v \<or> query_ok expand st v)"
proof (induction expand st j and expand st kvs arbitrary: j' and kvs' k v rule: Acl_json_Acl_items.induct)
  case (1 expand st j)
  show ?case
  proof (cases "is_primitive j")
    case True
    with 1(2) have "is_primitive j'" by (simp add: Acl_json.simps [of _ _ j])
    then show ?thesis by (intro query_ok.intros) (auto dest: primitive_items)
  next
    case False
    with 1(2) obtain kvs where *: "Acl_items expand st (items j) = Ret kvs" "j' = with_items j kvs"
      by (auto simp: Acl_json.simps [of _ _ j] run_simps)
    have "Acl_items expand st l = Ret l' \<Longrightarrow> map fst l' = map fst l" for l l'
      by (induction l arbitrary: l') (auto simp: run_simps)
    with 1(1) [OF False *(1)] items_with_items [OF False] * show ?thesis
      by (intro query_ok.intros) simp
  qed
next
  case (3 expand st k v kvs)
  then show ?case by (fastforce simp: run_simps mediated(1) split: if_splits)
qed simp

section \<open>Properties\<close>

definition sample_select :: "json \<Rightarrow> json" where
  "sample_select from = JArr [JObj [(''RawStmt'', JObj [(''stmt'', JObj [(''SelectStmt'', JObj
     [(''fromClause'', JArr [from]), (''limitOption'', JStr ''LIMIT_OPTION_DEFAULT''),
      (''op'', JStr ''SETOP_NONE'')])])])]]"

lemma sample_Acl:
  "Acl (\<lambda>d. Ret (join_expr d)) (Some [''docs'']) \<lparr>q_valid = True, q_json = sample_select (range_var None ''docs'')\<rparr>
   = Ret \<lparr>q_valid = True, q_json = sample_select (access_join None ''docs'')\<rparr>"
  by code_simp

text \<open>C7. Whatever query the rewriting returns, no controlled relation stands unguarded in a FROM clause of
  a SELECT statement it descends to, at any depth of joins and sub-queries: every place is either the
  expanded template for a controlled relation, or a relation that is not controlled, or a node all of
  whose parts are such. Sub-queries in INTO, WHERE and target lists are not among these places.\<close>
theorem acl_mediates:
  assumes "Acl expand st q = Ret q'"
  shows "query_ok expand st (q_json q')"
  using assms Acl_query_ok(1) by (auto simp: Acl_def run_simps)

lemma acl_mediates_witness:
  "query_ok (\<lambda>d. Ret (join_expr d)) (Some [''docs'']) (sample_select (access_join None ''docs''))"
  using acl_mediates [OF sample_Acl] by simp



text \<open>C22. With no controlled relation in the schema, a query the rewriting accepts is returned unchanged.\<close>
theorem acl_untracked:
  assumes "\<forall>n. \<not> tracked st n" "json_wf (q_json q)" "Acl expand st q = Ret q'"
  shows "q' = q"
  using assms untracked_identity_Acl(1) by (auto simp: Acl_def run_simps)

lemma acl_untracked_witness:
  "(\<lparr>q_valid = True, q_json = sample_select (range_var None ''docs'')\<rparr> :: Query)
   = \<lparr>q_valid = True, q_json = sample_select (range_var None ''docs'')\<rparr>"
  by (rule acl_untracked [where st = None and expand = "\<lambda>d. Ret (join_expr d)"]) (simp, code_simp, code_simp)

text \<open>A query without a SELECT statement, such as a DELETE or an UPDATE, passes the rewriting unchanged,
  whatever relations it names.\<close>
theorem acl_only_select:
  assumes "''SelectStmt'' \<notin> set (keys_of (q_json q))"
  shows "Acl expand st q = Ret q"
  using no_select_identity(1) [OF assms] by (simp add: Acl_def)

lemma acl_only_select_witness:
  "Acl (\<lambda>d. Ret (join_expr d)) (Some [''docs''])
     \<lparr>q_valid = True, q_json = JObj [(''DeleteStmt'', JObj [(''relation'', JObj [(''relname'', JStr ''docs'')])])]\<rparr>
   = Ret \<lparr>q_valid = True, q_json = JObj [(''DeleteStmt'', JObj [(''relation'', JObj [(''relname'', JStr ''docs'')])])]\<rparr>"
  by (rule acl_only_select) code_simp

text \<open>The rewriting of a SELECT statement returns its INTO, WHERE and target-list items as they were, so
  a sub-query inside them reads a controlled relation without its guard.\<close>
theorem select_keeps_clauses:
  assumes "AclSelectStmt expand st (JObj kvs) = Ret j" "k \<in> {''intoClause'', ''whereClause'', ''targetList''}"
  shows "\<exists>kvs'. j = JObj kvs' \<and> map fst kvs' = map fst kvs \<and> map_of kvs' k = map_of kvs k"
  using assms keys_kept kept_clauses by (auto simp: AclSelectStmt.simps [of _ _ "JObj kvs"] run_simps)

lemma select_keeps_clauses_witness:
  "\<exists>kvs'. JObj [(''fromClause'', JArr [access_join None ''docs'']), (''whereClause'', range_var None ''docs'')] = JObj kvs'
     \<and> map fst kvs' = [''fromClause'', ''whereClause''] \<and> map_of kvs' ''whereClause'' = Some (range_var None ''docs'')"
proof -
  have "AclSelectStmt (\<lambda>d. Ret (join_expr d)) (Some [''docs''])
      (JObj [(''fromClause'', JArr [range_var None ''docs'']), (''whereClause'', range_var None ''docs'')])
    = Ret (JObj [(''fromClause'', JArr [access_join None ''docs'']), (''whereClause'', range_var None ''docs'')])"
    by code_simp
  from select_keeps_clauses [OF this, of "''whereClause''"] show ?thesis by simp
qed

end
