(* ===== verification/PrintInfo.thy ===== *)
theory PrintInfo
  imports Buffer
begin

text \<open>
  \<open>session/print-info.cpp\<close>: the log of a message. The text it prints is not modelled, the bytes it
  reads to print it are: every session runs it on each message it receives. Messages are shorter
  than 4 GB, so the 32-bit positions do not wrap.
\<close>

datatype SentBy = BACKEND | FRONTEND

definition and_then_run :: "'a run \<Rightarrow> 'b run \<Rightarrow> 'b run" where
  "and_then_run m r = bind_run m (\<lambda>_. r)"

definition read_len :: "string \<Rightarrow> nat run" where
  \<comment> \<open>the length field, from the unsigned bytes 1 to 4\<close>
  "read_len data =
     bind_run (byte_at data 1) (\<lambda>a. bind_run (byte_at data 2) (\<lambda>b.
     bind_run (byte_at data 3) (\<lambda>c. bind_run (byte_at data 4) (\<lambda>d.
       Ret (of_char a * 2 ^ 24 + of_char b * 2 ^ 16 + of_char c * 2 ^ 8 + of_char d)))))"

definition sign_extend :: "char \<Rightarrow> 32 word" where
  \<comment> \<open>\<open>uint32_t(c)\<close> of a signed char\<close>
  "sign_extend c = word_of_int (if of_char c < (128::nat) then of_char c else of_char c - 256)"

lemma read_len_be32: "n < 2 ^ 32 \<Longrightarrow> read_len (t # be32 n @ r) = Ret n"
  using split_256 [of n] by (simp add: read_len_def be32_def)

lemma cstr_at_Ret: "cstr_at b pos = Ret s \<Longrightarrow> pos + length s < length b"
  using length_cstr_less [of "drop pos b"] by (auto simp: cstr_at_def split: if_splits)

lemma byte_at_length: "byte_at b pos = Ret c \<Longrightarrow> pos < length b"
  by (auto simp: byte_at_def split: if_splits)

function print_fields :: "string \<Rightarrow> nat \<Rightarrow> nat \<Rightarrow> nat run" where
  \<comment> \<open>the loop over the fields of an error response; the position behind them\<close>
  "print_fields data len pos =
     (if pos < len
      then bind_run (byte_at data pos) (\<lambda>_.
           bind_run (cstr_at data (pos + 1)) (\<lambda>v. print_fields data len (pos + 1 + length v + 1)))
      else Ret pos)"
  by pat_completeness auto
termination
  by (relation "measure (\<lambda>(data, len, pos). len - pos)") auto

declare print_fields.simps [simp del]

fun print_rest :: "string \<Rightarrow> nat \<Rightarrow> nat \<Rightarrow> unit run" where
  \<comment> \<open>n bytes from pos on\<close>
  "print_rest data pos n =
     (if n = 0 then Ret () else and_then_run (byte_at data pos) (print_rest data (Suc pos) (n - 1)))"

fun print_names :: "string \<Rightarrow> nat \<Rightarrow> nat \<Rightarrow> unit run" where
  \<comment> \<open>n field names of a row description from pos on, each with its 18 bytes of type data\<close>
  "print_names data n pos =
     (if n = 0 then Ret ()
      else bind_run (cstr_at data pos) (\<lambda>name. print_names data (n - 1) (pos + length name + 1 + 4 + 2 + 4 + 2 + 4 + 2)))"

declare print_rest.simps [simp del] print_names.simps [simp del]

definition print_message :: "SentBy \<Rightarrow> string \<Rightarrow> nat \<Rightarrow> unit run" where
  "print_message src data sz =
     bind_run (byte_at data 0) (\<lambda>type.
       if type = CHR ''Q'' then and_then_run (read_len data) (and_then_run (cstr_at data 5) (Ret ()))
       else if type = CHR ''E'' \<and> src = BACKEND then
         bind_run (read_len data) (\<lambda>len.
         bind_run (print_fields data len 5) (\<lambda>pos. print_rest data pos (sz - pos)))
       else if type = CHR ''T'' \<and> src = BACKEND then
         bind_run (read_len data) (\<lambda>len.
         bind_run (byte_at data 5) (\<lambda>h. bind_run (byte_at data 6) (\<lambda>l.
           let nfield = push_bit 8 (sign_extend h) + sign_extend l
           in print_names data (unat nfield) 7)))
       else if type = CHR ''C'' \<and> src = BACKEND then
         and_then_run (read_len data) (and_then_run (cstr_at data 5) (Ret ()))
       else Ret ())"

definition PrintInfo :: "SentBy \<Rightarrow> string \<Rightarrow> nat \<Rightarrow> unit run" where
  "PrintInfo src data sz =
     bind_run (print_message src data sz) (\<lambda>_.
       if 6 < sz then print_rest data (sz - 6) 6 else Ret ())"

section \<open>When the log is safe\<close>

lemma no_throw_byte_at [simp]: "byte_at b i \<noteq> Throw e"
  by (simp add: byte_at_def)

lemma no_throw_cstr_at [simp]: "cstr_at b i \<noteq> Throw e"
  by (simp add: cstr_at_def)

lemma print_fields_no_throw [simp]: "print_fields data len pos \<noteq> Throw e"
  by (induction data len pos rule: print_fields.induct)
     (subst print_fields.simps, auto simp: run_simps)

lemma print_rest_no_throw [simp]: "print_rest data pos n \<noteq> Throw e"
  by (induction data pos n rule: print_rest.induct)
     (subst print_rest.simps, auto simp: run_simps and_then_run_def)

lemma print_names_no_throw [simp]: "print_names data n pos \<noteq> Throw e"
  by (induction data n pos rule: print_names.induct)
     (subst print_names.simps, auto simp: run_simps)

lemma PrintInfo_no_throw [simp]: "PrintInfo src data sz \<noteq> Throw e"
  by (auto simp: PrintInfo_def print_message_def read_len_def and_then_run_def run_simps Let_def split: if_splits)

lemma print_rest_ok: "pos + n \<le> length data \<Longrightarrow> print_rest data pos n = Ret ()"
  by (induction data pos n rule: print_rest.induct) (subst print_rest.simps, auto simp: and_then_run_def)

lemma print_fields_pos: "print_fields data len pos = Ret p \<Longrightarrow> len \<le> p \<and> pos \<le> p \<and> p \<le> max pos (length data)"
proof (induction data len pos rule: print_fields.induct)
  case (1 data len pos)
  show ?case
  proof (cases "pos < len")
    case True
    with 1(2) obtain c v where *: "byte_at data pos = Ret c" "cstr_at data (pos + 1) = Ret v"
        "print_fields data len (pos + 1 + length v + 1) = Ret p"
      by (subst (asm) print_fields.simps) (auto simp: run_simps)
    from 1(1) [OF True *] cstr_at_Ret [OF *(2)] show ?thesis by auto
  qed (use 1(2) in \<open>subst (asm) print_fields.simps, simp\<close>)
qed

lemma read_len_ok: "4 < length data \<Longrightarrow> \<exists>n. read_len data = Ret n"
  by (simp add: read_len_def)

lemma cstr_at_NUL: "i < length b \<Longrightarrow> b ! i = NUL \<Longrightarrow> pos \<le> i \<Longrightarrow> \<exists>s. cstr_at b pos = Ret s"
proof -
  assume "i < length b" "b ! i = NUL" "pos \<le> i"
  then have "drop pos b ! (i - pos) = NUL" "i - pos < length (drop pos b)" by auto
  then have "NUL \<in> set (drop pos b)" using nth_mem by metis
  then show ?thesis by (simp add: cstr_at_def)
qed

lemma buf_ok_cstr:
  assumes "buf_ok b" "pos < length (buf b)"
  shows "\<exists>s. cstr_at (buf b) pos = Ret s"
proof (rule cstr_at_NUL)
  show "buf b ! (length (buf b) - 1) = NUL"
    using assms by (intro buf_ok_zero) (auto simp: buf_ok_def)
qed (use assms in auto)

definition buf_big :: "Buffer \<Rightarrow> bool" where
  "buf_big b \<longleftrightarrow> buf_ok b \<and> DEFAULT_SIZE \<le> buf_size b"

lemma buf_big_length: "buf_big b \<Longrightarrow> 2048 \<le> length (buf b)"
  by (auto simp: buf_big_def buf_ok_def DEFAULT_SIZE_def)

lemma PrintInfo_safe:
  assumes b: "buf_big b" and n: "n \<le> data_size b"
    and t: "src = FRONTEND \<or> buf b ! 0 \<notin> {CHR ''E'', CHR ''T''}"
  shows "PrintInfo src (buf b) n = Ret ()"
proof -
  have ok: "buf_ok b" using b by (simp add: buf_big_def)
  note len = buf_big_length [OF b]
  obtain l where l: "read_len (buf b) = Ret l" using read_len_ok [of "buf b"] len by auto
  obtain s where s: "cstr_at (buf b) 5 = Ret s" using buf_ok_cstr [OF ok, of 5] len by auto
  have "data_size b \<le> length (buf b)" using ok by (simp add: buf_ok_def)
  then have "6 < n \<Longrightarrow> print_rest (buf b) (n - 6) 6 = Ret ()"
    using n by (intro print_rest_ok) simp
  moreover have "print_message src (buf b) n = Ret ()"
  proof -
    have "byte_at (buf b) 0 = Ret (buf b ! 0)" by (rule byte_at_Ret) (use len in linarith)
    with t l s show ?thesis by (auto simp: print_message_def and_then_run_def)
  qed
  ultimately show ?thesis by (simp add: PrintInfo_def)
qed

section \<open>When it is not\<close>

lemma cstr_at_zeros: "pos < length data \<Longrightarrow> data ! pos = NUL \<Longrightarrow> cstr_at data pos = Ret []"
proof -
  assume "pos < length data" "data ! pos = NUL"
  then have "drop pos data = NUL # drop (Suc pos) data" by (metis Cons_nth_drop_Suc)
  then show ?thesis by (simp add: cstr_at_def cstr_def)
qed

lemma print_names_zeros:
  "\<forall>i < length data. pos \<le> i \<longrightarrow> data ! i = NUL \<Longrightarrow>
     print_names data n pos = (if n = 0 \<or> pos + 19 * (n - 1) < length data then Ret () else Crash OutOfBounds)"
proof (induction data n pos rule: print_names.induct)
  case (1 data n pos)
  show ?case
  proof (cases "n = 0 \<or> length data \<le> pos")
    case True
    then show ?thesis by (subst print_names.simps) (auto simp: cstr_at_def)
  next
    case False
    with "1.prems" have c: "cstr_at data pos = Ret []" by (intro cstr_at_zeros) auto
    with False "1.IH" [OF _ c] "1.prems"
    have "print_names data (n - 1) (pos + 19)
        = (if n - 1 = 0 \<or> pos + 19 + 19 * (n - 1 - 1) < length data then Ret () else Crash OutOfBounds)"
      by (simp add: add.commute)
    then have "print_names data n pos
        = (if n - 1 = 0 \<or> pos + 19 + 19 * (n - 1 - 1) < length data then Ret () else Crash OutOfBounds)"
      using False c by (subst print_names.simps) (simp add: add.commute)
    moreover have "n \<noteq> 1 \<Longrightarrow> pos + 19 + 19 * (n - 1 - 1) = pos + 19 * (n - 1)"
      using False by (cases n; cases "n - 1") auto
    ultimately show ?thesis using False by auto
  qed
qed

definition row_fields :: "string \<Rightarrow> nat" where
  \<comment> \<open>the number of fields a row description announces, as the log reads it\<close>
  "row_fields data = unat (push_bit 8 (sign_extend (data ! 5)) + sign_extend (data ! 6))"

lemma PrintInfo_overrun:
  assumes b: "buf_big b" "data_size b = 7" "buf b ! 0 = CHR ''T''"
    and n: "length (buf b) \<le> 7 + 19 * (row_fields (buf b) - 1)"
  shows "PrintInfo BACKEND (buf b) (data_size b) = Crash OutOfBounds"
proof -
  note len = buf_big_length [OF b(1)]
  have z: "\<forall>i < length (buf b). 7 \<le> i \<longrightarrow> buf b ! i = NUL"
    using b buf_ok_zero by (auto simp: buf_big_def)
  obtain l where l: "read_len (buf b) = Ret l" using read_len_ok [of "buf b"] len by auto
  have "byte_at (buf b) 0 = Ret (buf b ! 0)" by (rule byte_at_Ret) (use len in linarith)
  moreover have "byte_at (buf b) 5 = Ret (buf b ! 5)" "byte_at (buf b) 6 = Ret (buf b ! 6)"
    using len by auto
  moreover have "row_fields (buf b) \<noteq> 0" using n len by (intro notI) simp
  with n print_names_zeros [OF z] have "print_names (buf b) (row_fields (buf b)) 7 = Crash OutOfBounds"
    by simp
  ultimately have "print_message BACKEND (buf b) (data_size b) = Crash OutOfBounds"
    using b(3) l by (simp add: print_message_def row_fields_def Let_def)
  then show ?thesis by (simp add: PrintInfo_def)
qed

text \<open>Logging a message of the client, or a message of the server that is neither an error nor a row
  description, reads only bytes of the buffer, whatever the message holds and however little of it has
  arrived.\<close>
theorem print_safe:
  assumes "buf_big b" "n \<le> data_size b" "src = FRONTEND \<or> buf b ! 0 \<notin> {CHR ''E'', CHR ''T''}"
  shows "PrintInfo src (buf b) n = Ret ()"
  using assms by (rule PrintInfo_safe)

definition sample_buffer :: "string \<Rightarrow> Buffer" where
  "sample_buffer s = \<lparr>buf = s @ replicate (2048 - length s) NUL, buf_size = 1024, data_size = length s\<rparr>"

lemma sample_buffer_big: "length s \<le> 1024 \<Longrightarrow> buf_big (sample_buffer s)"
  by (auto simp: sample_buffer_def buf_big_def buf_ok_def DEFAULT_SIZE_def)

lemma print_safe_witness: "PrintInfo FRONTEND (buf (sample_buffer ''Q'')) 1 = Ret ()"
  by (rule print_safe) (simp_all add: sample_buffer_big, simp add: sample_buffer_def)

text \<open>Logging a row description of which only the header has arrived reads past the end of the buffer
  when it announces enough fields: 109 are enough for a buffer of the default size.\<close>
theorem print_overrun:
  assumes "buf_big b" "data_size b = 7" "buf b ! 0 = CHR ''T''"
    "length (buf b) \<le> 7 + 19 * (row_fields (buf b) - 1)"
  shows "PrintInfo BACKEND (buf b) (data_size b) = Crash OutOfBounds"
  using assms by (rule PrintInfo_overrun)

lemma print_overrun_witness:
  "PrintInfo BACKEND (buf (sample_buffer [CHR ''T'', NUL, NUL, CHR 0x0B, NUL, NUL, CHR 0x6D]))
     (data_size (sample_buffer [CHR ''T'', NUL, NUL, CHR 0x0B, NUL, NUL, CHR 0x6D])) = Crash OutOfBounds"
  by (rule print_overrun) (simp_all add: sample_buffer_big, simp_all add: sample_buffer_def row_fields_def sign_extend_def)

end
