(* ===== verification/Plugins.thy ===== *)
theory Plugins
  imports Conn ProxyCommand Acler PrintInfo
begin

text \<open>
  The data of a session (\<open>session/session.h\<close>) and its plug-ins (\<open>session/plugin.cpp\<close>). A plug-in
  changes the session in place, also when it throws, so it returns the session beside the outcome.
\<close>

section \<open>The session\<close>

record epoll_event =
  ev_fd :: int
  ev_events :: nat

definition EPOLLIN :: nat where "EPOLLIN = 1"
definition EPOLLOUT :: nat where "EPOLLOUT = 4"

record Context =
  c_ev :: epoll_event
  c_initiated :: bool
  c_waiting :: bool
  c_request :: Buffer
  c_response :: Buffer
  c_query :: Query
  c_errno :: int

definition Context_new :: Context where
  "Context_new = \<lparr>c_ev = \<lparr>ev_fd = 0, ev_events = 0\<rparr>, c_initiated = False, c_waiting = False,
     c_request = Buffer_new, c_response = Buffer_new, c_query = Query_new, c_errno = 0\<rparr>"

definition Context_Reset :: "Context \<Rightarrow> Context" where
  "Context_Reset c = Context_new\<lparr>c_initiated := c_initiated c\<rparr>"

record Session =
  parameters :: smap
  cl_socket :: int
  sv_socket :: int
  st :: "SchemaTracker option"
  ctx :: Context

text \<open>
  What one action finds outside the program: the third-party parsers, the sockets, and the database
  that answers on a pooled connection.
\<close>

record env =
  e_pg_parse :: "string \<Rightarrow> pg_error + json run"
  e_pg_deparse :: "json \<Rightarrow> string option"
  e_expand :: "join_dict \<Rightarrow> json run"
  e_proxy_file :: string \<comment> \<open>\<open>__FILE__\<close> of \<open>proxy-command.cpp\<close>\<close>
  e_plugin_file :: string \<comment> \<open>\<open>__FILE__\<close> of \<open>plugin.cpp\<close>\<close>
  e_conn :: bool \<comment> \<open>\<open>Acquire\<close> returned a connection\<close>
  e_work :: "exn option" \<comment> \<open>what opening the transaction throws\<close>
  e_exec1 :: "string \<Rightarrow> exn + string" \<comment> \<open>the value of the column of the only row\<close>
  e_exec :: "string \<Rightarrow> exn option"
  e_commit :: "exn option"
  e_sock :: sock
  e_send :: send_res
  e_errno :: int

definition request_of :: "Session \<Rightarrow> Buffer" where
  "request_of s = c_request (ctx s)"

definition set_request :: "Buffer \<Rightarrow> Session \<Rightarrow> Session" where
  "set_request b s = s\<lparr>ctx := (ctx s)\<lparr>c_request := b\<rparr>\<rparr>"

definition set_response :: "Buffer \<Rightarrow> Session \<Rightarrow> Session" where
  "set_response b s = s\<lparr>ctx := (ctx s)\<lparr>c_response := b\<rparr>\<rparr>"

definition set_query :: "Query \<Rightarrow> Session \<Rightarrow> Session" where
  "set_query q s = s\<lparr>ctx := (ctx s)\<lparr>c_query := q\<rparr>\<rparr>"

definition query_json :: "Session \<Rightarrow> json" where
  "query_json s = q_json (c_query (ctx s))"

definition set_json :: "json \<Rightarrow> Session \<Rightarrow> Session" where
  "set_json j s = set_query (c_query (ctx s)\<lparr>q_json := j\<rparr>) s"

section \<open>Threading the session\<close>

type_synonym 'a act = "Session \<times> 'a run"

fun then_do :: "'a act \<Rightarrow> (Session \<Rightarrow> 'a \<Rightarrow> 'b act) \<Rightarrow> 'b act" where
  "then_do (s, Ret x) f = f s x"
| "then_do (s, Throw e) f = (s, Throw e)"
| "then_do (s, Crash c) f = (s, Crash c)"

fun throw_opt :: "exn option \<Rightarrow> unit run" where
  "throw_opt None = Ret ()"
| "throw_opt (Some e) = Throw e"

fun throw_sum :: "exn + 'a \<Rightarrow> 'a run" where
  "throw_sum (Inr x) = Ret x"
| "throw_sum (Inl e) = Throw e"

definition touch_json :: "step list \<Rightarrow> Session \<Rightarrow> json act" where
  \<comment> \<open>read \<open>j[k1][k2]\<dots>\<close> of the query, which then holds the nulls the access inserted\<close>
  "touch_json p s =
     (case read_at p (query_json s) of
        Ret (v, j) \<Rightarrow> (set_json j s, Ret v)
      | Throw e \<Rightarrow> (s, Throw e)
      | Crash c \<Rightarrow> (s, Crash c))"

fun item_steps :: "json \<Rightarrow> step list list" where
  \<comment> \<open>the paths of \<open>items()\<close> from the value itself\<close>
  "item_steps (JArr vs) = map (\<lambda>i. [Idx i]) [0..<length vs]"
| "item_steps (JObj kvs) = map (\<lambda>(k, v). [Key k]) kvs"
| "item_steps JNull = []"
| "item_steps j = [[]]"

section \<open>Plug-ins before the request\<close>

definition TranslateProxyCommandPlugIn :: "env \<Rightarrow> Session \<Rightarrow> Error act" where
  "TranslateProxyCommandPlugIn env s =
     then_do (s, byte_at (buf (request_of s)) 0) (\<lambda>s tag.
       if tag \<noteq> CHR ''Q'' then (s, Ret NoError)
       else then_do (s, cstr_at (buf (request_of s)) 5) (\<lambda>s text.
              case Translate (e_proxy_file env) text of
                (translated, err) \<Rightarrow>
                  if Error_bool err then (s, Ret err)
                  else (set_request (SetQuery (request_of s) translated) s, Ret NoError)))"

definition ParseQueryPlugIn :: "env \<Rightarrow> Session \<Rightarrow> Error act" where
  "ParseQueryPlugIn env s =
     then_do (s, byte_at (buf (request_of s)) 0) (\<lambda>s tag.
       if tag \<noteq> CHR ''Q'' then (s, Ret NoError)
       else then_do (s, cstr_at (buf (request_of s)) 5) (\<lambda>s text.
            then_do (s, Parse (e_pg_parse env) text) (\<lambda>s (q, err).
              (set_query q s, Ret NoError))))"

definition AclQueryPlugIn :: "env \<Rightarrow> Session \<Rightarrow> Error act" where
  \<comment> \<open>a query the rewriting gives up on half-way is not read again: the response is an error\<close>
  "AclQueryPlugIn env s0 =
     (let s = s0\<lparr>parameters := smap_touch (parameters s0) ''rolsuper''\<rparr>
      in if smap_get (parameters s) ''rolsuper'' = ''t'' then (s, Ret NoError)
         else if \<not> Query_bool (c_query (ctx s)) then (s, Ret NoError)
         else then_do (s, Acl (e_expand env) (st s) (c_query (ctx s))) (\<lambda>s q.
              then_do (set_query q s, ToString (e_pg_deparse env) q) (\<lambda>s qstr.
                (set_request (SetQuery (request_of s) qstr) s, Ret NoError))))"

fun drop_table_names :: "step list \<Rightarrow> step list list \<Rightarrow> Session \<Rightarrow> string list act" where
  \<comment> \<open>the loop over the objects of the statement\<close>
  "drop_table_names p [] s = (s, Ret [])"
| "drop_table_names p (i # is) s =
     then_do (touch_json (p @ i @ [Key ''List'', Key ''items'', Idx 0, Key ''String'', Key ''str'']) s) (\<lambda>s v.
     then_do (s, get_string v) (\<lambda>s tn.
     then_do (s, case st s of None \<Rightarrow> Crash NullDeref | Some t \<Rightarrow> Ret (Exist t tn)) (\<lambda>s exist.
     then_do (drop_table_names p is s) (\<lambda>s tns.
       (s, Ret (if exist then (tn @ ''__access_bindings__'') # tns else tns))))))"

definition drop_object :: "string \<Rightarrow> json" where
  "drop_object tn = JObj [(''List'', JObj [(''items'', JArr [JObj [(''String'', JObj [(''str'', JStr tn)])]])])]"

fun push_objects :: "step list \<Rightarrow> string list \<Rightarrow> json \<Rightarrow> json run" where
  "push_objects p [] j = Ret j"
| "push_objects p (tn # tns) j =
     bind_run (update_at p (\<lambda>v. bind_run (push_back v (drop_object tn)) (\<lambda>v'. Ret ((), v'))) j)
       (\<lambda>(_, j'). push_objects p tns j')"

definition test_query :: "string list \<Rightarrow> Query \<Rightarrow> Query run" where
  \<comment> \<open>the copy of the query that drops the binding tables as well\<close>
  "test_query tns q =
     (case FindNode (q_json (Query_copy q)) ''objects'' of
        None \<Rightarrow> Crash NullDeref
      | Some p \<Rightarrow> bind_run (push_objects p tns (q_json (Query_copy q))) (\<lambda>j. Ret (Query_copy q\<lparr>q_json := j\<rparr>)))"

definition begin_work :: "env \<Rightarrow> unit run" where
  \<comment> \<open>\<open>Acquire\<close> and \<open>pqxx::work w(*pqxx)\<close>\<close>
  "begin_work env = (if e_conn env then throw_opt (e_work env) else Crash NullDeref)"

definition set_behavior :: "step list \<Rightarrow> json \<Rightarrow> (unit \<times> json) run" where
  "set_behavior p = update_at (p @ [Key ''behavior'']) (\<lambda>_. Ret ((), JStr ''DROP_CASCADE''))"

definition DropTablePlugIn :: "env \<Rightarrow> Session \<Rightarrow> Error act" where
  "DropTablePlugIn env s =
     (if \<not> Query_bool (c_query (ctx s)) then (s, Ret NoError)
      else case FindNode (query_json s) ''DropStmt'' of
        None \<Rightarrow> (s, Ret NoError)
      | Some n \<Rightarrow>
          then_do (touch_json (n @ [Key ''removeType'']) s) (\<lambda>s v.
            if v \<noteq> JStr ''OBJECT_TABLE'' then (s, Ret NoError)
            else
              then_do (touch_json (n @ [Key ''objects'']) s) (\<lambda>s objects.
              then_do (drop_table_names (n @ [Key ''objects'']) (item_steps objects) s) (\<lambda>s table_names.
                if table_names = [] then (s, Ret NoError)
                else
                  then_do (s, test_query table_names (c_query (ctx s))) (\<lambda>s test_q.
                  then_do (s, ToString (e_pg_deparse env) test_q) (\<lambda>s test_qstr.
                  then_do (s, begin_work env) (\<lambda>s _.
                    case e_exec env test_qstr of
                      Some (SqlError m) \<Rightarrow> (s, Ret NoError)
                    | Some e \<Rightarrow> (s, Throw e)
                    | None \<Rightarrow>
                        then_do (s, set_behavior n (query_json s)) (\<lambda>s (_, j).
                        then_do (set_json j s, ToString (e_pg_deparse env) (c_query (ctx (set_json j s)))) (\<lambda>s qstr.
                          (set_request (SetQuery (request_of s) qstr) s, Ret NoError))))))))))"

record id_flags =
  have_id :: bool
  not_null :: bool
  is_unique :: bool
  primary :: bool

fun inspect_constraints :: "step list list \<Rightarrow> step list \<Rightarrow> id_flags \<Rightarrow> Session \<Rightarrow> id_flags act" where
  \<comment> \<open>the constraints of the id column\<close>
  "inspect_constraints [] p fl s = (s, Ret fl)"
| "inspect_constraints (i # is) p fl s =
     then_do (touch_json (p @ i @ [Key ''Constraint'', Key ''contype'']) s) (\<lambda>s contype.
       inspect_constraints is p
         (fl\<lparr>not_null := not_null fl \<or> contype = JStr ''CONSTR_NOTNULL'',
             is_unique := is_unique fl \<or> contype = JStr ''CONSTR_UNIQUE'',
             primary := primary fl \<or> contype = JStr ''CONSTR_PRIMARY''\<rparr>) s)"

definition inspect_column :: "step list \<Rightarrow> id_flags \<Rightarrow> Session \<Rightarrow> id_flags act" where
  \<comment> \<open>\<open>p\<close> is the path of the element\<close>
  "inspect_column p fl s =
     then_do (touch_json (p @ [Key ''ColumnDef'', Key ''colname'']) s) (\<lambda>s colname.
       if colname = JStr ''id''
       then then_do (touch_json (p @ [Key ''ColumnDef'', Key ''constraints'']) s) (\<lambda>s constraints.
              inspect_constraints (item_steps constraints) (p @ [Key ''ColumnDef'', Key ''constraints''])
                (fl\<lparr>have_id := True\<rparr>) s)
       else (s, Ret fl))"

definition inspect_table_constraint :: "step list \<Rightarrow> id_flags \<Rightarrow> Session \<Rightarrow> id_flags act" where
  "inspect_table_constraint p fl s =
     then_do (touch_json (p @ [Key ''Constraint'', Key ''contype'']) s) (\<lambda>s contype.
       if contype = JStr ''CONSTR_PRIMARY''
       then then_do (touch_json (p @ [Key ''Constraint'', Key ''keys'']) s) (\<lambda>s keys.
              if json_len keys = 1
              then then_do (s, read_at [Idx 0, Key ''String'', Key ''str''] keys) (\<lambda>s (k, _).
                     (s, Ret (fl\<lparr>primary := primary fl \<or> k = JStr ''id''\<rparr>)))
              else (s, Ret fl))
       else (s, Ret fl))"

fun inspect_elements :: "step list list \<Rightarrow> step list \<Rightarrow> id_flags \<Rightarrow> Session \<Rightarrow> id_flags act" where
  "inspect_elements [] p fl s = (s, Ret fl)"
| "inspect_elements (i # is) p fl s =
     then_do (inspect_column (p @ i) fl s) (\<lambda>s fl.
     then_do (inspect_table_constraint (p @ i) fl s) (\<lambda>s fl.
       inspect_elements is p fl s))"

definition id_missing_error :: "string \<Rightarrow> Error" where
  "id_missing_error file = Error_init
     [(''S'', ''ERROR''), (''C'', ''42P16''), (''M'', ''column '' @ [DQ] @ ''id'' @ [DQ] @ '' missing''),
      (''F'', file), (''L'', ''272''), (''R'', ''EnsureNewTableHasIdPlugIn'')]"

definition id_not_key_error :: "string \<Rightarrow> Error" where
  "id_not_key_error file = Error_init
     [(''S'', ''ERROR''), (''C'', ''42P16''),
      (''M'', ''column '' @ [DQ] @ ''id'' @ [DQ] @ '' is neither PRIMARY nor NOT NULL UNIQUE''),
      (''F'', file), (''L'', ''286''), (''R'', ''EnsureNewTableHasIdPlugIn'')]"

definition id_verdict :: "string \<Rightarrow> id_flags \<Rightarrow> Error" where
  "id_verdict file fl =
     (if \<not> have_id fl then id_missing_error file
      else if \<not> primary fl \<and> \<not> (not_null fl \<and> is_unique fl) then id_not_key_error file
      else NoError)"

definition EnsureNewTableHasIdPlugIn :: "env \<Rightarrow> Session \<Rightarrow> Error act" where
  "EnsureNewTableHasIdPlugIn env s =
     (if \<not> Query_bool (c_query (ctx s)) then (s, Ret NoError)
      else case FindNode (query_json s) ''CreateStmt'' of
        None \<Rightarrow> (s, Ret NoError)
      | Some n \<Rightarrow>
          then_do (touch_json (n @ [Key ''relation'', Key ''relname'']) s) (\<lambda>s v.
          then_do (s, get_string v) (\<lambda>s table_name.
            if ends_with table_name ''__access_bindings__'' then (s, Ret NoError)
            else
              then_do (touch_json (n @ [Key ''tableElts'']) s) (\<lambda>s elts.
              then_do (inspect_elements (item_steps elts) (n @ [Key ''tableElts''])
                  \<lparr>have_id = False, not_null = False, is_unique = False, primary = False\<rparr> s) (\<lambda>s fl.
                (s, Ret (id_verdict (e_plugin_file env) fl)))))))"

definition RestrictInternalTableAccessPlugIn :: "env \<Rightarrow> Session \<Rightarrow> Error act" where
  "RestrictInternalTableAccessPlugIn env s = (s, Ret NoError)"

section \<open>Plug-ins after the response\<close>

definition rolsuper_sql :: "string \<Rightarrow> string" where
  "rolsuper_sql user = ''SELECT rolsuper FROM pg_roles WHERE rolname = '' @ quoted user"

definition lookup_rolsuper :: "env \<Rightarrow> Session \<Rightarrow> unit act" where
  \<comment> \<open>ask the database about the user of the session and keep the answer\<close>
  "lookup_rolsuper env s =
     then_do (s, begin_work env) (\<lambda>s _.
     then_do (s\<lparr>parameters := smap_touch (parameters s) ''user''\<rparr>,
              throw_sum (e_exec1 env (rolsuper_sql (smap_get (parameters s) ''user'')))) (\<lambda>s r.
     then_do (s, throw_opt (e_commit env)) (\<lambda>s _.
       (s\<lparr>parameters := smap_put (parameters s) ''rolsuper'' (cstr r)\<rparr>, Ret ()))))"

definition UpdateParametersPlugIn :: "env \<Rightarrow> Session \<Rightarrow> Error act" where
  "UpdateParametersPlugIn env s =
     (if \<not> Query_bool (c_query (ctx s)) then (s, Ret NoError)
      else case FindNode (query_json s) ''VariableSetStmt'' of
        None \<Rightarrow> (s, Ret NoError)
      | Some n \<Rightarrow>
          then_do (touch_json (n @ [Key ''name'']) s) (\<lambda>s v.
            if v \<noteq> JStr ''role'' then (s, Ret NoError)
            else
              then_do (s, byte_at (buf (c_response (ctx s))) 0) (\<lambda>s mtype.
                if mtype \<noteq> CHR ''C'' then (s, Ret NoError)
                else
                  then_do (touch_json (n @ [Key ''args'', Idx 0, Key ''A_Const'', Key ''val'', Key ''String'', Key ''str'']) s) (\<lambda>s v.
                  then_do (s, get_string v) (\<lambda>s user.
                  then_do (lookup_rolsuper env (s\<lparr>parameters := smap_put (parameters s) ''user'' user\<rparr>)) (\<lambda>s _.
                    (s, Ret NoError)))))))"

definition UpdateSchemaPlugIn :: "env \<Rightarrow> Session \<Rightarrow> Error act" where
  "UpdateSchemaPlugIn env s =
     (if \<not> Query_bool (c_query (ctx s)) then (s, Ret NoError)
      else
        then_do (s, byte_at (buf (c_response (ctx s))) 0) (\<lambda>s mtype.
          if mtype \<noteq> CHR ''C'' then (s, Ret NoError)
          else case FindNode (query_json s) ''CreateStmt'' of
            None \<Rightarrow> (s, Ret NoError)
          | Some n \<Rightarrow>
              then_do (touch_json (n @ [Key ''relation'', Key ''relname'']) s) (\<lambda>s v.
              then_do (s, get_string v) (\<lambda>s table_name.
              then_do (s, read_at n (query_json s)) (\<lambda>s (stmt, _).
              then_do (if contains stmt ''if_not_exists''
                       then then_do (touch_json (n @ [Key ''if_not_exists'']) s) (\<lambda>s v. (s, get_bool v))
                       else (s, Ret False)) (\<lambda>s if_not_exists.
                case st s of
                  None \<Rightarrow> (s, Crash NullDeref)
                | Some t \<Rightarrow> (s\<lparr>st := Some (AddRelName t table_name)\<rparr>, Ret NoError)))))))"

section \<open>The chains\<close>

definition pre_request_plugins :: "(env \<Rightarrow> Session \<Rightarrow> Error act) list" where
  "pre_request_plugins =
     [TranslateProxyCommandPlugIn, ParseQueryPlugIn, AclQueryPlugIn, DropTablePlugIn,
      EnsureNewTableHasIdPlugIn, RestrictInternalTableAccessPlugIn]"

definition post_response_plugins :: "(env \<Rightarrow> Session \<Rightarrow> Error act) list" where
  "post_response_plugins = [UpdateParametersPlugIn, UpdateSchemaPlugIn]"

fun apply_pre :: "(env \<Rightarrow> Session \<Rightarrow> Error act) list \<Rightarrow> env \<Rightarrow> Session \<Rightarrow> Error act" where
  \<comment> \<open>the loop of \<open>ApplyPreRequestPlugins\<close>: the first error, or none\<close>
  "apply_pre [] env s = (s, Ret NoError)"
| "apply_pre (p # ps) env s =
     then_do (p env s) (\<lambda>s err. if Error_bool err then (s, Ret err) else apply_pre ps env s)"

fun apply_post :: "(env \<Rightarrow> Session \<Rightarrow> Error act) list \<Rightarrow> env \<Rightarrow> Session \<Rightarrow> unit act" where
  \<comment> \<open>the loop of \<open>ApplyPostResponsePlugins\<close>: errors are dropped\<close>
  "apply_post [] env s = (s, Ret ())"
| "apply_post (p # ps) env s = then_do (p env s) (\<lambda>s err. apply_post ps env s)"

end
