(* ===== verification/StateMachine.thy ===== *)
theory StateMachine
  imports Prelude
begin

text \<open>
  \<open>state-machine/state-machine.h\<close>: a machine whose states carry the action to take in them; an action
  returns the next state or null, and null terminates the machine.
\<close>

record 'n StateMachine =
  current_state :: "'n option"
  terminated :: bool

definition SetInitialState :: "'n \<Rightarrow> 'n StateMachine" where
  "SetInitialState n = \<lparr>current_state = Some n, terminated = False\<rparr>"

definition IsTerminated :: "'n StateMachine \<Rightarrow> bool" where
  "IsTerminated m = terminated m"

definition TakeAction :: "('n \<Rightarrow> 's \<Rightarrow> ('n option \<times> 's) run) \<Rightarrow> 'n StateMachine \<Rightarrow> 's
    \<Rightarrow> ('n StateMachine \<times> 's) run" where
  "TakeAction action m s =
     (if \<not> terminated m
      then (case current_state m of
              None \<Rightarrow> Crash NullDeref
            | Some n \<Rightarrow> bind_run (action n s) (\<lambda>(next, s').
                Ret (\<lparr>current_state = next, terminated = next = None\<rparr>, s')))
      else Ret (m, s))"

section \<open>The interface of a machine\<close>

text \<open>
  A client of the machine gives it the action of every state, each under some admissible input from
  outside (\<open>'e\<close>), and promises an invariant of state and data that the initial state has and every
  action keeps. In return every state the machine reaches has the invariant, and a run that ends in a
  fault ends in the action of a state with the invariant, never in a dereferenced null state.
\<close>

fun take_actions :: "('e \<Rightarrow> 'n \<Rightarrow> 's \<Rightarrow> ('n option \<times> 's) run) \<Rightarrow> 'e list \<Rightarrow> 'n StateMachine \<Rightarrow> 's
    \<Rightarrow> ('n StateMachine \<times> 's) run" where
  "take_actions action [] m s = Ret (m, s)"
| "take_actions action (e # es) m s =
     bind_run (TakeAction (action e) m s) (\<lambda>(m', s'). take_actions action es m' s')"

locale machine =
  fixes action :: "'e \<Rightarrow> 'n \<Rightarrow> 's \<Rightarrow> ('n option \<times> 's) run"
    and ok :: "'e \<Rightarrow> bool"
    and first :: "'n"
    and start :: "'s \<Rightarrow> bool"
    and inv :: "'n option \<Rightarrow> 's \<Rightarrow> bool"
  assumes inv_start: "start s \<Longrightarrow> inv (Some first) s"
    and inv_action: "ok e \<Longrightarrow> inv (Some n) s \<Longrightarrow> action e n s = Ret (next, s') \<Longrightarrow> inv next s'"
begin

definition good :: "'n StateMachine \<Rightarrow> 's \<Rightarrow> bool" where
  "good m s \<longleftrightarrow> inv (current_state m) s \<and> (terminated m \<longleftrightarrow> current_state m = None)"

lemma good_start: "start s \<Longrightarrow> good (SetInitialState first) s"
  by (simp add: good_def SetInitialState_def inv_start)

lemma good_TakeAction: "ok e \<Longrightarrow> good m s \<Longrightarrow> TakeAction (action e) m s = Ret (m', s') \<Longrightarrow> good m' s'"
  by (auto simp: good_def TakeAction_def run_simps inv_action split: if_splits option.splits)

lemma good_take_actions:
  "\<forall>e \<in> set es. ok e \<Longrightarrow> good m s \<Longrightarrow> take_actions action es m s = Ret (m', s') \<Longrightarrow> good m' s'"
  by (induction es arbitrary: m s) (auto simp: run_simps dest: good_TakeAction)

lemma reached_inv:
  "\<forall>e \<in> set es. ok e \<Longrightarrow> start s \<Longrightarrow>
     take_actions action es (SetInitialState first) s = Ret (m', s') \<Longrightarrow>
     inv (current_state m') s' \<and> (terminated m' \<longleftrightarrow> current_state m' = None)"
  using good_take_actions good_start unfolding good_def by blast

lemma good_crash:
  "good m s \<Longrightarrow> TakeAction (action e) m s = Crash c \<Longrightarrow>
     \<exists>n. current_state m = Some n \<and> inv (Some n) s \<and> action e n s = Crash c"
  by (auto simp: good_def TakeAction_def run_simps split: if_splits option.splits)

lemma reached_crash:
  assumes "\<forall>e \<in> set es. ok e" "start s" "take_actions action es (SetInitialState first) s = Crash c"
  shows "\<exists>e \<in> set es. \<exists>n s'. inv (Some n) s' \<and> action e n s' = Crash c"
proof -
  have "\<forall>e \<in> set es. ok e \<Longrightarrow> good m s \<Longrightarrow> take_actions action es m s = Crash c \<Longrightarrow>
      \<exists>e \<in> set es. \<exists>n s'. inv (Some n) s' \<and> action e n s' = Crash c" for m s
  proof (induction es arbitrary: m s)
    case (Cons e es)
    from Cons.prems(3) consider "TakeAction (action e) m s = Crash c"
      | m' s' where "TakeAction (action e) m s = Ret (m', s')" "take_actions action es m' s' = Crash c"
      by (auto simp: run_simps)
    then show ?case
    proof cases
      case 1
      from good_crash [OF Cons.prems(2) this] show ?thesis by auto
    next
      case 2
      with Cons.prems good_TakeAction Cons.IH [of m' s'] show ?thesis by auto
    qed
  qed simp
  with assms good_start show ?thesis by blast
qed

end

end
