(* ===== verification/SessionStates.thy ===== *)
theory SessionStates
  imports Plugins StateMachine
begin

text \<open>
  \<open>session/session.{h,cpp}\<close>: the states of a session and the action of each, with what one action
  finds outside (\<open>env\<close>) as its argument. An exception that leaves an action leaves \<open>TakeAction\<close>.
\<close>

section \<open>The states\<close>

datatype sstate =
    INITIATE
  | PREPARE_TO_RECEIVE_REQUEST
  | RECEIVE_REQUEST
  | APPLY_PRE_REQUEST_PLUGINS
  | PREPARE_TO_FORWARD_REQUEST
  | FORWARD_REQUEST
  | PREPARE_TO_RECEIVE_RESPONSE
  | RECEIVE_RESPONSE
  | APPLY_POST_RESPONSE_PLUGINS
  | PREPARE_TO_FORWARD_RESPONSE
  | FORWARD_RESPONSE
  | RESET_CONTEXT

type_synonym next_state = "(sstate option \<times> Session) run"

definition Session_new :: "int \<Rightarrow> int \<Rightarrow> SchemaTracker option \<Rightarrow> Session" where
  "Session_new cl sv t = \<lparr>parameters = [], cl_socket = cl, sv_socket = sv, st = t, ctx = Context_new\<rparr>"

definition IsWaiting :: "Session \<Rightarrow> bool" where
  "IsWaiting s = c_waiting (ctx s)"

definition GetEpollEvent :: "Session \<Rightarrow> epoll_event" where
  "GetEpollEvent s = c_ev (ctx s)"

definition wait_for :: "int \<Rightarrow> nat \<Rightarrow> Session \<Rightarrow> Session" where
  "wait_for fd evs s = s\<lparr>ctx := (ctx s)\<lparr>c_ev := \<lparr>ev_fd = fd, ev_events = evs\<rparr>, c_waiting := True\<rparr>\<rparr>"

definition stop_waiting :: "Session \<Rightarrow> Session" where
  "stop_waiting s = s\<lparr>ctx := (ctx s)\<lparr>c_waiting := False\<rparr>\<rparr>"

definition fail_with :: "int \<Rightarrow> Session \<Rightarrow> Session" where
  "fail_with e s = s\<lparr>ctx := (ctx s)\<lparr>c_errno := e\<rparr>\<rparr>"

section \<open>Starting up\<close>

function parse_params :: "string \<Rightarrow> nat \<Rightarrow> smap \<Rightarrow> smap run" where
  \<comment> \<open>the loop over the parameters of a startup message\<close>
  "parse_params data pos ps =
     bind_run (byte_at data pos) (\<lambda>c.
       if c = NUL then Ret ps
       else
         bind_run (cstr_at data pos) (\<lambda>pname.
         bind_run (cstr_at data (pos + length pname + 1)) (\<lambda>pval.
           let ps' = smap_put ps pname pval
           in parse_params data (pos + length pname + 1 + length pval + 1)
                (if pname = ''user'' \<and> \<not> smap_has ps' ''database''
                 then smap_put ps' ''database'' pval else ps'))))"
  by pat_completeness auto
termination
  by (relation "measure (\<lambda>(data, pos, ps). length data - pos)") (auto dest: byte_at_length)

declare parse_params.simps [simp del]

definition Initiate :: "env \<Rightarrow> Session \<Rightarrow> next_state" where
  \<comment> \<open>the length and the protocol version are only printed\<close>
  "Initiate env s =
     (if Buffer_Size (request_of s) \<le> 8 then Ret (Some PREPARE_TO_FORWARD_REQUEST, s)
      else
        bind_run (byte_at (buf (request_of s)) 7) (\<lambda>_.
        bind_run (parse_params (buf (request_of s)) 8 (parameters s)) (\<lambda>ps.
          (case lookup_rolsuper env (s\<lparr>parameters := ps\<rparr>) of
             (s, r) \<Rightarrow> bind_run r (\<lambda>_.
               Ret (Some PREPARE_TO_FORWARD_REQUEST, s\<lparr>ctx := (ctx s)\<lparr>c_initiated := True\<rparr>\<rparr>))))))"

section \<open>Requests\<close>

definition PrepareToReceiveRequest :: "env \<Rightarrow> Session \<Rightarrow> next_state" where
  "PrepareToReceiveRequest env s = Ret (Some RECEIVE_REQUEST, wait_for (cl_socket s) EPOLLIN s)"

definition ReceiveRequest :: "env \<Rightarrow> Session \<Rightarrow> next_state" where
  "ReceiveRequest env s =
     bind_run (ClientConn_ReceiveRequest (request_of s) (e_sock env)) (\<lambda>(b, res, err, _).
       let s = set_request b s
       in if res \<le> 0 then Ret (None, fail_with (case err of Some e \<Rightarrow> e | None \<Rightarrow> e_errno env) s)
          else bind_run (PrintInfo FRONTEND (buf b) (nat res)) (\<lambda>_.
                 Ret (Some (if c_initiated (ctx s) then APPLY_PRE_REQUEST_PLUGINS else INITIATE),
                      stop_waiting s)))"

definition what :: "exn \<Rightarrow> string" where
  "what e = (case e of SqlError m \<Rightarrow> m | StdException m \<Rightarrow> m)"

definition internal_error :: "exn \<Rightarrow> Error" where
  "internal_error e = Error_init [(''S'', ''ERROR''), (''C'', ''XX000''), (''M'', what e)]"

definition respond_error :: "Error \<Rightarrow> Session \<Rightarrow> next_state" where
  \<comment> \<open>\<open>SetError\<close>, the log of the response, and on to the client\<close>
  "respond_error err s =
     bind_run (SetError (c_response (ctx s)) err) (\<lambda>b.
     bind_run (PrintInfo BACKEND (buf b) (Buffer_Size b)) (\<lambda>_.
       Ret (Some PREPARE_TO_FORWARD_RESPONSE, set_response b s)))"

definition ApplyPreRequestPlugins :: "env \<Rightarrow> Session \<Rightarrow> next_state" where
  "ApplyPreRequestPlugins env s =
     (case apply_pre pre_request_plugins env s of
        (s, Ret err) \<Rightarrow>
          if Error_bool err then respond_error err s else Ret (Some PREPARE_TO_FORWARD_REQUEST, s)
      | (s, Throw e) \<Rightarrow> respond_error (internal_error e) s
      | (s, Crash c) \<Rightarrow> Crash c)"

definition PrepareToForwardRequest :: "env \<Rightarrow> Session \<Rightarrow> next_state" where
  "PrepareToForwardRequest env s = Ret (Some FORWARD_REQUEST, wait_for (sv_socket s) EPOLLOUT s)"

definition ForwardRequest :: "env \<Rightarrow> Session \<Rightarrow> next_state" where
  "ForwardRequest env s =
     (case ServerConn_ForwardRequest (request_of s) (e_send env) of
        (res, _) \<Rightarrow>
          if res \<le> 0 then Ret (None, fail_with (e_errno env) s)
          else Ret (Some PREPARE_TO_RECEIVE_RESPONSE, stop_waiting s))"

section \<open>Responses\<close>

definition PrepareToReceiveResponse :: "env \<Rightarrow> Session \<Rightarrow> next_state" where
  "PrepareToReceiveResponse env s = Ret (Some RECEIVE_RESPONSE, wait_for (sv_socket s) EPOLLIN s)"

definition ready_for_query :: "bool \<Rightarrow> string \<Rightarrow> nat \<Rightarrow> bool run" where
  \<comment> \<open>the comparisons read in the order of the source; an index below 0 is outside the buffer\<close>
  "ready_for_query initiated data sz =
     (if \<not> initiated then Ret True
      else
        bind_run (byte_at data 0) (\<lambda>c.
          if c = CHR ''R'' then Ret True
          else if sz < 6 then Crash OutOfBounds
          else if length data < sz then Crash OutOfBounds
          else Ret (take 5 (drop (sz - 6) data) = [CHR ''Z'', NUL, NUL, NUL, CHR 0x05]
                    \<and> data ! (sz - 1) \<in> {CHR ''I'', CHR ''T'', CHR ''E''})))"

definition ReceiveResponse :: "env \<Rightarrow> Session \<Rightarrow> next_state" where
  "ReceiveResponse env s =
     bind_run (ServerConn_ReceiveResponse (c_response (ctx s)) (e_sock env)) (\<lambda>(b, res, err, _).
       let s = set_response b s
       in if res \<le> 0 then Ret (None, fail_with (case err of Some e \<Rightarrow> e | None \<Rightarrow> e_errno env) s)
          else
            bind_run (PrintInfo BACKEND (buf b) (nat res)) (\<lambda>_.
            bind_run (ready_for_query (c_initiated (ctx s)) (buf b) (nat res)) (\<lambda>ready.
              if \<not> ready then Ret (Some RECEIVE_RESPONSE, s)
              else Ret (Some APPLY_POST_RESPONSE_PLUGINS, stop_waiting s))))"

definition ApplyPostResponsePlugins :: "env \<Rightarrow> Session \<Rightarrow> next_state" where
  "ApplyPostResponsePlugins env s =
     (case apply_post post_response_plugins env s of
        (s, Ret _) \<Rightarrow> Ret (Some PREPARE_TO_FORWARD_RESPONSE, s)
      | (s, Throw e) \<Rightarrow> respond_error (internal_error e) s
      | (s, Crash c) \<Rightarrow> Crash c)"

definition PrepareToForwardResponse :: "env \<Rightarrow> Session \<Rightarrow> next_state" where
  "PrepareToForwardResponse env s = Ret (Some FORWARD_RESPONSE, wait_for (cl_socket s) EPOLLOUT s)"

definition ForwardResponse :: "env \<Rightarrow> Session \<Rightarrow> next_state" where
  "ForwardResponse env s =
     (case ClientConn_ForwardResponse (c_response (ctx s)) (e_send env) of
        (res, _) \<Rightarrow>
          if res \<le> 0 then Ret (None, fail_with (e_errno env) s)
          else Ret (Some RESET_CONTEXT, stop_waiting s))"

definition ResetContext :: "env \<Rightarrow> Session \<Rightarrow> next_state" where
  "ResetContext env s = Ret (Some PREPARE_TO_RECEIVE_REQUEST, s\<lparr>ctx := Context_Reset (ctx s)\<rparr>)"

section \<open>The machine\<close>

definition session_action :: "env \<Rightarrow> sstate \<Rightarrow> Session \<Rightarrow> next_state" where
  "session_action env n =
     (case n of
        INITIATE \<Rightarrow> Initiate env
      | PREPARE_TO_RECEIVE_REQUEST \<Rightarrow> PrepareToReceiveRequest env
      | RECEIVE_REQUEST \<Rightarrow> ReceiveRequest env
      | APPLY_PRE_REQUEST_PLUGINS \<Rightarrow> ApplyPreRequestPlugins env
      | PREPARE_TO_FORWARD_REQUEST \<Rightarrow> PrepareToForwardRequest env
      | FORWARD_REQUEST \<Rightarrow> ForwardRequest env
      | PREPARE_TO_RECEIVE_RESPONSE \<Rightarrow> PrepareToReceiveResponse env
      | RECEIVE_RESPONSE \<Rightarrow> ReceiveResponse env
      | APPLY_POST_RESPONSE_PLUGINS \<Rightarrow> ApplyPostResponsePlugins env
      | PREPARE_TO_FORWARD_RESPONSE \<Rightarrow> PrepareToForwardResponse env
      | FORWARD_RESPONSE \<Rightarrow> ForwardResponse env
      | RESET_CONTEXT \<Rightarrow> ResetContext env)"

definition run_session :: "env list \<Rightarrow> Session \<Rightarrow> (sstate StateMachine \<times> Session) run" where
  \<comment> \<open>\<open>operator()\<close> once per input, from the constructor on\<close>
  "run_session envs s = take_actions session_action envs (SetInitialState PREPARE_TO_RECEIVE_REQUEST) s"

end
