(* ===== verification/SessionFrame.thy ===== *)
theory SessionFrame
  imports SessionStates
begin

text \<open>
  What the plug-ins leave alone and where they can fail: no plug-in touches the sockets, the event,
  the flags or the response of a session, the request stays readable as a message, and none reads
  outside a buffer.
\<close>

named_theorems fine_intros "acts that keep the frame and read only what is there"

section \<open>Accesses never leave the program\<close>

definition tame :: "'a run \<Rightarrow> bool" where
  "tame m \<longleftrightarrow> m \<noteq> Crash OutOfBounds"

lemma tame_simps [simp]: "tame (Ret x)" "tame (Throw e)" "tame (Crash c) \<longleftrightarrow> c \<noteq> OutOfBounds"
  by (auto simp: tame_def)

lemma tame_bind: "tame m \<Longrightarrow> (\<And>x. m = Ret x \<Longrightarrow> tame (f x)) \<Longrightarrow> tame (bind_run m f)"
  by (cases m) auto

lemma no_crash_tame: "no_crash m \<Longrightarrow> tame m"
  by (cases m) auto

lemma no_crash_field [simp]: "no_crash (field k j)"
  by (cases "(k, j)" rule: field.cases) (auto simp: type_error_def)

lemma no_crash_update_at: "(\<And>v. no_crash (f v)) \<Longrightarrow> no_crash (update_at p f j)"
  by (induction p arbitrary: j) (auto intro!: no_crash_bind)

lemma no_crash_read_at [simp]: "no_crash (read_at p j)"
  unfolding read_at_def by (rule no_crash_update_at) simp

lemma no_crash_gets [simp]: "no_crash (get_string j)" "no_crash (get_bool j)" "no_crash (push_back j v)"
  by (cases j; simp)+

lemma no_crash_join_for: "no_crash (join_for n v)"
  by (auto simp: join_for_def intro!: no_crash_bind)

lemma no_crash_AclSelect:
  assumes "\<forall>d. no_crash (expand d)"
  shows "no_crash (AclSelectStmt expand t j)" "no_crash (select_items expand t kvs)"
    "no_crash (AclSelectStmtFromClause expand t j)" "no_crash (from_items expand t kvs)"
  using assms
proof (induction expand t j and expand t kvs and expand t j and expand t kvs
    rule: AclSelectStmt_select_items_AclSelectStmtFromClause_from_items.induct)
  case (1 expand st j)
  then show ?case by (cases "is_primitive j") (simp_all add: AclSelectStmt.simps [of _ _ j] no_crash_bind)
next
  case (3 expand st k v kvs)
  then show ?case unfolding select_items.simps by (intro no_crash_bind) (simp_all split: if_split)
next
  case (4 expand st j)
  then show ?case
    by (cases "is_primitive j")
       (simp_all add: AclSelectStmtFromClause.simps [of _ _ j] no_crash_bind split: sum.split)
next
  case (6 expand st k v kvs)
  show ?case
  proof (cases "k = ''RangeVar''")
    case True
    have "no_crash (if \<not> tracked st n then bind_run (from_items expand st kvs) (\<lambda>r. Ret (map_sum id (Cons (k, v')) r))
        else bind_run (join_for n v') (\<lambda>d. bind_run (expand d) (\<lambda>j. Ret (Inl j))))"
      if "read_at [Key ''relname''] v = Ret (x, v')" "get_string x = Ret n" for x v' n
      using 6(1) [OF True that(1) refl that(2)] 6(5) by (simp add: no_crash_bind no_crash_join_for)
    then show ?thesis
      unfolding from_items.simps using True by (auto intro!: no_crash_bind)
  next
    case False
    with 6 show ?thesis unfolding from_items.simps if_not_P [OF False]
      by (intro no_crash_bind) (simp_all split: if_split)
  qed
qed simp_all

lemma no_crash_Acl_json:
  assumes "\<forall>d. no_crash (expand d)"
  shows "no_crash (Acl_json expand t j)" "no_crash (Acl_items expand t kvs)"
  using assms
proof (induction expand t j and expand t kvs rule: Acl_json_Acl_items.induct)
  case (1 expand st j)
  then show ?case by (cases "is_primitive j") (simp_all add: Acl_json.simps [of _ _ j] no_crash_bind)
next
  case (3 expand st k v kvs)
  then show ?case by (auto intro!: no_crash_bind no_crash_AclSelect)
qed simp

lemma no_crash_Acl: "\<forall>d. no_crash (expand d) \<Longrightarrow> no_crash (Acl expand t q)"
  by (auto simp: Acl_def intro!: no_crash_bind no_crash_Acl_json)

section \<open>The frame\<close>

definition env_ok :: "env \<Rightarrow> bool" where
  \<comment> \<open>the parsers end by returning or throwing\<close>
  "env_ok env \<longleftrightarrow> (\<forall>d. no_crash (e_expand env d)) \<and> (\<forall>q j. e_pg_parse env q = Inr j \<longrightarrow> no_crash j)"

definition frame :: "Session \<Rightarrow> Session \<Rightarrow> bool" where
  "frame s s' \<longleftrightarrow> cl_socket s' = cl_socket s \<and> sv_socket s' = sv_socket s
     \<and> c_ev (ctx s') = c_ev (ctx s) \<and> c_waiting (ctx s') = c_waiting (ctx s)
     \<and> c_initiated (ctx s') = c_initiated (ctx s) \<and> c_response (ctx s') = c_response (ctx s)"

definition readable :: "Buffer \<Rightarrow> bool" where
  "readable b \<longleftrightarrow> buf b \<noteq> [] \<and> (\<exists>t. cstr_at (buf b) 5 = Ret t)"

fun fine :: "Session \<Rightarrow> 'a act \<Rightarrow> bool" where
  "fine s0 (s, r) \<longleftrightarrow> frame s0 s \<and> readable (request_of s) \<and> tame r"

lemma frame_refl [simp]: "frame s s"
  by (simp add: frame_def)

lemma frame_simps [simp]:
  "frame s0 (set_request b s) = frame s0 s" "frame s0 (set_query q s) = frame s0 s"
  "frame s0 (set_json j s) = frame s0 s" "frame s0 (s\<lparr>parameters := ps\<rparr>) = frame s0 s"
  "frame s0 (s\<lparr>st := t\<rparr>) = frame s0 s"
  by (simp_all add: frame_def set_request_def set_query_def set_json_def)

lemma request_of_simps [simp]:
  "request_of (set_request b s) = b" "request_of (set_query q s) = request_of s"
  "request_of (set_json j s) = request_of s" "request_of (s\<lparr>parameters := ps\<rparr>) = request_of s"
  "request_of (s\<lparr>st := t\<rparr>) = request_of s"
  by (simp_all add: request_of_def set_request_def set_query_def set_json_def)

lemma readable_SetQuery [simp]: "readable (SetQuery b q)"
  unfolding readable_def SetQuery_text by (simp add: SetQuery_def Let_def)

lemma readable_big [simp]: "buf_big b \<Longrightarrow> readable b"
  using buf_ok_cstr [of b 5] buf_big_length [of b] by (auto simp: readable_def buf_big_def)

lemma fine_then_do [fine_intros]:
  "fine s0 m \<Longrightarrow> (\<And>s x. m = (s, Ret x) \<Longrightarrow> frame s0 s \<Longrightarrow> readable (request_of s) \<Longrightarrow> fine s0 (f s x)) \<Longrightarrow> fine s0 (then_do m f)"
  by (cases m; cases "snd m") auto

lemma fine_touch [fine_intros]: "frame s0 s \<Longrightarrow> readable (request_of s) \<Longrightarrow> fine s0 (touch_json p s)"
  using no_crash_read_at [of p "query_json s"]
  by (cases "read_at p (query_json s)") (auto simp: touch_json_def)

lemma fine_text: "frame s0 s \<Longrightarrow> readable (request_of s) \<Longrightarrow> fine s0 (s, cstr_at (buf (request_of s)) 5)"
  by (auto simp: readable_def)

lemma fine_tag: "frame s0 s \<Longrightarrow> readable (request_of s) \<Longrightarrow> fine s0 (s, byte_at (buf (request_of s)) 0)"
  by (auto simp: readable_def)

lemma fine_drop_table_names [fine_intros]:
  "frame s0 s \<Longrightarrow> readable (request_of s) \<Longrightarrow> fine s0 (drop_table_names p is s)"
proof (induction "is" arbitrary: s)
  case (Cons i "is")
  then show ?case
    by (auto intro!: fine_intros no_crash_tame split: option.splits)
qed simp

lemma fine_inspect_constraints [fine_intros]:
  "frame s0 s \<Longrightarrow> readable (request_of s) \<Longrightarrow> fine s0 (inspect_constraints is p fl s)"
  by (induction "is" arbitrary: s fl) (auto intro!: fine_intros)

lemma fine_inspect_column [fine_intros]:
  "frame s0 s \<Longrightarrow> readable (request_of s) \<Longrightarrow> fine s0 (inspect_column p fl s)"
  by (auto simp: inspect_column_def intro!: fine_intros)

lemma fine_inspect_table_constraint [fine_intros]:
  "frame s0 s \<Longrightarrow> readable (request_of s) \<Longrightarrow> fine s0 (inspect_table_constraint p fl s)"
  by (auto simp: inspect_table_constraint_def intro!: fine_intros no_crash_tame split: prod.splits)

lemma fine_inspect_elements [fine_intros]:
  "frame s0 s \<Longrightarrow> readable (request_of s) \<Longrightarrow> fine s0 (inspect_elements is p fl s)"
  by (induction "is" arbitrary: s fl) (auto intro!: fine_intros)

lemma tame_begin_work: "tame (begin_work env)"
  by (cases "e_work env") (auto simp: begin_work_def)

lemma tame_throws: "tame (throw_opt x)" "tame (throw_sum y)"
  by (cases x; simp) (cases y; simp)

lemma fine_lookup [fine_intros]:
  "frame s0 s \<Longrightarrow> readable (request_of s) \<Longrightarrow> fine s0 (lookup_rolsuper env s)"
  by (auto simp: lookup_rolsuper_def intro!: fine_intros tame_begin_work tame_throws)

lemma tame_ToString: "tame (ToString d q)"
  by (auto simp: ToString_def split: option.splits)

lemma no_crash_push_objects: "no_crash (push_objects p tns j)"
  by (induction tns arbitrary: j) (auto intro!: no_crash_bind no_crash_update_at)

lemma tame_test_query: "tame (test_query tns q)"
  by (auto simp: test_query_def intro!: no_crash_tame no_crash_bind no_crash_push_objects split: option.splits)

lemma tame_Parse: "env_ok env \<Longrightarrow> tame (Parse (e_pg_parse env) q)"
  by (auto simp: Parse_def env_ok_def intro!: tame_bind intro: no_crash_tame split: sum.splits)

lemmas tame_intros = tame_begin_work tame_throws tame_ToString tame_test_query no_crash_tame no_crash_Acl

lemma fine_plugins:
  assumes "env_ok env" "frame s0 s" "readable (request_of s)"
  shows "fine s0 (TranslateProxyCommandPlugIn env s)" "fine s0 (ParseQueryPlugIn env s)"
    "fine s0 (AclQueryPlugIn env s)" "fine s0 (DropTablePlugIn env s)"
    "fine s0 (EnsureNewTableHasIdPlugIn env s)" "fine s0 (RestrictInternalTableAccessPlugIn env s)"
proof -
  show "fine s0 (TranslateProxyCommandPlugIn env s)"
    using assms unfolding TranslateProxyCommandPlugIn_def
    by (intro fine_then_do fine_tag) (auto intro!: fine_then_do fine_text split: prod.splits)
  show "fine s0 (ParseQueryPlugIn env s)"
    using assms unfolding ParseQueryPlugIn_def
    by (intro fine_then_do fine_tag) (auto intro!: fine_then_do fine_text tame_Parse split: prod.splits)
  show "fine s0 (AclQueryPlugIn env s)"
    using assms unfolding AclQueryPlugIn_def Let_def env_ok_def
    by (auto intro!: fine_then_do tame_intros)
  show "fine s0 (DropTablePlugIn env s)"
    using assms unfolding DropTablePlugIn_def
    by (auto intro!: fine_intros tame_intros no_crash_update_at simp: set_behavior_def
        split: option.splits exn.splits)
  show "fine s0 (EnsureNewTableHasIdPlugIn env s)"
    using assms unfolding EnsureNewTableHasIdPlugIn_def
    by (auto intro!: fine_intros tame_intros split: option.splits)
  show "fine s0 (RestrictInternalTableAccessPlugIn env s)"
    using assms by (simp add: RestrictInternalTableAccessPlugIn_def)
qed

lemma fine_apply_pre:
  assumes "\<forall>p \<in> set ps. \<forall>s. frame s0 s \<longrightarrow> readable (request_of s) \<longrightarrow> fine s0 (p env s)"
    "frame s0 s" "readable (request_of s)"
  shows "fine s0 (apply_pre ps env s)"
  using assms by (induction ps arbitrary: s) (auto intro!: fine_then_do)

lemma fine_pre_request:
  "env_ok env \<Longrightarrow> readable (request_of s) \<Longrightarrow> fine s (apply_pre pre_request_plugins env s)"
  by (rule fine_apply_pre) (auto simp: pre_request_plugins_def fine_plugins)

lemma fine_response: "frame s0 s \<Longrightarrow> readable (request_of s) \<Longrightarrow> buf (c_response (ctx s0)) \<noteq> [] \<Longrightarrow>
    fine s0 (s, byte_at (buf (c_response (ctx s))) 0)"
  by (simp add: frame_def)

lemma fine_post_plugins:
  assumes "frame s0 s" "readable (request_of s)" "buf (c_response (ctx s0)) \<noteq> []"
  shows "fine s0 (UpdateParametersPlugIn env s)" "fine s0 (UpdateSchemaPlugIn env s)"
proof -
  show "fine s0 (UpdateParametersPlugIn env s)"
    using assms unfolding UpdateParametersPlugIn_def
    by (auto intro!: fine_then_do fine_response fine_touch fine_lookup no_crash_tame split: option.splits)
  show "fine s0 (UpdateSchemaPlugIn env s)"
    using assms unfolding UpdateSchemaPlugIn_def
    by (auto intro!: fine_then_do fine_response fine_touch no_crash_tame split: option.splits)
qed

lemma fine_post_response:
  assumes "readable (request_of s)" "buf (c_response (ctx s)) \<noteq> []"
  shows "fine s (apply_post post_response_plugins env s)"
  using assms unfolding post_response_plugins_def
  by (auto intro!: fine_then_do fine_post_plugins)

end
