(* ===== verification/SessionSafety.thy ===== *)
theory SessionSafety
  imports SessionFrame
begin

text \<open>
  The invariant of a session over all its runs: when it waits and for what, which of its buffers are
  fit to receive into, and from there the only place where it can read outside a buffer.
\<close>

section \<open>Receiving\<close>

lemma recv_loop_mono: "recv_loop b es = Ret (b', r) \<Longrightarrow> buf_size b \<le> buf_size b'"
proof (induction b es rule: recv_loop.induct)
  case (1 b es)
  obtain x es' where x: "recv_call (buf_size b) es = (x, es')" by fastforce
  show ?case
  proof (cases x)
    case (RecvFail e)
    with x 1(2) show ?thesis by (auto simp: recv_loop.simps [of b es])
  next
    case (Got c)
    have "buf_size b \<le> buf_size (grow (put_bytes b c))" by (simp add: grow_def)
    with x Got 1(2) 1(1) [OF x [symmetric] Got] show ?thesis
      by (force simp: recv_loop.simps [of b es] split: if_splits)
  qed
qed

lemma RecvFrom_big:
  assumes "buf_big b"
  obtains b' en es' where "RecvFrom b es = Ret (b', recv_result b' en, en, es')" "buf_big b'"
    "content b' = content b @ arrived es"
proof -
  have ok: "buf_ok b" using assms by (simp add: buf_big_def)
  from RecvFrom_ok [OF this, of es] obtain b' en es'
    where r: "RecvFrom b es = Ret (b', recv_result b' en, en, es')" "buf_ok b'"
      "content b' = content b @ arrived es" by blast
  moreover from r(1) ok have "recv_loop b es = Ret (b', recv_result b' en, en, es')"
    by (simp add: RecvFrom_def)
  from recv_loop_mono [OF this] have "buf_size b \<le> buf_size b'" .
  ultimately show ?thesis using that assms by (auto simp: buf_big_def)
qed

lemma recv_positive: "0 < recv_result b en \<Longrightarrow> nat (recv_result b en) \<le> data_size b \<and> 0 < data_size b"
proof -
  assume *: "0 < recv_result b en"
  then have r: "recv_result b en = to_int32 (int (data_size b))" by (auto simp: recv_result_def split: if_splits)
  have "to_int32 x \<le> x" if "0 \<le> x" for x
    using that unfolding to_int32_def by (simp add: sint_sbintrunc' signed_take_bit_int_less_eq_self_iff signed_take_bit_int_eq_self_iff)
  from this [of "int (data_size b)"] * r show ?thesis by (cases "data_size b") (auto simp: to_int32_def)
qed

section \<open>Startup parameters\<close>

lemma cstr_at_stops: "cstr_at b pos = Ret s \<Longrightarrow> pos \<le> i \<Longrightarrow> i < length b \<Longrightarrow> b ! i = NUL \<Longrightarrow> pos + length s \<le> i"
proof -
  assume a: "cstr_at b pos = Ret s" "pos \<le> i" "i < length b" "b ! i = NUL"
  have s: "s = takeWhile (\<lambda>c. c \<noteq> NUL) (drop pos b)"
    using a(1) by (auto simp: cstr_at_def cstr_def split: if_splits)
  show ?thesis
  proof (rule ccontr)
    assume "\<not> pos + length s \<le> i"
    then have "i - pos < length s" using a(2) by simp
    then have "s ! (i - pos) \<noteq> NUL" unfolding s using nth_mem set_takeWhileD by (metis (mono_tags, lifting))
    moreover have "s ! (i - pos) = b ! i"
      using \<open>i - pos < length s\<close> a unfolding s by (simp add: takeWhile_nth)
    ultimately show False using a(4) by simp
  qed
qed

lemma parse_params_safe:
  assumes "buf_big b"
  shows "pos \<le> data_size b + 2 \<Longrightarrow> \<exists>ps'. parse_params (buf b) pos ps = Ret ps'"
proof (induction "buf b" pos ps rule: parse_params.induct)
  case (1 pos ps)
  have ok: "buf_ok b" using assms by (simp add: buf_big_def)
  have len: "data_size b + 4 < length (buf b)" using assms by (auto simp: buf_big_def buf_ok_def DEFAULT_SIZE_def)
  have z: "buf b ! i = NUL" if "data_size b \<le> i" "i < length (buf b)" for i using buf_ok_zero [OF ok that] .
  have c: "byte_at (buf b) pos = Ret (buf b ! pos)" using 1(2) len by (intro byte_at_Ret) simp
  show ?case
  proof (cases "buf b ! pos = NUL")
    case False
    have pos: "pos < data_size b"
    proof (rule ccontr)
      assume "\<not> pos < data_size b"
      with z [of pos] 1(2) len False show False by simp
    qed
    obtain n where n: "cstr_at (buf b) pos = Ret n" using buf_ok_cstr [OF ok, of pos] pos len by auto
    from cstr_at_stops [OF n, of "data_size b"] pos len z have pn: "pos + length n \<le> data_size b" by auto
    obtain v where v: "cstr_at (buf b) (pos + length n + 1) = Ret v"
      using buf_ok_cstr [OF ok, of "pos + length n + 1"] pn len by auto
    from cstr_at_stops [OF v, of "data_size b + 1"] pn len z
    have "pos + length n + 1 + length v \<le> data_size b + 1" by auto
    then have "pos + length n + 1 + length v + 1 \<le> data_size b + 2" by simp
    from 1(1) [OF c False n v refl this] c False n v show ?thesis
      by (subst parse_params.simps) (simp add: Let_def)
  qed (use c in \<open>subst parse_params.simps, simp\<close>)
qed

section \<open>The log of an error response\<close>

lemma print_fields_ret:
  "len \<le> k \<Longrightarrow> k < length data \<Longrightarrow> data ! k = NUL \<Longrightarrow> \<exists>p. print_fields data len pos = Ret p"
proof (induction data len pos rule: print_fields.induct)
  case (1 data len pos)
  show ?case
  proof (cases "pos < len")
    case True
    with 1(2-4) cstr_at_NUL [of k data "pos + 1"] obtain v where v: "cstr_at data (pos + 1) = Ret v" by auto
    have c: "byte_at data pos = Ret (data ! pos)" using True 1(2-4) by (intro byte_at_Ret) simp
    from 1(1) [OF True c v 1(2-4)] True c v show ?thesis by (subst print_fields.simps) simp
  qed (simp add: print_fields.simps [of data len pos])
qed

lemma print_error_safe:
  assumes "by_hand b" "buf b = CHR ''E'' # be32 (unat (word_of_nat (5 + length body) :: 32 word)) @ body @ NUL # ready_for_query_msg"
  shows "PrintInfo BACKEND (buf b) (Buffer_Size b) = Ret ()"
proof -
  let ?d = "buf b" and ?n = "unat (word_of_nat (5 + length body) :: 32 word)" and ?k = "5 + length body"
  have sz: "Buffer_Size b = length ?d" using assms(1) by (simp add: by_hand_def Buffer_Size_def)
  have len: "length ?d = 12 + length body" by (simp add: assms(2) ready_for_query_msg_def)
  have "?d ! ?k = (body @ NUL # ready_for_query_msg) ! length body"
    by (simp add: assms(2) nth_Cons' nth_append)
  then have k: "?d ! ?k = NUL" by simp
  obtain l where l: "read_len ?d = Ret l" using read_len_ok [of ?d] len by auto
  have "?n < 2 ^ LENGTH(32)" by (rule unsigned_less)
  with l read_len_be32 [of ?n] have "l = ?n" by (simp add: assms(2))
  moreover have "?n \<le> ?k" unfolding unsigned_of_nat of_nat_id by (rule take_bit_nat_less_eq_self)
  ultimately obtain p where p: "print_fields ?d l 5 = Ret p"
    using print_fields_ret [of l ?k ?d 5] k len by auto
  have "p \<le> length ?d" using print_fields_pos [OF p] len by simp
  then have "print_rest ?d p (length ?d - p) = Ret ()" by (intro print_rest_ok) simp
  moreover have "byte_at ?d 0 = Ret (CHR ''E'')" by (simp add: assms(2))
  ultimately have "print_message BACKEND ?d (length ?d) = Ret ()"
    using l p by (simp add: print_message_def)
  then show ?thesis unfolding sz PrintInfo_def by (simp add: print_rest_ok)
qed

lemma SetError_print: "SetError b e = Ret b' \<Longrightarrow> PrintInfo BACKEND (buf b') (Buffer_Size b') = Ret ()"
proof -
  assume b': "SetError b e = Ret b'"
  then have "Error_contains e ''S'' \<and> Error_contains e ''C'' \<and> Error_contains e ''M''"
    using SetError_cases [of e b] by (simp split: if_splits)
  then obtain s c m where "err_field e ''S'' = Some s" "err_field e ''C'' = Some c" "err_field e ''M'' = Some m"
    by (auto simp: err_field_def)
  with b' have "SetErrorFields b (Some s) (Some c) (Some m) (err_field e ''F'') (err_field e ''R'')
      (err_field e ''L'') (err_field e ''P'') = Ret b'" by (simp add: SetError_def)
  moreover obtain b2 where b2: "SetErrorFields b (Some s) (Some c) (Some m) (err_field e ''F'') (err_field e ''R'')
      (err_field e ''L'') (err_field e ''P'') = Ret b2" "PrintInfo BACKEND (buf b2) (Buffer_Size b2) = Ret ()"
    using SetErrorFields_Ret [of b s c m "err_field e ''F''" "err_field e ''R''" "err_field e ''L''" "err_field e ''P''"]
      print_error_safe by blast
  ultimately show ?thesis by simp
qed

lemma tame_respond_error: "tame (respond_error e s)"
proof -
  have "tame (SetError b e)" for b using SetError_cases [of e b] by (auto split: if_splits)
  then show ?thesis unfolding respond_error_def by (auto intro!: tame_bind simp: SetError_print)
qed

lemma PrintInfo_front: "buf_big b \<Longrightarrow> n \<le> data_size b \<Longrightarrow> PrintInfo FRONTEND (buf b) n = Ret ()"
  by (rule PrintInfo_safe) simp_all

section \<open>The invariant\<close>

fun awaited :: "sstate \<Rightarrow> Session \<Rightarrow> epoll_event option" where
  \<comment> \<open>the event a session in this state waits for\<close>
  "awaited RECEIVE_REQUEST s = Some \<lparr>ev_fd = cl_socket s, ev_events = EPOLLIN\<rparr>"
| "awaited FORWARD_REQUEST s = Some \<lparr>ev_fd = sv_socket s, ev_events = EPOLLOUT\<rparr>"
| "awaited RECEIVE_RESPONSE s = Some \<lparr>ev_fd = sv_socket s, ev_events = EPOLLIN\<rparr>"
| "awaited FORWARD_RESPONSE s = Some \<lparr>ev_fd = cl_socket s, ev_events = EPOLLOUT\<rparr>"
| "awaited _ s = None"

definition waits_right :: "sstate option \<Rightarrow> Session \<Rightarrow> bool" where
  "waits_right cur s \<longleftrightarrow>
     (case cur of
        None \<Rightarrow> IsWaiting s \<and> ev_fd (GetEpollEvent s) \<in> {cl_socket s, sv_socket s}
      | Some n \<Rightarrow> (case awaited n s of
                     None \<Rightarrow> \<not> IsWaiting s
                   | Some ev \<Rightarrow> IsWaiting s \<and> GetEpollEvent s = ev))"

definition request_fit :: "sstate \<Rightarrow> Buffer \<Rightarrow> bool" where
  "request_fit n b \<longleftrightarrow> readable b
     \<and> (n \<in> {PREPARE_TO_RECEIVE_REQUEST, RECEIVE_REQUEST} \<longrightarrow> buf_big b \<and> content b = [])
     \<and> (n \<in> {INITIATE, APPLY_PRE_REQUEST_PLUGINS} \<longrightarrow> buf_big b \<and> 0 < data_size b)"

definition response_fit :: "sstate \<Rightarrow> Buffer \<Rightarrow> bool" where
  "response_fit n b \<longleftrightarrow>
     (n \<in> {PREPARE_TO_RECEIVE_REQUEST, RECEIVE_REQUEST, INITIATE, APPLY_PRE_REQUEST_PLUGINS,
           PREPARE_TO_FORWARD_REQUEST, FORWARD_REQUEST, PREPARE_TO_RECEIVE_RESPONSE} \<longrightarrow> b = Buffer_new)
     \<and> (n = RECEIVE_RESPONSE \<longrightarrow> buf_big b)
     \<and> (n = APPLY_POST_RESPONSE_PLUGINS \<longrightarrow> buf_big b \<and> 0 < data_size b)"

fun sess_inv :: "sstate option \<Rightarrow> Session \<Rightarrow> bool" where
  "sess_inv None s = waits_right None s"
| "sess_inv (Some n) s = (waits_right (Some n) s
     \<and> request_fit n (c_request (ctx s)) \<and> response_fit n (c_response (ctx s))
     \<and> (n = INITIATE \<longrightarrow> \<not> c_initiated (ctx s)) \<and> (n = APPLY_PRE_REQUEST_PLUGINS \<longrightarrow> c_initiated (ctx s)))"

lemma buf_big_new [simp]: "buf_big Buffer_new"
  by (simp add: buf_big_def) (simp add: Buffer_new_def)

lemma sess_inv_new: "sess_inv (Some PREPARE_TO_RECEIVE_REQUEST) (Session_new cl sv t)"
  by (simp add: waits_right_def request_fit_def response_fit_def Session_new_def Context_new_def IsWaiting_def)

lemmas inv_defs = waits_right_def request_fit_def response_fit_def IsWaiting_def GetEpollEvent_def
  wait_for_def stop_waiting_def fail_with_def request_of_def

lemma prepare_steps:
  "sess_inv (Some PREPARE_TO_RECEIVE_REQUEST) s \<Longrightarrow> PrepareToReceiveRequest env s = Ret (n, s') \<Longrightarrow> sess_inv n s'"
  "sess_inv (Some PREPARE_TO_FORWARD_REQUEST) s \<Longrightarrow> PrepareToForwardRequest env s = Ret (n, s') \<Longrightarrow> sess_inv n s'"
  "sess_inv (Some PREPARE_TO_RECEIVE_RESPONSE) s \<Longrightarrow> PrepareToReceiveResponse env s = Ret (n, s') \<Longrightarrow> sess_inv n s'"
  "sess_inv (Some PREPARE_TO_FORWARD_RESPONSE) s \<Longrightarrow> PrepareToForwardResponse env s = Ret (n, s') \<Longrightarrow> sess_inv n s'"
  by (auto simp: inv_defs PrepareToReceiveRequest_def PrepareToForwardRequest_def
      PrepareToReceiveResponse_def PrepareToForwardResponse_def)

lemma forward_steps:
  "sess_inv (Some FORWARD_REQUEST) s \<Longrightarrow> ForwardRequest env s = Ret (n, s') \<Longrightarrow> sess_inv n s'"
  "sess_inv (Some FORWARD_RESPONSE) s \<Longrightarrow> ForwardResponse env s = Ret (n, s') \<Longrightarrow> sess_inv n s'"
  by (auto simp: inv_defs ForwardRequest_def ForwardResponse_def split: prod.splits if_splits)

lemma reset_step: "sess_inv (Some RESET_CONTEXT) s \<Longrightarrow> ResetContext env s = Ret (n, s') \<Longrightarrow> sess_inv n s'"
  by (auto simp: inv_defs ResetContext_def Context_Reset_def Context_new_def)

lemma receive_request_step:
  assumes "sess_inv (Some RECEIVE_REQUEST) s"
  shows "tame (ReceiveRequest env s)"
    and "ReceiveRequest env s = Ret (n, s') \<Longrightarrow> sess_inv n s'"
proof -
  from assms have big: "buf_big (request_of s)" and w: "c_waiting (ctx s)" "ev_fd (c_ev (ctx s)) = cl_socket s"
    and resp: "c_response (ctx s) = Buffer_new"
    by (auto simp: inv_defs)
  from RecvFrom_big [OF big, of "e_sock env"] obtain b en es'
    where r: "RecvFrom (request_of s) (e_sock env) = Ret (b, recv_result b en, en, es')" "buf_big b" by blast
  have p: "0 < recv_result b en \<Longrightarrow> \<exists>n \<le> data_size b. nat (recv_result b en) = n \<and> PrintInfo FRONTEND (buf b) n = Ret ()"
    using recv_positive [of b en] PrintInfo_front [OF r(2)] by auto
  show "tame (ReceiveRequest env s)"
    using r(1) p by (auto simp: ReceiveRequest_def Let_def)
  show "ReceiveRequest env s = Ret (n, s') \<Longrightarrow> sess_inv n s'"
    using r p w resp recv_positive [of b en]
    by (auto simp: ReceiveRequest_def Let_def inv_defs set_request_def run_simps split: if_splits)
qed

lemma fine_act: "fine s0 (a, r) \<Longrightarrow> frame s0 a \<and> readable (request_of a) \<and> tame r"
  by simp

lemma initiate_step:
  assumes "sess_inv (Some INITIATE) s"
  shows "tame (Initiate env s)"
    and "Initiate env s = Ret (n, s') \<Longrightarrow> sess_inv n s'"
proof -
  from assms have big: "buf_big (request_of s)" and read: "readable (request_of s)" by (auto simp: inv_defs)
  have "8 \<le> data_size (request_of s) + 2" if "\<not> Buffer_Size (request_of s) \<le> 8"
    using that by (simp add: Buffer_Size_def)
  with parse_params_safe [OF big]
  have ps: "\<exists>ps. parse_params (buf (request_of s)) 8 (parameters s) = Ret ps" if "\<not> Buffer_Size (request_of s) \<le> 8"
    using that by blast
  have l: "fine s (lookup_rolsuper env (s\<lparr>parameters := ps\<rparr>))" for ps
    by (rule fine_lookup) (simp_all add: read)
  have b: "byte_at (buf (request_of s)) 7 = Ret (buf (request_of s) ! 7)"
    using buf_big_length [OF big] by (intro byte_at_Ret) simp
  have t: "lookup_rolsuper env (s\<lparr>parameters := ps\<rparr>) = (a, r) \<Longrightarrow> tame r" for ps a r
    using l [of ps] by simp
  show "tame (Initiate env s)"
    using ps b by (auto simp: Initiate_def intro!: tame_bind dest: t split: prod.splits)
  show "sess_inv n s'" if "Initiate env s = Ret (n, s')"
  proof (cases "Buffer_Size (request_of s) \<le> 8")
    case True
    with that assms show ?thesis by (auto simp: Initiate_def inv_defs)
  next
    case False
    with ps obtain ps where "parse_params (buf (request_of s)) 8 (parameters s) = Ret ps" by blast
    with that False b obtain s1 where "lookup_rolsuper env (s\<lparr>parameters := ps\<rparr>) = (s1, Ret ())"
        "n = Some PREPARE_TO_FORWARD_REQUEST" "s' = s1\<lparr>ctx := (ctx s1)\<lparr>c_initiated := True\<rparr>\<rparr>"
      by (auto simp: Initiate_def run_simps split: prod.splits)
    with l [of ps] assms show ?thesis by (auto simp: inv_defs frame_def)
  qed
qed

lemma respond_error_inv:
  assumes "respond_error e s = Ret (n, s')" "readable (request_of s)" "\<not> c_waiting (ctx s)"
  shows "sess_inv n s'"
  using assms by (auto simp: respond_error_def run_simps inv_defs set_response_def)

lemma apply_pre_step:
  assumes "env_ok env" "sess_inv (Some APPLY_PRE_REQUEST_PLUGINS) s"
  shows "tame (ApplyPreRequestPlugins env s)"
    and "ApplyPreRequestPlugins env s = Ret (n, s') \<Longrightarrow> sess_inv n s'"
proof -
  obtain s1 r where a: "apply_pre pre_request_plugins env s = (s1, r)" by fastforce
  have read: "readable (request_of s)" using assms(2) by (auto simp: inv_defs)
  from fine_pre_request [OF assms(1) read] a have f: "frame s s1" "readable (request_of s1)" "tame r" by auto
  show "tame (ApplyPreRequestPlugins env s)"
    using a f by (cases r) (auto simp: ApplyPreRequestPlugins_def tame_respond_error)
  have w: "\<not> c_waiting (ctx s1)" using f assms(2) by (auto simp: frame_def inv_defs)
  show "sess_inv n s'" if "ApplyPreRequestPlugins env s = Ret (n, s')"
  proof (cases r)
    case (Ret err)
    show ?thesis
    proof (cases "Error_bool err")
      case True
      with that a Ret have "respond_error err s1 = Ret (n, s')" by (simp add: ApplyPreRequestPlugins_def)
      from respond_error_inv [OF this f(2) w] show ?thesis .
    next
      case False
      with that a Ret f w assms(2) show ?thesis
        by (auto simp: ApplyPreRequestPlugins_def inv_defs frame_def)
    qed
  next
    case (Throw e)
    with that a have "respond_error (internal_error e) s1 = Ret (n, s')" by (simp add: ApplyPreRequestPlugins_def)
    from respond_error_inv [OF this f(2) w] show ?thesis .
  qed (use that a in \<open>simp add: ApplyPreRequestPlugins_def\<close>)
qed

lemma apply_post_step:
  assumes "sess_inv (Some APPLY_POST_RESPONSE_PLUGINS) s"
  shows "tame (ApplyPostResponsePlugins env s)"
    and "ApplyPostResponsePlugins env s = Ret (n, s') \<Longrightarrow> sess_inv n s'"
proof -
  obtain s1 r where a: "apply_post post_response_plugins env s = (s1, r)" by fastforce
  have read: "readable (request_of s)" and big: "buf_big (c_response (ctx s))"
    using assms by (auto simp: inv_defs)
  then have "buf (c_response (ctx s)) \<noteq> []" using buf_big_length by fastforce
  from fine_post_response [OF read this, of env] a
  have f: "frame s s1" "readable (request_of s1)" "tame r" by auto
  show "tame (ApplyPostResponsePlugins env s)"
    using a f by (cases r) (auto simp: ApplyPostResponsePlugins_def tame_respond_error)
  have w: "\<not> c_waiting (ctx s1)" using f assms by (auto simp: frame_def inv_defs)
  show "sess_inv n s'" if "ApplyPostResponsePlugins env s = Ret (n, s')"
  proof (cases r)
    case (Ret x)
    with that a f w assms show ?thesis by (auto simp: ApplyPostResponsePlugins_def inv_defs frame_def)
  next
    case (Throw e)
    with that a have "respond_error (internal_error e) s1 = Ret (n, s')" by (simp add: ApplyPostResponsePlugins_def)
    from respond_error_inv [OF this f(2) w] show ?thesis .
  qed (use that a in \<open>simp add: ApplyPostResponsePlugins_def\<close>)
qed

lemma receive_response_step:
  assumes "sess_inv (Some RECEIVE_RESPONSE) s" "ReceiveResponse env s = Ret (n, s')"
  shows "sess_inv n s'"
proof -
  from assms(1) have big: "buf_big (c_response (ctx s))" and w: "c_waiting (ctx s)"
    "GetEpollEvent s = \<lparr>ev_fd = sv_socket s, ev_events = EPOLLIN\<rparr>" "readable (request_of s)"
    by (auto simp: inv_defs)
  from RecvFrom_big [OF big, of "e_sock env"] obtain b en es'
    where r: "RecvFrom (c_response (ctx s)) (e_sock env) = Ret (b, recv_result b en, en, es')" "buf_big b" by blast
  show ?thesis
  proof (cases "recv_result b en \<le> 0")
    case True
    with assms(2) r(1) w(1,2) show ?thesis by (auto simp: ReceiveResponse_def Let_def inv_defs set_response_def)
  next
    case False
    then have pos: "0 < data_size b" using recv_positive [of b en] by simp
    from assms(2) r(1) False have "n = Some RECEIVE_RESPONSE \<and> s' = set_response b s
        \<or> n = Some APPLY_POST_RESPONSE_PLUGINS \<and> s' = stop_waiting (set_response b s)"
      by (auto simp: ReceiveResponse_def Let_def run_simps split: if_splits)
    then show ?thesis using assms(1) r(2) pos by (auto simp: inv_defs set_response_def)
  qed
qed

declare sess_inv.simps(2) [simp del]

lemma action_inv:
  assumes "env_ok env" "sess_inv (Some n) s" "session_action env n s = Ret (n', s')"
  shows "sess_inv n' s'"
  using assms(2,3) prepare_steps [of s env n' s'] forward_steps [of s env n' s'] reset_step [of s env n' s']
    receive_request_step(2) [of s env n' s'] initiate_step(2) [of s env n' s']
    apply_pre_step(2) [OF assms(1), of s n' s'] apply_post_step(2) [of s env n' s']
    receive_response_step [of s env n' s']
  by (cases n) (simp_all add: session_action_def)

interpretation session: machine session_action env_ok PREPARE_TO_RECEIVE_REQUEST
    "\<lambda>s. \<exists>cl sv t. s = Session_new cl sv t" sess_inv
  by unfold_locales (use sess_inv_new action_inv in blast)+

section \<open>The only unsafe state\<close>

lemma other_states_tame:
  "env_ok env \<Longrightarrow> sess_inv (Some n) s \<Longrightarrow> n \<noteq> RECEIVE_RESPONSE \<Longrightarrow> tame (session_action env n s)"
  using receive_request_step(1) initiate_step(1) apply_pre_step(1) apply_post_step(1)
  by (cases n) (simp_all only: session_action_def sstate.case, simp_all add: PrepareToReceiveRequest_def
      PrepareToForwardRequest_def PrepareToReceiveResponse_def PrepareToForwardResponse_def ForwardRequest_def
      ForwardResponse_def ResetContext_def split: prod.split)

end
