(* ===== verification/RegexRules.thy ===== *)
theory RegexRules
  imports ProxyCommand
begin

text \<open>
  Rules that compute the match the backtracking matcher reports on a text that is only known by its
  shape (keywords in any case, white space, identifiers), without enumerating the alternatives.
\<close>

named_theorems leads_rules "the first match of a pattern, by the shape of the text"

section \<open>Shapes of text\<close>

definition kw :: "string \<Rightarrow> string \<Rightarrow> bool" where
  "kw k w \<longleftrightarrow> lower k = lower w"

definition spaces :: "string \<Rightarrow> bool" where
  "spaces s \<longleftrightarrow> s \<noteq> [] \<and> list_all is_space s"

definition word :: "string \<Rightarrow> bool" where
  "word s \<longleftrightarrow> s \<noteq> [] \<and> list_all is_word s"

definition starts :: "(char \<Rightarrow> bool) \<Rightarrow> string \<Rightarrow> bool" where
  "starts P s \<longleftrightarrow> s \<noteq> [] \<and> P (hd s)"

lemma starts_simps [simp]: "\<not> starts P []" "starts P (x # xs) \<longleftrightarrow> P x"
  by (simp_all add: starts_def)

lemma starts_append: "s \<noteq> [] \<Longrightarrow> starts P (s @ r) = starts P s"
  by (simp add: starts_def)

lemma code_char_of [simp]: "n < 256 \<Longrightarrow> code (char_of n) = n"
  by (simp add: code_def)

lemma is_word_tolower: "is_word (tolower c) = is_word c"
  by (auto simp: tolower_def is_word_def is_digit_def)

lemma word_not_space: "is_word c \<Longrightarrow> \<not> is_space c"
  by (auto simp: is_word_def is_space_def is_digit_def)

lemma kw_starts_word: "kw k w \<Longrightarrow> word w \<Longrightarrow> starts is_word k"
proof -
  assume "kw k w" "word w"
  then obtain x xs y ys where "k = x # xs" "w = y # ys" "tolower x = tolower y" "is_word y"
    by (cases k; cases w) (auto simp: kw_def lower_def word_def)
  then show ?thesis using is_word_tolower by (metis starts_simps(2))
qed

lemma kw_not_space: "kw k w \<Longrightarrow> word w \<Longrightarrow> \<not> starts is_space (k @ r)"
  using kw_starts_word [of k w] word_not_space by (cases k) auto

lemma word_not_starts_space: "word w \<Longrightarrow> \<not> starts is_space (w @ r)"
  using word_not_space by (cases w) (auto simp: word_def)

lemma spaces_not_word: "spaces s \<Longrightarrow> \<not> starts is_word (s @ r)"
  using word_not_space by (cases s) (auto simp: spaces_def)

section \<open>The first match\<close>

definition leads :: "rx \<Rightarrow> caps \<Rightarrow> string \<Rightarrow> caps \<Rightarrow> string \<Rightarrow> bool" where
  "leads re c s c' r \<longleftrightarrow> (\<exists>ms. mat re c s = (c', r) # ms)"

lemma leads_Seq: "leads a c s c1 s1 \<Longrightarrow> leads b c1 s1 c2 r \<Longrightarrow> leads (Seq a b) c s c2 r"
  by (auto simp: leads_def)

lemma leads_Lit: "leads (Lit w) c (w @ r) c r"
  by (simp add: leads_def)

lemma leads_ILit: "kw k w \<Longrightarrow> leads (ILit w) c (k @ r) c r"
proof -
  assume "kw k w"
  then have "length k = length w" by (metis kw_def length_lower)
  with \<open>kw k w\<close> show ?thesis by (simp add: leads_def kw_def)
qed

lemma leads_Grp: "leads a c (u @ r) c' r \<Longrightarrow> leads (Grp n a) c (u @ r) ((n, u) # c') r"
  by (auto simp: leads_def)

lemma leads_Alt1: "leads a c s c' r \<Longrightarrow> leads (Alt a b) c s c' r"
  by (auto simp: leads_def)

lemma leads_Alt2: "mat a c s = [] \<Longrightarrow> leads b c s c' r \<Longrightarrow> leads (Alt a b) c s c' r"
  by (auto simp: leads_def)

lemma leads_Opt: "leads a c s c' r \<Longrightarrow> leads (Opt a) c s c' r"
  by (auto simp: leads_def)

lemma leads_Opt_skip: "mat a c s = [] \<Longrightarrow> leads (Opt a) c s c s"
  by (auto simp: leads_def)

lemma leads_Star_stop: "mat a c s = [] \<Longrightarrow> leads (Star a) c s c s"
  by (auto simp: leads_def mat.simps(7))

lemma leads_Star_step:
  "leads a c s c1 s1 \<Longrightarrow> length s1 < length s \<Longrightarrow> leads (Star a) c1 s1 c2 r \<Longrightarrow> leads (Star a) c s c2 r"
  by (auto simp: leads_def mat.simps(7) [of a c s])

lemma mat_Cls_stop: "\<not> starts (in_cc k) r \<Longrightarrow> mat (Cls k) c r = []"
  by (cases r) auto

lemma leads_Star_Cls:
  "list_all (in_cc k) u \<Longrightarrow> \<not> starts (in_cc k) r \<Longrightarrow> leads (Star (Cls k)) c (u @ r) c r"
proof (induction u)
  case Nil
  then have "mat (Cls k) c r = []" by (intro mat_Cls_stop)
  then show ?case by (simp add: leads_Star_stop del: mat.simps)
next
  case (Cons x u)
  then have "leads (Cls k) c (x # u @ r) c (u @ r)" "leads (Star (Cls k)) c (u @ r) c r"
    by (simp_all add: leads_def)
  from leads_Star_step [OF this(1) _ this(2)] show ?case by simp
qed

lemma leads_Plus_Cls:
  "u \<noteq> [] \<Longrightarrow> list_all (in_cc k) u \<Longrightarrow> \<not> starts (in_cc k) r \<Longrightarrow> leads (Plus (Cls k)) c (u @ r) c r"
proof (cases u)
  case (Cons x v)
  assume u: "list_all (in_cc k) u" and r: "\<not> starts (in_cc k) r"
  from u Cons have "leads (Cls k) c (x # v @ r) c (v @ r)" by (simp add: leads_def)
  moreover from u r Cons have "leads (Star (Cls k)) c (v @ r) c r" by (intro leads_Star_Cls) simp_all
  ultimately show ?thesis using leads_Seq Cons by simp
qed simp

lemma leads_ws: "spaces u \<Longrightarrow> \<not> starts is_space r \<Longrightarrow> leads ws c (u @ r) c r"
  using leads_Plus_Cls [of u CSpace r c] by (simp add: ws_def spaces_def starts_def in_cc.simps [abs_def])

lemma leads_ws0: "list_all is_space u \<Longrightarrow> \<not> starts is_space r \<Longrightarrow> leads ws0 c (u @ r) c r"
  using leads_Star_Cls [of CSpace u r c] by (simp add: ws0_def starts_def in_cc.simps [abs_def])

lemma leads_wd: "word u \<Longrightarrow> \<not> starts is_word r \<Longrightarrow> leads wd c (u @ r) c r"
  using leads_Plus_Cls [of u CWord r c] by (simp add: wd_def word_def starts_def in_cc.simps [abs_def])

lemmas leads_atoms = leads_Lit leads_ILit leads_ws leads_ws0 leads_wd leads_Grp

lemma mat_Seq_stop: "mat a c s = [] \<Longrightarrow> mat (Seq a b) c s = []"
  by simp

lemma mat_wd_stop: "\<not> starts is_word s \<Longrightarrow> mat wd c s = []"
proof -
  assume "\<not> starts is_word s"
  then have "mat (Cls CWord) c s = []" by (intro mat_Cls_stop) (simp add: starts_def)
  then show ?thesis unfolding wd_def by (rule mat_Seq_stop)
qed

section \<open>Searching\<close>

lemma regex_search_leads:
  "leads re [] (u @ r) c r \<Longrightarrow> regex_search re (u @ r) = Some \<lparr>m_prefix = [], m_caps = c, m_str = u, m_suffix = r\<rparr>"
  by (auto simp: leads_def regex_search.simps [of re "u @ r"])

lemma regex_search_skip:
  "mat re [] (x # s) = [] \<Longrightarrow>
     regex_search re (x # s) = map_option (\<lambda>m. m\<lparr>m_prefix := x # m_prefix m\<rparr>) (regex_search re s)"
  by (simp add: regex_search.simps [of re "x # s"])

lemma regex_search_wd:
  "list_all (\<lambda>x. \<not> is_word x) p \<Longrightarrow> word w \<Longrightarrow> \<not> starts is_word r \<Longrightarrow>
     regex_search wd (p @ w @ r) = Some \<lparr>m_prefix = p, m_caps = [], m_str = w, m_suffix = r\<rparr>"
proof (induction p)
  case Nil
  then show ?case using regex_search_leads [OF leads_wd] by simp
next
  case (Cons x p)
  then have "mat wd [] (x # p @ w @ r) = []" by (intro mat_wd_stop) simp
  with Cons show ?case by (simp add: regex_search_skip)
qed

lemma regex_search_wd_none: "list_all (\<lambda>x. \<not> is_word x) p \<Longrightarrow> regex_search wd p = None"
proof (induction p)
  case Nil
  then show ?case by (simp add: regex_search.simps [of wd "[]"] mat_wd_stop)
next
  case (Cons x p)
  then have "mat wd [] (x # p) = []" by (intro mat_wd_stop) simp
  with Cons show ?case by (simp add: regex_search_skip)
qed

lemma rewrite_all_leads:
  "consumes re \<Longrightarrow> leads re [] (u @ r) c r \<Longrightarrow>
     rewrite_all re h (u @ r) =
       (case h \<lparr>m_prefix = [], m_caps = c, m_str = u, m_suffix = r\<rparr> of
          Inl e \<Rightarrow> Inl e
        | Inr t \<Rightarrow> (case rewrite_all re h r of Inl e \<Rightarrow> Inl e | Inr v \<Rightarrow> Inr (t @ v)))"
  using regex_search_leads [of re u r c]
  by (auto split: sum.splits simp: rewrite_all_error dest: rewrite_all_step [where h = h])

lemma regex_replace_Inr:
  "\<exists>t. rewrite_all re (\<lambda>m. Inr (format (m_caps m) tpl) :: unit + string) s = Inr t"
  by (rule rewrite_all_Inr) simp

lemma regex_replace_leads:
  assumes "consumes re" "leads re [] (u @ r) c r"
  shows "regex_replace (u @ r) re tpl = format c tpl @ regex_replace r re tpl"
  using regex_replace_Inr [of re tpl r] unfolding regex_replace_def
  by (auto simp: rewrite_all_leads [OF assms])

section \<open>Lists of names\<close>

text \<open>A list of names is its first word and, for each further word, the white space behind the comma.\<close>

definition names_tail :: "(string \<times> string) list \<Rightarrow> string" where
  "names_tail vs = concat (map (\<lambda>(sp, w). '','' @ sp @ w) vs)"

definition names_ok :: "(string \<times> string) list \<Rightarrow> bool" where
  "names_ok vs \<longleftrightarrow> (\<forall>(sp, w) \<in> set vs. list_all is_space sp \<and> word w)"

definition names_caps :: "nat \<Rightarrow> (string \<times> string) list \<Rightarrow> caps \<Rightarrow> caps" where
  "names_caps n vs c = foldl (\<lambda>c (sp, w). (n, '','' @ sp @ w) # c) c vs"

lemma names_tail_simps [simp]:
  "names_tail [] = []" "names_tail ((sp, w) # vs) = CHR '','' # sp @ w @ names_tail vs"
  by (simp_all add: names_tail_def)

lemma names_ok_simps [simp]:
  "names_ok []" "names_ok ((sp, w) # vs) \<longleftrightarrow> list_all is_space sp \<and> word w \<and> names_ok vs"
  by (auto simp: names_ok_def)

lemma map_of_names_caps: "m \<noteq> n \<Longrightarrow> map_of (names_caps n vs c) m = map_of c m"
  unfolding names_caps_def by (induction vs arbitrary: c) auto

lemma comma_not_word [simp]: "\<not> is_word (CHR '','')" "\<not> is_space (CHR '','')"
  by (simp_all add: is_word_def is_space_def is_digit_def code_def)

lemma names_tail_not_word: "\<not> starts is_word r \<Longrightarrow> \<not> starts is_word (names_tail vs @ r)"
  by (cases vs) auto

lemma leads_names_tail:
  "names_ok vs' \<Longrightarrow> \<not> starts is_word r \<Longrightarrow> \<not> starts (\<lambda>x. x = CHR '','') r \<Longrightarrow>
     leads (Star (Grp n (seqs [Lit '','', ws0, wd]))) c (names_tail vs' @ r) (names_caps n vs' c) r"
proof (induction vs' arbitrary: c)
  case Nil
  then have "mat (Grp n (seqs [Lit '','', ws0, wd])) c r = []"
    by (cases r) auto
  then show ?case by (simp add: leads_Star_stop names_caps_def)
next
  case (Cons p vs')
  obtain sp w where p: "p = (sp, w)" by fastforce
  let ?r = "names_tail vs' @ r"
  have nw: "\<not> starts is_word ?r" using Cons.prems names_tail_not_word by blast
  have ns: "\<not> starts is_space (w @ ?r)" using Cons.prems p word_not_starts_space by simp
  have "leads (seqs [Lit '','', ws0, wd]) c (('','' @ sp @ w) @ ?r) c ?r"
    unfolding seqs.simps append.assoc
    by (rule leads_Seq [OF leads_Lit leads_Seq [OF leads_ws0 leads_wd]]) (use Cons.prems p nw ns in simp_all)
  from leads_Star_step [OF leads_Grp [OF this] _ Cons.IH] Cons.prems p show ?case
    by (simp add: names_caps_def)
qed

lemma leads_word_list:
  assumes "word w" "names_ok vs'" "\<not> starts is_word r" "\<not> starts (\<lambda>x. x = CHR '','') r"
  shows "leads (word_list n) c ((w @ names_tail vs') @ r) (names_caps n vs' c) r"
  unfolding word_list_def append.assoc
  by (rule leads_Seq [OF leads_wd leads_names_tail]) (use assms names_tail_not_word in auto)

end
