(* ===== verification/Translators.thy ===== *)
theory Translators
  imports RegexRules
begin

text \<open>
  Facts about the translators of \<open>query/proxy-command.cpp\<close>: the match each pattern reports on a
  statement of its command, the column lists of an inheritance, the texts that no translator touches
  and the errors the chain can end in.
\<close>

section \<open>Matching a statement piece by piece\<close>

lemma words_of_keywords [simp]:
  "word ''ENABLE''" "word ''ACCESS''" "word ''CONTROL''" "word ''CREATE''" "word ''PERMISSION''"
  "word ''ROLE''" "word ''INHERITANCE''" "word ''ON''" "word ''FOR''" "word ''WITH''" "word ''FROM''"
  "word ''TO''" "word ''LIST''" "word ''BIND''" "word ''UNBIND''" "word ''BINDING''"
  by code_simp+

lemma punctuation_class [simp]:
  "\<not> is_word (CHR ''('')" "\<not> is_word (CHR '')'')" "\<not> is_space (CHR ''('')" "\<not> is_space (CHR '')'')"
  "\<not> is_word (CHR '';'')" "\<not> is_space (CHR '';'')"
  by code_simp+

lemma leads_kw_then: "kw k w \<Longrightarrow> leads b c s c' r \<Longrightarrow> leads (Seq (ILit w) b) c (k @ s) c' r"
  by (rule leads_Seq [OF leads_ILit])

definition visible :: "string \<Rightarrow> bool" where
  "visible k \<longleftrightarrow> k \<noteq> [] \<and> \<not> is_space (hd k)"

lemma kw_visible: "kw k w \<Longrightarrow> word w \<Longrightarrow> visible k"
  using kw_starts_word [of k w] word_not_space by (cases k) (auto simp: visible_def)

lemma word_visible: "word w \<Longrightarrow> visible w"
  using word_not_space by (cases w) (auto simp: visible_def word_def)

lemma visible_not_space: "visible k \<Longrightarrow> \<not> starts is_space (k @ s)"
  by (simp add: visible_def starts_append) (simp add: starts_def)

lemma leads_ws_then:
  "spaces u \<Longrightarrow> visible k \<Longrightarrow> leads b c (k @ s) c' r \<Longrightarrow> leads (Seq ws b) c (u @ k @ s) c' r"
  by (rule leads_Seq [OF leads_ws]) (simp_all add: visible_not_space)

lemma leads_ws0_then:
  "list_all is_space u \<Longrightarrow> \<not> starts is_space s \<Longrightarrow> leads b c s c' r \<Longrightarrow> leads (Seq ws0 b) c (u @ s) c' r"
  by (rule leads_Seq [OF leads_ws0])

lemma leads_word_then:
  "word u \<Longrightarrow> \<not> starts is_word s \<Longrightarrow> leads b ((n, u) # c) s c' r \<Longrightarrow> leads (Seq (Grp n wd) b) c (u @ s) c' r"
  by (rule leads_Seq [OF leads_Grp [OF leads_wd]])

lemma leads_word_last: "word u \<Longrightarrow> \<not> starts is_word r \<Longrightarrow> leads (Grp n wd) c (u @ r) ((n, u) # c) r"
  by (rule leads_Grp [OF leads_wd])

lemma leads_lit_then: "leads b c s c' r \<Longrightarrow> leads (Seq (Lit w) b) c (w @ s) c' r"
  by (rule leads_Seq [OF leads_Lit])

lemma leads_names_then:
  assumes "word w" "names_ok vs" "\<not> starts is_word s" "\<not> starts (\<lambda>x. x = CHR '','') s"
    "leads b ((n, w @ names_tail vs) # names_caps i vs c) s c' r"
  shows "leads (Seq (Grp n (word_list i)) b) c (w @ names_tail vs @ s) c' r"
  using leads_Seq [OF leads_Grp [OF leads_word_list [OF assms(1-4)]] assms(5)] by simp

lemma leads_names_last:
  assumes "word w" "names_ok vs" "\<not> starts is_word r" "\<not> starts (\<lambda>x. x = CHR '','') r"
  shows "leads (Grp n (word_list i)) c (w @ names_tail vs @ r) ((n, w @ names_tail vs) # names_caps i vs c) r"
  using leads_Grp [OF leads_word_list [OF assms]] by simp

lemmas leads_steps = leads_kw_then leads_ws_then leads_word_then leads_word_last spaces_not_word

lemmas visible_rules = kw_visible word_visible words_of_keywords

section \<open>The statements\<close>

lemma leads_enable:
  assumes "kw k1 ''ENABLE''" "spaces s1" "kw k2 ''ACCESS''" "spaces s2" "kw k3 ''CONTROL''" "spaces s3"
    "word t" "\<not> starts is_word r"
  shows "leads re_enable [] (k1 @ s1 @ k2 @ s2 @ k3 @ s3 @ t @ r) [(1, t)] r"
proof -
  have "visible k2" "visible k3" "visible t" using assms by (blast intro: visible_rules)+
  then show ?thesis unfolding re_enable_def seqs.simps by (intro leads_steps assms)
qed

lemma leads_create_permission:
  assumes "kw k1 ''CREATE''" "spaces s1" "kw k2 ''ACCESS''" "spaces s2" "kw k3 ''PERMISSION''" "spaces s3"
    "word n" "spaces s4" "kw k4 ''ON''" "spaces s5" "word t" "spaces s6" "kw k5 ''FOR''" "spaces s7"
    "word op" "\<not> starts is_word r"
  shows "leads re_create_permission []
     (k1 @ s1 @ k2 @ s2 @ k3 @ s3 @ n @ s4 @ k4 @ s5 @ t @ s6 @ k5 @ s7 @ op @ r) [(3, op), (2, t), (1, n)] r"
proof -
  have "visible k2" "visible k3" "visible n" "visible k4" "visible t" "visible k5" "visible op"
    using assms by (blast intro: visible_rules)+
  then show ?thesis unfolding re_create_permission_def seqs.simps by (intro leads_steps assms)
qed

lemma leads_create_role:
  assumes "kw k1 ''CREATE''" "spaces s1" "kw k2 ''ACCESS''" "spaces s2" "kw k3 ''ROLE''" "spaces s3"
    "word n" "spaces s4" "kw k4 ''WITH''" "spaces s5" "word p" "names_ok ps"
    "\<not> starts is_word r" "\<not> starts (\<lambda>x. x = CHR '','') r"
  shows "leads re_create_role [] (k1 @ s1 @ k2 @ s2 @ k3 @ s3 @ n @ s4 @ k4 @ s5 @ p @ names_tail ps @ r)
     ((2, p @ names_tail ps) # names_caps 3 ps [(1, n)]) r"
proof -
  have "visible k2" "visible k3" "visible n" "visible k4" "visible p"
    using assms by (blast intro: visible_rules)+
  then show ?thesis unfolding re_create_role_def seqs.simps by (intro leads_steps leads_names_last assms)
qed

lemma open_paren_stops: "list_all is_space s \<Longrightarrow> \<not> starts is_word (s @ ''('' @ x)"
  using word_not_space by (cases s) auto

lemma close_paren_stops:
  "\<not> starts is_word ('')'' @ x)" "\<not> starts (\<lambda>x. x = CHR '','') ('')'' @ x)" "\<not> starts is_space (''('' @ x)"
  by simp_all

lemma leads_create_inheritance:
  assumes "kw k1 ''CREATE''" "spaces s1" "kw k2 ''ACCESS''" "spaces s2" "kw k3 ''INHERITANCE''" "spaces s3"
    "kw k4 ''FROM''" "spaces s4" "word f" "list_all is_space s5" "word fc" "names_ok fcs" "spaces s6"
    "kw k5 ''TO''" "spaces s7" "word t" "list_all is_space s8" "word tc" "names_ok tcs"
  shows "leads re_create_inheritance []
     (k1 @ s1 @ k2 @ s2 @ k3 @ s3 @ k4 @ s4 @ f @ s5 @ ''('' @ fc @ names_tail fcs @ '')'' @ s6
      @ k5 @ s7 @ t @ s8 @ ''('' @ tc @ names_tail tcs @ '')'' @ r)
     ((5, tc @ names_tail tcs) # names_caps 6 tcs
        ((4, t) # (2, fc @ names_tail fcs) # names_caps 3 fcs [(1, f)])) r"
proof -
  have "visible k2" "visible k3" "visible k4" "visible f" "visible k5" "visible t"
    using assms by (blast intro: visible_rules)+
  then show ?thesis
    unfolding re_create_inheritance_def seqs.simps
    by (intro leads_steps leads_ws0_then leads_lit_then leads_names_then leads_Lit assms
          open_paren_stops close_paren_stops)
qed

section \<open>The argument in parentheses\<close>

lemma upt_Suc_map: "[0..<Suc m] = 0 # map Suc [0..<m]"
  by (simp add: map_Suc_upt upt_conv_Cons del: upt_Suc)

lemma upt_split: "a < b \<Longrightarrow> [0..<b] = [0..<a] @ a # [Suc a..<b]"
  using upt_add_eq_append [of 0 a "b - a"] by (simp add: upt_conv_Cons del: upt_Suc)

lemma take_consumed:
  assumes "i \<le> length w"
  shows "take (length ((x # w) @ v) - length (drop i w @ v)) ((x # w) @ v) = take (Suc i) (x # w)"
proof -
  have "length ((x # w) @ v) - length (drop i w @ v) = Suc i" using assms by simp
  then show ?thesis using assms by simp
qed

lemma leads_backtrack:
  assumes "mat a c s = xs @ (c1, s1) # ys" "\<forall>(c', s') \<in> set xs. mat b c' s' = []" "leads b c1 s1 c2 r"
  shows "leads (Seq a b) c s c2 r"
proof -
  have "concat (map (\<lambda>(c', s'). mat b c' s') xs) = []" using assms(2) by (induction xs) auto
  then have "mat (Seq a b) c s = mat b c1 s1 @ concat (map (\<lambda>(c', s'). mat b c' s') ys)"
    using assms(1) by (simp only: mat.simps map_append concat_append list.map concat.simps split_conv) simp
  then show ?thesis using assms(3) by (auto simp: leads_def)
qed

lemma mat_Star_Cls_all:
  "list_all (in_cc k) w \<Longrightarrow> \<not> starts (in_cc k) v \<Longrightarrow>
     mat (Star (Cls k)) c (w @ v) = map (\<lambda>i. (c, drop i w @ v)) (rev [0..<Suc (length w)])"
proof (induction w)
  case Nil
  then have "mat (Cls k) c v = []" by (intro mat_Cls_stop)
  then show ?case by (simp add: mat.simps(7))
next
  case (Cons x w)
  then have "mat (Star (Cls k)) c ((x # w) @ v) = mat (Star (Cls k)) c (w @ v) @ [(c, x # w @ v)]"
    by (simp add: mat.simps(7) [of "Cls k" c "x # w @ v"])
  also have "\<dots> = map (\<lambda>i. (c, drop i (x # w) @ v)) (map Suc (rev [0..<Suc (length w)]) @ [0])"
    using Cons by (simp del: upt_Suc add: o_def)
  also have "map Suc (rev [0..<Suc (length w)]) @ [0] = rev [0..<Suc (length (x # w))]"
    using upt_Suc_map [of "Suc (length w)"] by (simp add: rev_map del: upt_Suc)
  finally show ?case .
qed

lemma leads_query_arg:
  assumes q: "q \<noteq> []" "list_all (\<lambda>x. x \<noteq> CHR '';'') q"
    and u: "list_all (\<lambda>x. x \<noteq> CHR '';'' \<and> x \<noteq> CHR '')'') u" and v: "v = [] \<or> hd v = CHR '';''"
  shows "leads (query_arg n) c (''('' @ q @ '')'' @ u @ v) ((n, q) # c) (u @ v)"
proof -
  let ?k = "CNot '';''" and ?w = "q @ '')'' @ u"
  have all: "list_all (in_cc ?k) ?w" using q u by (auto simp: list_all_iff)
  have stop: "\<not> starts (in_cc ?k) v" using v by (auto simp: starts_def)
  obtain x q' where x: "q = x # q'" using q by (cases q) auto
  let ?s = "?w @ v" and ?w' = "q' @ '')'' @ u"
  let ?G = "\<lambda>i. ((n, take (Suc i) ?w) # c, drop i ?w' @ v)"
  have "mat (Plus (Cls ?k)) c ?s = map (\<lambda>i. (c, drop i ?w' @ v)) (rev [0..<Suc (length ?w')])"
    using all x mat_Star_Cls_all [of ?k ?w' v c] stop by (simp del: upt_Suc)
  then have "mat (Grp n (Plus (Cls ?k))) c ?s
      = map (\<lambda>i. ((n, take (length ?s - length (drop i ?w' @ v)) ?s) # c, drop i ?w' @ v)) (rev [0..<Suc (length ?w')])"
    by (simp del: upt_Suc mat.simps(4) add: o_def)
  also have "\<dots> = map ?G (rev [0..<Suc (length ?w')])"
    using x take_consumed [of _ ?w' x v] by (auto simp del: upt_Suc)
  also have "[0..<Suc (length ?w')] = [0..<length q'] @ length q' # [Suc (length q')..<Suc (length ?w')]"
    by (rule upt_split) simp
  finally have G: "mat (Grp n (Plus (Cls ?k))) c ?s
      = map ?G (rev [Suc (length q')..<Suc (length ?w')]) @ ?G (length q') # map ?G (rev [0..<length q'])"
    by simp
  have dead: "mat (Lit '')'') c' (drop i ?w' @ v) = []" if "i \<in> set [Suc (length q')..<Suc (length ?w')]" for i c'
  proof -
    have "Suc (length q') \<le> i" using that by (simp del: upt_Suc)
    then obtain j where "i = Suc (length q') + j" using le_Suc_ex by blast
    then have "drop i ?w' = drop j u" by simp
    moreover have "CHR '')'' \<notin> set (drop j u)" using u by (auto simp: list_all_iff dest: in_set_dropD)
    ultimately show ?thesis
      using v by (cases "drop j u"; cases v) auto
  qed
  have hit: "mat (Lit '')'') c' (drop (length q') ?w' @ v) = [(c', u @ v)]" for c' by simp
  have "leads (Seq (Grp n (Plus (Cls ?k))) (Lit '')'')) c ?s ((n, q) # c) (u @ v)"
  proof (rule leads_backtrack [OF G])
    show "\<forall>(c', s') \<in> set (map ?G (rev [Suc (length q')..<Suc (length ?w')])). mat (Lit '')'') c' s' = []"
      using dead by (simp del: upt_Suc mat.simps)
    show "leads (Lit '')'') ((n, take (Suc (length q')) ?w) # c) (drop (length q') ?w' @ v) ((n, q) # c) (u @ v)"
      using x by (simp add: leads_def)
  qed
  from leads_lit_then [OF this, of "''(''"] show ?thesis
    unfolding query_arg_def seqs.simps by simp
qed

lemma leads_bind_role:
  assumes "kw k1 ''BIND''" "spaces s1" "kw k2 ''ACCESS''" "spaces s2" "kw k3 ''ROLE''" "spaces s3"
    "word n" "spaces s4" "kw k4 ''TO''" "spaces s5"
    "pr \<noteq> []" "list_all (in_cc (CWordOr ''@'')) pr" "spaces s6" "kw k5 ''ON''" "spaces s7"
    "word t" "list_all is_space s8" "q \<noteq> []" "list_all (\<lambda>x. x \<noteq> CHR '';'') q"
    "list_all (\<lambda>x. x \<noteq> CHR '';'' \<and> x \<noteq> CHR '')'') u" "v = [] \<or> hd v = CHR '';''"
  shows "leads re_bind_role []
     (k1 @ s1 @ k2 @ s2 @ k3 @ s3 @ n @ s4 @ k4 @ s5 @ pr @ s6 @ k5 @ s7 @ t @ s8 @ ''('' @ q @ '')'' @ u @ v)
     [(4, q), (3, t), (2, pr), (1, n)] (u @ v)"
proof -
  have at: "\<not> is_space (CHR ''@'')" by code_simp
  have "visible pr" using assms(11,12) word_not_space at by (cases pr) (auto simp: visible_def)
  moreover have "\<not> starts (in_cc (CWordOr ''@'')) (s6 @ x)" for x
    using \<open>spaces s6\<close> word_not_space at by (cases s6) (auto simp: spaces_def)
  from leads_Grp [OF leads_Plus_Cls [OF assms(11,12) this]]
  have "leads (Grp 2 (Plus (Cls (CWordOr ''@'')))) c (pr @ s6 @ x) ((2, pr) # c) (s6 @ x)" for c x .
  note principal = leads_Seq [OF this]
  have "visible k2" "visible k3" "visible n" "visible k4" "visible k5" "visible t"
    using assms by (blast intro: visible_rules)+
  ultimately show ?thesis
    unfolding re_bind_role_def seqs.simps
    by (intro leads_steps leads_ws0_then principal leads_query_arg assms open_paren_stops close_paren_stops)
qed

section \<open>The SQL of a statement\<close>

lemma format_quoted:
  "format c (quoted ''$1'' @ ys) = quoted (sub c 1) @ format c ys"
  "format c (quoted ''$2'' @ ys) = quoted (sub c 2) @ format c ys"
  "format c (quoted ''$3'' @ ys) = quoted (sub c 3) @ format c ys"
proof -
  have q: "quoted x @ ys = [SQ] @ x @ [SQ] @ ys" for x ys by (simp add: quoted_def)
  have l: "format c ([SQ] @ ys) = [SQ] @ format c ys" for ys by (rule format_lit) simp
  have s: "\<not> is_digit (hd ([SQ] @ ys))" for ys by (simp add: is_digit_def code_def)
  show "format c (quoted ''$1'' @ ys) = quoted (sub c 1) @ format c ys"
    "format c (quoted ''$2'' @ ys) = quoted (sub c 2) @ format c ys"
    "format c (quoted ''$3'' @ ys) = quoted (sub c 3) @ format c ys"
    unfolding q using s by (simp_all only: l format_refs simp_thms)
qed

lemma format_end: "CHR ''$'' \<notin> set xs \<Longrightarrow> format c xs = xs"
  using format_lit [of xs c "[]"] by simp

lemma hd_append_lit: "is_digit (hd ((x # xs) @ ys)) = is_digit x"
  by simp

lemma not_digit [simp]:
  "\<not> is_digit (CHR ''_'')" "\<not> is_digit (CHR '' '')" "\<not> is_digit (CHR '','')" "\<not> is_digit (CHR '')'')"
  by (simp_all add: is_digit_def code_def)

lemma no_dollar: "list_all (\<lambda>x. x \<noteq> CHR ''$'') xs \<Longrightarrow> CHR ''$'' \<notin> set xs"
  by (auto simp: list_all_iff)

lemma group_numbers:
  "(1::nat) \<noteq> 2" "(1::nat) \<noteq> 3" "(1::nat) \<noteq> 4" "(2::nat) \<noteq> 3" "(2::nat) \<noteq> 4" "(3::nat) \<noteq> 4"
  by simp_all

lemmas format_simps = group_numbers format_quoted format_lit format_refs format_end hd_append_lit no_dollar
  sub_def list.pred_inject char.inject simp_thms append_Nil list.sel not_digit map_of.simps fst_conv
  snd_conv option.case fun_upd_apply if_True if_False

definition sql_enable :: "string \<Rightarrow> string" where
  \<comment> \<open>what \<open>ENABLE ACCESS CONTROL t\<close> stands for\<close>
  "sql_enable t =
     ''CREATE TABLE '' @ t @ ''__access_bindings__ ('' @
     ''   _id             BIGINT NOT NULL,'' @
     ''   _role           TEXT NOT NULL,'' @
     ''   _principal      TEXT NOT NULL,'' @
     ''   _ref            BIGINT NOT NULL,'' @
     ''   _inheritance    BIGINT NOT NULL DEFAULT 0,'' @
     ''   _ts             TIMESTAMP DEFAULT NOW(),'' @
     ''   PRIMARY KEY (_id, _inheritance, _ref),'' @
     ''   FOREIGN KEY (_id) REFERENCES '' @ t @ '' (id) ON DELETE CASCADE,'' @
     ''   FOREIGN KEY (_role) REFERENCES __access_roles__ (_name) ON DELETE RESTRICT,'' @
     ''   FOREIGN KEY (_ref) REFERENCES __access_binding_refs__ (_id) ON DELETE CASCADE,'' @
     ''   FOREIGN KEY (_inheritance) REFERENCES __access_inheritances__ (_id) ON DELETE CASCADE'' @
     '');'' @
     ''CREATE TRIGGER '' @ t @ ''__upsert__'' @
     ''   AFTER INSERT OR UPDATE ON '' @ t @
     ''   FOR EACH ROW'' @
     ''   EXECUTE FUNCTION __set_access_bindings__();'' @
     ''CREATE VIEW '' @ t @ ''__acls__ AS'' @
     ''   SELECT b._id, b._role, b._principal, r._operation, r._columns'' @
     ''   FROM '' @ t @ ''__access_bindings__ b, __access_roles_expanded__ r'' @
     ''   WHERE r._relation = '' @ quoted t @ ''::REGCLASS AND b._role = r._name;'' @
     ''GRANT ALL PRIVILEGES ON '' @ t @ '', '' @ t @ ''__acls__ TO PUBLIC''"

lemma format_enable: "format [(1, t)] tpl_enable = sql_enable t"
  unfolding tpl_enable_def sql_enable_def by (simp only: format_simps)

definition sql_bind :: "string \<Rightarrow> string \<Rightarrow> string \<Rightarrow> string \<Rightarrow> string" where
  "sql_bind role who tab ids =
     ''WITH r AS'' @
     ''   (INSERT INTO __access_binding_refs__ (_origin, _origin_id)'' @
     ''       VALUES ('' @ quoted tab @ '', ('' @ ids @ ''))'' @
     ''       RETURNING *)'' @
     ''INSERT INTO '' @ tab @ ''__access_bindings__ (_role, _principal, _id, _ref)'' @
     ''   SELECT '' @ quoted role @ '', '' @ quoted who @ '', _origin_id, _id'' @
     ''   FROM r''"

lemma format_bind: "format [(4, q), (3, t), (2, p), (1, n)] tpl_bind_role = sql_bind n p t q"
  unfolding tpl_bind_role_def sql_bind_def by (simp only: format_simps)

lemma consumes_patterns [simp]:
  "consumes re_comment" "consumes re_enable" "consumes re_create_permission" "consumes re_create_role"
  "consumes re_create_inheritance" "consumes re_list_permission" "consumes re_list_role"
  "consumes re_list_inheritance" "consumes re_bind_role" "consumes re_unbind_role" "consumes re_list_binding"
  by (simp_all add: re_comment_def re_enable_def re_create_permission_def re_create_role_def
      re_create_inheritance_def re_list_permission_def re_list_role_def re_list_inheritance_def
      re_bind_role_def re_unbind_role_def re_list_binding_def)

section \<open>Column lists\<close>

text \<open>The scan of a column list sees blocks: what separates a word from the one before it, and the word.\<close>

definition blocks :: "(string \<times> string) list \<Rightarrow> string" where
  "blocks bs = concat (map (\<lambda>(p, w). p @ w) bs)"

definition blocks_ok :: "(string \<times> string) list \<Rightarrow> bool" where
  "blocks_ok bs \<longleftrightarrow> (\<forall>(p, w) \<in> set bs. p \<noteq> [] \<and> list_all (\<lambda>x. \<not> is_word x) p \<and> word w)"

definition join_conds :: "bool \<Rightarrow> (string \<times> string) list \<Rightarrow> string" where
  \<comment> \<open>\<open>WHERE f1 = $1.t1 AND f2 = $1.t2 \<dots>\<close>\<close>
  "join_conds first ps = concat (map (\<lambda>(i, f, t).
     (if first \<and> i = 0 then '' WHERE '' else '' AND '') @ f @ '' = $1.'' @ t) (zip [0..<length ps] ps))"

lemma blocks_simps [simp]: "blocks [] = []" "blocks ((p, w) # bs) = p @ w @ blocks bs"
  by (simp_all add: blocks_def)

lemma blocks_ok_simps [simp]:
  "blocks_ok []"
  "blocks_ok ((p, w) # bs) \<longleftrightarrow> p \<noteq> [] \<and> list_all (\<lambda>x. \<not> is_word x) p \<and> word w \<and> blocks_ok bs"
  by (auto simp: blocks_ok_def)

lemma blocks_not_word: "blocks_ok bs \<Longrightarrow> \<not> starts is_word (blocks bs)"
proof (cases bs)
  case (Cons b bs')
  assume "blocks_ok bs"
  with Cons show ?thesis by (cases b; cases "fst b") auto
qed simp

lemma search_block:
  "list_all (\<lambda>x. \<not> is_word x) p \<Longrightarrow> word w \<Longrightarrow> blocks_ok bs \<Longrightarrow>
     regex_search wd (p @ w @ blocks bs) = Some \<lparr>m_prefix = p, m_caps = [], m_str = w, m_suffix = blocks bs\<rparr>"
  by (rule regex_search_wd) (simp_all add: blocks_not_word)

lemma search_blocks_none: "blocks_ok bs \<Longrightarrow> regex_search wd (blocks bs) = None \<longleftrightarrow> bs = []"
  by (cases bs) (auto simp: search_block regex_search_wd_none)

lemma join_conds_False: "join_conds False ps = concat (map (\<lambda>(f, t). '' AND '' @ f @ '' = $1.'' @ t) ps)"
proof -
  have "concat (map (\<lambda>(i, f, t). '' AND '' @ f @ '' = $1.'' @ t) (zip [n..<n + length ps] ps))
      = concat (map (\<lambda>(f, t). '' AND '' @ f @ '' = $1.'' @ t) ps)" for n
    by (induction ps arbitrary: n) (auto simp: upt_conv_Cons simp del: upt_Suc, metis add_Suc)
  from this [of 0] show ?thesis by (simp add: join_conds_def)
qed

lemma join_conds_True:
  "join_conds True ((f, t) # ps) = '' WHERE '' @ f @ '' = $1.'' @ t @ join_conds False ps"
proof -
  have "concat (map (\<lambda>(i, f, t). (if i = 0 then '' WHERE '' else '' AND '') @ f @ '' = $1.'' @ t)
        (zip [Suc n..<Suc n + length ps] ps))
      = concat (map (\<lambda>(f, t). '' AND '' @ f @ '' = $1.'' @ t) ps)" for n
    by (induction ps arbitrary: n) (auto simp: upt_conv_Cons simp del: upt_Suc, metis add_Suc)
  from this [of 0] show ?thesis
    unfolding join_conds_False by (simp add: join_conds_def upt_conv_Cons del: upt_Suc)
qed

lemma pair_columns_step:
  "regex_search wd a = Some f \<Longrightarrow> regex_search wd b = Some t \<Longrightarrow>
     pair_columns False (m_suffix f) (m_suffix t) = (rest, x, y) \<Longrightarrow>
     pair_columns first a b =
       ((if first then '' WHERE '' else '' AND '') @ m_str f @ '' = $1.'' @ m_str t @ rest, x, y)"
  by (simp add: pair_columns.simps [of first a b])

lemma pair_columns_blocks:
  "blocks_ok fs \<Longrightarrow> blocks_ok ts \<Longrightarrow>
     pair_columns False (blocks fs) (blocks ts) =
       (join_conds False (zip (map snd fs) (map snd ts)), length ts < length fs, length fs < length ts)"
proof (induction fs arbitrary: ts)
  case Nil
  then show ?case
    using search_blocks_none [of ts] search_blocks_none [of "[]"]
    by (auto simp: pair_columns.simps [of False "[]"] join_conds_False)
next
  case (Cons b fs)
  obtain p w where b: "b = (p, w)" by fastforce
  with Cons.prems have f: "regex_search wd (blocks (b # fs))
      = Some \<lparr>m_prefix = p, m_caps = [], m_str = w, m_suffix = blocks fs\<rparr>" and ok: "blocks_ok fs"
    by (simp_all add: search_block)
  show ?case
  proof (cases ts)
    case Nil
    then show ?thesis
      using f search_blocks_none [of "[]"]
      by (simp add: pair_columns.simps [of False "blocks (b # fs)"] join_conds_False)
  next
    case (Cons d ts')
    obtain q v where d: "d = (q, v)" by fastforce
    with Cons Cons.prems have t: "regex_search wd (blocks ts)
        = Some \<lparr>m_prefix = q, m_caps = [], m_str = v, m_suffix = blocks ts'\<rparr>" and ok': "blocks_ok ts'"
      by (simp_all add: search_block)
    have "pair_columns False (blocks fs) (blocks ts') =
        (join_conds False (zip (map snd fs) (map snd ts')), length ts' < length fs, length fs < length ts')"
      by (rule Cons.IH [OF ok ok'])
    from pair_columns_step [OF f t, of _ _ _ False] this Cons b d show ?thesis
      by (simp add: join_conds_False del: blocks_simps append.simps)
  qed
qed

definition columns :: "string \<Rightarrow> (string \<times> string) list \<Rightarrow> string list" where
  "columns w vs = w # map snd vs"

lemma names_tail_blocks: "names_tail vs = blocks (map (\<lambda>(sp, w). ('','' @ sp, w)) vs)"
  by (induction vs) auto

lemma names_blocks_ok: "names_ok vs \<Longrightarrow> blocks_ok (map (\<lambda>(sp, w). ('','' @ sp, w)) vs)"
proof (induction vs)
  case (Cons v vs)
  have "list_all (\<lambda>x. \<not> is_word x) sp" if "list_all is_space sp" for sp
    using that word_not_space by (auto simp: list_all_iff)
  with Cons show ?case by (cases v) simp
qed simp

lemma pair_columns_names:
  assumes "word fc" "names_ok fcs" "word tc" "names_ok tcs"
  shows "pair_columns True (fc @ names_tail fcs) (tc @ names_tail tcs) =
     (join_conds True (zip (columns fc fcs) (columns tc tcs)),
      length tcs < length fcs, length fcs < length tcs)"
proof -
  let ?b = "map (\<lambda>(sp, w). ('','' @ sp, w))"
  have "regex_search wd (w @ names_tail vs)
      = Some \<lparr>m_prefix = [], m_caps = [], m_str = w, m_suffix = blocks (?b vs)\<rparr>"
    if "word w" "names_ok vs" for w vs
    using search_block [of "[]" w "?b vs"] that names_blocks_ok by (simp add: names_tail_blocks)
  note w = this [OF assms(1,2)] this [OF assms(3,4)]
  have "pair_columns False (blocks (?b fcs)) (blocks (?b tcs)) =
      (join_conds False (zip (map snd fcs) (map snd tcs)), length tcs < length fcs, length fcs < length tcs)"
    using pair_columns_blocks [OF names_blocks_ok names_blocks_ok, of fcs tcs] assms
    by (simp add: case_prod_unfold o_def)
  from pair_columns_step [OF w, of _ _ _ True] this show ?thesis
    by (simp add: columns_def join_conds_True del: append.simps)
qed

end
