(* ===== verification/Commands.thy ===== *)
theory Commands
  imports Translators
begin

text \<open>
  What the translation of proxy commands does to a query: the SQL each command becomes, the errors
  the chain can end in, and the queries it leaves alone.
\<close>

section \<open>Errors of the chain\<close>

fun groups :: "rx \<Rightarrow> (nat \<times> rx) list" where
  "groups (Seq a b) = groups a @ groups b"
| "groups (Alt a b) = groups a @ groups b"
| "groups (Opt a) = groups a"
| "groups (Star a) = groups a"
| "groups (Lazy a) = groups a"
| "groups (Grp n a) = (n, a) # groups a"
| "groups (Ahead a) = groups a"
| "groups _ = []"

definition from_group :: "rx \<Rightarrow> nat \<Rightarrow> string \<Rightarrow> bool" where
  \<comment> \<open>the text was matched by a group of the pattern with this number\<close>
  "from_group re n u \<longleftrightarrow>
     (\<exists>a c0 c1 r. (n, a) \<in> set (groups re) \<and> (c1, r) \<in> set (mat a c0 (u @ r)))"

lemma from_group_sub [intro]:
  "from_group a n u \<Longrightarrow> from_group (Seq a b) n u" "from_group b n u \<Longrightarrow> from_group (Seq a b) n u"
  "from_group a n u \<Longrightarrow> from_group (Alt a b) n u" "from_group b n u \<Longrightarrow> from_group (Alt a b) n u"
  "from_group a n u \<Longrightarrow> from_group (Opt a) n u" "from_group a n u \<Longrightarrow> from_group (Star a) n u"
  "from_group a n u \<Longrightarrow> from_group (Lazy a) n u" "from_group a n u \<Longrightarrow> from_group (Ahead a) n u"
  "from_group a n u \<Longrightarrow> from_group (Grp m a) n u"
  unfolding from_group_def by (simp; blast)+

lemma from_group_self: "(c1, r) \<in> set (mat a c0 (u @ r)) \<Longrightarrow> from_group (Grp n a) n u"
  unfolding from_group_def by auto

lemma mat_caps: "(c', r) \<in> set (mat re c s) \<Longrightarrow> (n, u) \<in> set c' \<Longrightarrow> (n, u) \<in> set c \<or> from_group re n u"
proof (induction re c s arbitrary: c' r rule: mat.induct)
  case (4 a b c s)
  then obtain c1 s1 where "(c1, s1) \<in> set (mat a c s)" "(c', r) \<in> set (mat b c1 s1)" by auto
  with 4(1) [of c1 s1] 4(2) [of "(c1, s1)" c1 s1 c' r] 4(4) show ?case by blast
next
  case (7 a c s)
  from 7(3) consider "c' = c"
    | c1 s1 where "(c1, s1) \<in> set (mat a c s)" "length s1 < length s" "(c', r) \<in> set (mat (Star a) c1 s1)"
    by (auto simp: mat.simps(7) [of a c s] split: if_splits)
  then show ?case
  proof cases
    case 2
    with 7(1) [of c1 s1] 7(2) [of "(c1, s1)" c1 s1 c' r] 7(4) show ?thesis by blast
  qed (use 7(4) in simp)
next
  case (8 a c s)
  from 8(3) consider "c' = c"
    | c1 s1 where "(c1, s1) \<in> set (mat a c s)" "length s1 < length s" "(c', r) \<in> set (mat (Lazy a) c1 s1)"
    by (auto simp: mat.simps(8) [of a c s] split: if_splits)
  then show ?case
  proof cases
    case 2
    with 8(1) [of c1 s1] 8(2) [of "(c1, s1)" c1 s1 c' r] 8(4) show ?thesis by blast
  qed (use 8(4) in simp)
next
  case (9 m a c s)
  then obtain c1 where c1: "(c1, r) \<in> set (mat a c s)" "c' = (m, take (length s - length r) s) # c1" by auto
  from mat_suffix [OF c1(1)] obtain v where v: "s = v @ r" by blast
  with c1 9(3) have "(n, u) = (m, v) \<or> (n, u) \<in> set c1" by auto
  with c1(1) v 9(1) [OF c1(1)] show ?case using from_group_self by blast
next
  case (10 a c s)
  from 10(2) obtain x ms where "mat a c s = (c', x) # ms" by (cases "mat a c s") auto
  then have "(c', x) \<in> set (mat a c s)" by simp
  from 10(1) [OF this 10(3)] show ?case by blast
qed (auto split: list.splits if_splits)

lemma regex_search_group: "regex_search re s = Some m \<Longrightarrow> map_of (m_caps m) n = Some u \<Longrightarrow> from_group re n u"
  using regex_search_Some [of re s m] mat_caps [of "m_caps m" "m_suffix m" re "[]"] map_of_SomeD by fastforce

lemma toupper_tolower: "toupper (tolower c) = toupper c"
proof -
  have "char_of (code c) = c" by (simp add: code_def)
  then show ?thesis by (auto simp: tolower_def toupper_def)
qed

lemma upper_lower: "lower a = lower b \<Longrightarrow> upper a = upper b"
proof -
  have "upper s = upper (lower s)" for s by (simp add: upper_def lower_def toupper_tolower)
  then show "lower a = lower b \<Longrightarrow> upper a = upper b" by metis
qed

lemma rewrite_all_Inl:
  "rewrite_all re h s = Inl e \<Longrightarrow> \<exists>s' m. regex_search re s' = Some m \<and> h m = Inl e"
proof (induction re h s rule: rewrite_all.induct)
  case (1 re h s)
  show ?case
  proof (cases "regex_search re s")
    case None
    then show ?thesis using "1.prems" by (simp add: rewrite_all_none)
  next
    case (Some m)
    show ?thesis
    proof (cases "h m")
      case (Inl e')
      with Some "1.prems" show ?thesis by (auto simp: rewrite_all_error)
    next
      case (Inr t)
      with Some "1.prems" have "length (m_suffix m) < length s" "rewrite_all re h (m_suffix m) = Inl e"
        by (auto simp: rewrite_all.simps [of re h s] split: if_splits sum.splits)
      with "1.IH" [OF Some Inr] show ?thesis by blast
    qed
  qed
qed

lemma finish_Inr: "(\<And>m. \<exists>t. h m = Inr t) \<Longrightarrow> snd (finish (rewrite_all re h s)) = NoError"
  using rewrite_all_Inr [of h re s] by auto

lemma no_error_translators:
  "snd (RemoveComments s) = NoError" "snd (TranslateEnableAccessControl s) = NoError"
  "snd (TranslateCreateAccessPermission s) = NoError" "snd (TranslateCreateAccessRole s) = NoError"
  "snd (TranslateListAccessPermission s) = NoError" "snd (TranslateListAccessRoleBinding s) = NoError"
  "snd (TranslateListAccessRole s) = NoError" "snd (TranslateBindAccessRole s) = NoError"
  "snd (TranslateUnbindAccessRole s) = NoError"
  by (simp_all add: RemoveComments_def TranslateEnableAccessControl_def TranslateCreateAccessPermission_def
      TranslateListAccessRoleBinding_def TranslateBindAccessRole_def)
     (simp_all only: TranslateCreateAccessRole_def TranslateListAccessPermission_def
        TranslateListAccessRole_def TranslateUnbindAccessRole_def Let_def, (rule finish_Inr, rule exI, rule refl)+)

lemma mat_ILit_whole: "(c1, r) \<in> set (mat (ILit w) c0 (u @ r)) \<Longrightarrow> lower u = lower w"
proof -
  assume "(c1, r) \<in> set (mat (ILit w) c0 (u @ r))"
  then have *: "lower (take (length w) (u @ r)) = lower w" "drop (length w) (u @ r) = r"
    by (auto split: if_splits)
  from lower_take_eq [OF *(1)] arg_cong [OF *(2), of length] have "length w = length u" by simp
  with *(1) show ?thesis by simp
qed

lemma list_inheritance_direction:
  assumes "regex_search re_list_inheritance s = Some m" "matched (m_caps m) 2"
  shows "upper (sub (m_caps m) 2) = ''FROM'' \<or> upper (sub (m_caps m) 2) = ''TO''"
proof -
  from assms(2) obtain u where u: "map_of (m_caps m) 2 = Some u" by (auto simp: matched_def)
  have g: "(2, a) \<in> set (groups re_list_inheritance) \<Longrightarrow> a = Alt (ILit ''FROM'') (ILit ''TO'')" for a
    by (simp add: re_list_inheritance_def ws_def wd_def)
  from regex_search_group [OF assms(1) u] obtain a c0 c1 r
    where "(2, a) \<in> set (groups re_list_inheritance)" "(c1, r) \<in> set (mat a c0 (u @ r))"
    unfolding from_group_def by blast
  then have "(c1, r) \<in> set (mat (Alt (ILit ''FROM'') (ILit ''TO'')) c0 (u @ r))" using g by blast
  then have "(c1, r) \<in> set (mat (ILit ''FROM'') c0 (u @ r)) \<or> (c1, r) \<in> set (mat (ILit ''TO'') c0 (u @ r))"
    unfolding mat.simps(5) by simp
  then have "upper u = upper ''FROM'' \<or> upper u = upper ''TO''"
    using mat_ILit_whole upper_lower by blast
  moreover have "upper ''FROM'' = ''FROM''" "upper ''TO'' = ''TO''" by code_simp+
  ultimately show ?thesis by (simp add: sub_def u)
qed

lemma no_error_list_inheritance: "snd (TranslateListAccessInheritance file s) = NoError"
proof (cases "rewrite_all re_list_inheritance (list_inheritance_match file) s")
  case (Inl e)
  from rewrite_all_Inl [OF Inl] obtain s' m
    where m: "regex_search re_list_inheritance s' = Some m" "list_inheritance_match file m = Inl e" by blast
  have "Inr x = Inl e \<Longrightarrow> False" for x :: string by simp
  with m(2) have "matched (m_caps m) 2"
    "upper (sub (m_caps m) 2) \<noteq> ''FROM''" "upper (sub (m_caps m) 2) \<noteq> ''TO''"
    unfolding list_inheritance_match_def Let_def by (metis (full_types))+
  with list_inheritance_direction [OF m(1)] show ?thesis by blast
qed (simp add: TranslateListAccessInheritance_def)

lemma inheritance_match_Inl: "inheritance_match file m = Inl e \<Longrightarrow> e = inheritance_error file"
  by (auto simp: inheritance_match_def Let_def split: prod.splits if_splits)

lemma inheritance_loop_Inl:
  assumes "rewrite_all re_create_inheritance (inheritance_match file) s = Inl e"
  shows "e = inheritance_error file"
proof -
  from rewrite_all_Inl [OF assms] obtain m where "inheritance_match file m = Inl e" by blast
  then show ?thesis by (rule inheritance_match_Inl)
qed

lemma error_create_inheritance:
  "snd (TranslateCreateAccessInheritance file s) = NoError
   \<or> TranslateCreateAccessInheritance file s = ([], inheritance_error file)"
proof (cases "rewrite_all re_create_inheritance (inheritance_match file) s")
  case (Inl e)
  with inheritance_loop_Inl [OF Inl] show ?thesis by (simp add: TranslateCreateAccessInheritance_def)
qed (simp add: TranslateCreateAccessInheritance_def)

section \<open>The chain\<close>

lemma and_then_NoError: "snd t = NoError \<Longrightarrow> and_then q t f = f (fst t)"
  by (cases t) simp

lemma and_then_error:
  "snd t = NoError \<or> t = ([], e) \<Longrightarrow> Error_bool e \<Longrightarrow> and_then q t f = f (fst t) \<or> and_then q t f = (q, e)"
  by (cases t) auto

lemma Error_bool_inheritance_error: "Error_bool (inheritance_error file)"
  unfolding inheritance_error_def by simp

definition late_chain :: "string \<Rightarrow> string \<Rightarrow> string" where
  \<comment> \<open>the translators behind the only one that can fail\<close>
  "late_chain file s =
     fst (TranslateUnbindAccessRole (fst (TranslateBindAccessRole (fst (TranslateListAccessInheritance file
       (fst (TranslateListAccessRole (fst (TranslateListAccessRoleBinding
         (fst (TranslateListAccessPermission s)))))))))))"

definition early_chain :: "string \<Rightarrow> string" where
  "early_chain s =
     fst (TranslateCreateAccessRole (fst (TranslateCreateAccessPermission
       (fst (TranslateEnableAccessControl (fst (RemoveComments s)))))))"

lemma Translate_chain:
  "Translate file query =
     and_then (cstr query) (TranslateCreateAccessInheritance file (early_chain (cstr query)))
       (\<lambda>s. (late_chain file s, NoError))"
  unfolding Translate_def Let_def late_chain_def early_chain_def
  by (simp only: and_then_NoError no_error_translators no_error_list_inheritance)

lemma Translate_result:
  "snd (Translate file query) = NoError \<or> Translate file query = (cstr query, inheritance_error file)"
proof -
  let ?t = "TranslateCreateAccessInheritance file (early_chain (cstr query))"
  have "snd ?t = NoError \<or> ?t = ([], inheritance_error file)" by (rule error_create_inheritance)
  from and_then_error [OF this Error_bool_inheritance_error] show ?thesis
    unfolding Translate_chain by (metis snd_conv)
qed

section \<open>Queries the chain leaves alone\<close>

lemma needs_access:
  "needs re_enable ''ACCESS''" "needs re_create_permission ''ACCESS''" "needs re_create_role ''ACCESS''"
  "needs re_create_inheritance ''ACCESS''" "needs re_list_permission ''ACCESS''" "needs re_list_role ''ACCESS''"
  "needs re_list_inheritance ''ACCESS''" "needs re_bind_role ''ACCESS''" "needs re_unbind_role ''ACCESS''"
  "needs re_list_binding ''ACCESS''"
  by (simp_all add: re_enable_def re_create_permission_def re_create_role_def re_create_inheritance_def
      re_list_permission_def re_list_role_def re_list_inheritance_def re_bind_role_def re_unbind_role_def
      re_list_binding_def)

lemma search_Alt_none:
  assumes "needs a w" "needs b v" "\<not> icontains s w" "\<not> icontains s v"
  shows "regex_search (Alt a b) s = None"
proof (rule ccontr)
  assume "regex_search (Alt a b) s \<noteq> None"
  then obtain m where "regex_search (Alt a b) s = Some m" by blast
  from regex_search_Some [OF this] mat_needs [OF assms(1)] mat_needs [OF assms(2)]
  have "icontains (m_str m @ m_suffix m) w \<or> icontains (m_str m @ m_suffix m) v"
    and "s = m_prefix m @ (m_str m @ m_suffix m)" by auto
  with assms(3,4) icontains_prepend show False by metis
qed

lemma RemoveComments_none:
  "\<not> icontains s ''--'' \<Longrightarrow> \<not> icontains s ''/*'' \<Longrightarrow> RemoveComments s = (s, NoError)"
  unfolding RemoveComments_def regex_replace_def re_comment_def
  by (subst rewrite_all_none [OF search_Alt_none [where w = "''--''" and v = "''/*''"]]) simp_all

lemma translators_none:
  assumes "\<not> icontains s ''ACCESS''"
  shows "TranslateEnableAccessControl s = (s, NoError)" "TranslateCreateAccessPermission s = (s, NoError)"
    "TranslateCreateAccessRole s = (s, NoError)" "TranslateCreateAccessInheritance file s = (s, NoError)"
    "TranslateListAccessPermission s = (s, NoError)" "TranslateListAccessRoleBinding s = (s, NoError)"
    "TranslateListAccessRole s = (s, NoError)" "TranslateListAccessInheritance file s = (s, NoError)"
    "TranslateBindAccessRole s = (s, NoError)" "TranslateUnbindAccessRole s = (s, NoError)"
  unfolding TranslateEnableAccessControl_def TranslateCreateAccessPermission_def TranslateCreateAccessRole_def
    TranslateCreateAccessInheritance_def TranslateListAccessPermission_def TranslateListAccessRoleBinding_def
    TranslateListAccessRole_def TranslateListAccessInheritance_def TranslateBindAccessRole_def
    TranslateUnbindAccessRole_def
  by (simp_all only: needs_access [THEN regex_replace_needs, OF assms]
      needs_access [THEN rewrite_all_needs, OF assms] finish.simps)

lemma Translate_none:
  assumes "NUL \<notin> set q" "\<not> icontains q ''ACCESS''" "\<not> icontains q ''--''" "\<not> icontains q ''/*''"
  shows "Translate file q = (q, NoError)"
  unfolding Translate_chain early_chain_def late_chain_def
  by (simp only: cstr_no_NUL [OF assms(1)] RemoveComments_none [OF assms(3,4)] fst_conv snd_conv
      translators_none [OF assms(2)] and_then_NoError)

section \<open>Comments\<close>

lemma re_comment_skip: "x \<noteq> CHR ''-'' \<Longrightarrow> x \<noteq> CHR ''/'' \<Longrightarrow> mat re_comment [] (x # s) = []"
  by (simp add: re_comment_def)

lemma regex_search_prefix:
  assumes "\<And>x s. x \<in> set p \<Longrightarrow> mat re [] (x # s) = []"
  shows "regex_search re (p @ s) = map_option (\<lambda>m. m\<lparr>m_prefix := p @ m_prefix m\<rparr>) (regex_search re s)"
  using assms
proof (induction p)
  case Nil
  then show ?case by (simp add: option.map_ident)
next
  case (Cons x p)
  then have "mat re [] (x # p @ s) = []" by simp
  from regex_search_skip [OF this] Cons show ?case by (simp add: option.map_comp o_def)
qed

lemma regex_replace_prefix:
  assumes "consumes re" "\<And>x s. x \<in> set p \<Longrightarrow> mat re [] (x # s) = []" "leads re [] (u @ r) c r"
  shows "regex_replace (p @ u @ r) re tpl = p @ format c tpl @ regex_replace r re tpl"
proof -
  have "regex_search re (p @ u @ r) = Some \<lparr>m_prefix = p, m_caps = c, m_str = u, m_suffix = r\<rparr>"
    using regex_search_prefix [of p re "u @ r"] regex_search_leads [OF assms(3)] assms(2) by simp
  from rewrite_all_step [OF assms(1) this, where h = "\<lambda>m. Inr (format (m_caps m) tpl) :: unit + string"]
    regex_replace_Inr [of re tpl r] show ?thesis
    unfolding regex_replace_def by auto
qed

lemma RemoveComments_line:
  assumes "list_all (\<lambda>x. x \<noteq> CHR ''-'' \<and> x \<noteq> CHR ''/'') p" "list_all (in_cc (CNot [CHR 0x0D, CHR 0x0A])) c"
    "r = [] \<or> hd r = CHR 0x0D \<or> hd r = CHR 0x0A"
  shows "fst (RemoveComments (p @ ''--'' @ c @ r)) = p @ fst (RemoveComments r)"
proof -
  have "\<not> starts (in_cc (CNot [CHR 0x0D, CHR 0x0A])) r" using assms(3) by (auto simp: starts_def)
  from leads_Seq [OF leads_Lit leads_Star_Cls [OF assms(2) this], of "''--''"]
  have "leads (Seq (Lit ''--'') (Star (Cls (CNot [CHR 0x0D, CHR 0x0A])))) [] ((''--'' @ c) @ r) [] r" by simp
  from leads_Alt1 [OF leads_Grp [OF this, of 1]]
  have "leads re_comment [] ((''--'' @ c) @ r) [(1, ''--'' @ c)] r" unfolding re_comment_def .
  from regex_replace_prefix [OF _ _ this, of p "[]"] assms(1) show ?thesis
    by (auto simp: RemoveComments_def re_comment_skip list_all_iff)
qed

section \<open>Quoting a list of names\<close>

definition quoted_names :: "string \<Rightarrow> (string \<times> string) list \<Rightarrow> string" where
  \<comment> \<open>every name of a list in single quotes, the separators as they were\<close>
  "quoted_names w vs = quoted w @ concat (map (\<lambda>(sp, v). '','' @ sp @ quoted v) vs)"

lemma leads_first_word:
  "word w \<Longrightarrow> names_ok vs \<Longrightarrow> leads (Grp 1 wd) [] (w @ names_tail vs) [(1, w)] (names_tail vs)"
  using names_tail_not_word [of "[]" vs] by (intro leads_Grp leads_wd) simp_all

lemma mat_Grp_stop: "mat a c s = [] \<Longrightarrow> mat (Grp n a) c s = []"
  by simp

lemma wd_skip: "\<not> is_word x \<Longrightarrow> mat (Grp 1 wd) [] (x # s) = []"
  by (intro mat_Grp_stop mat_wd_stop) simp

lemma format_quoted_word: "format [(1, w)] (quoted ''$1'') = quoted w"
proof -
  have "format [(1, w)] (quoted ''$1'' @ []) = quoted w @ format [(1, w)] []"
    unfolding format_quoted by (simp add: sub_def)
  then show ?thesis by simp
qed

lemma quote_words_tail:
  "names_ok vs \<Longrightarrow> quote_words (names_tail vs) = concat (map (\<lambda>(sp, v). '','' @ sp @ quoted v) vs)"
proof (induction vs)
  case Nil
  have "regex_search (Grp 1 wd) [] = None"
    by (simp add: regex_search.simps [of _ "[]"] mat_Grp_stop mat_wd_stop)
  then show ?case by (simp add: quote_words_def regex_replace_def rewrite_all_none)
next
  case (Cons v vs)
  obtain sp w where v: "v = (sp, w)" by fastforce
  have skip: "x \<in> set ('','' @ sp) \<Longrightarrow> mat (Grp 1 wd) [] (x # s) = []" for x s
    using Cons.prems v word_not_space by (intro wd_skip) (auto simp: list_all_iff)
  have ok: "word w" "names_ok vs" using Cons.prems v by simp_all
  from regex_replace_prefix [where p = "'','' @ sp" and tpl = "quoted ''$1''", OF _ skip leads_first_word [OF ok]]
  have "quote_words (('','' @ sp) @ w @ names_tail vs) = ('','' @ sp) @ quoted w @ quote_words (names_tail vs)"
    unfolding quote_words_def format_quoted_word by simp
  then show ?case using Cons.IH [OF ok(2)] v by simp
qed

lemma quote_words_names:
  assumes "word w" "names_ok vs"
  shows "quote_words (w @ names_tail vs) = quoted_names w vs"
proof -
  have "quote_words (w @ names_tail vs) = quoted w @ quote_words (names_tail vs)"
    using regex_replace_leads [OF _ leads_first_word [OF assms], of "quoted ''$1''"]
    unfolding quote_words_def format_quoted_word by simp
  then show ?thesis using quote_words_tail [OF assms(2)] by (simp add: quoted_names_def)
qed

definition lower_names :: "(string \<times> string) list \<Rightarrow> (string \<times> string) list" where
  "lower_names vs = map (\<lambda>(sp, w). (sp, lower w)) vs"

lemma lower_append: "lower (a @ b) = lower a @ lower b"
  by (simp add: lower_def)

lemma tolower_space: "is_space c \<Longrightarrow> tolower c = c"
  by (auto simp: is_space_def tolower_def)

lemma lower_spaces: "list_all is_space sp \<Longrightarrow> lower sp = sp"
  unfolding lower_def by (rule map_idI) (auto simp: list_all_iff tolower_space)

lemma word_lower: "word (lower w) = word w"
  by (auto simp: word_def lower_def list_all_iff is_word_tolower)

lemma lower_names_tail: "names_ok vs \<Longrightarrow> lower (names_tail vs) = names_tail (lower_names vs)"
proof (induction vs)
  case (Cons v vs)
  have "tolower (CHR '','') = CHR '',''" by code_simp
  with Cons show ?case
    by (cases v) (use lower_spaces in \<open>auto simp: lower_names_def lower_def\<close>)
qed (simp add: lower_names_def)

lemma lower_names_ok: "names_ok vs \<Longrightarrow> names_ok (lower_names vs)"
  by (auto simp: names_ok_def lower_names_def word_lower)

fun begins :: "string \<Rightarrow> string \<Rightarrow> bool" where
  "begins [] s = True"
| "begins (x # w) [] = False"
| "begins (x # w) (y # s) = (x = y \<and> begins w s)"

fun finds :: "string \<Rightarrow> string \<Rightarrow> bool" where
  "finds w [] = (w = [])"
| "finds w (x # s) = (begins w (x # s) \<or> finds w s)"

lemma begins_iff: "begins w s \<longleftrightarrow> (\<exists>r. s = w @ r)"
  by (induction w s rule: begins.induct) auto

lemma finds_iff: "finds w s \<longleftrightarrow> (\<exists>p r. s = p @ w @ r)"
proof (induction s)
  case (Cons x s)
  have "(\<exists>p r. x # s = p @ w @ r) \<longleftrightarrow> (\<exists>r. x # s = w @ r) \<or> (\<exists>p r. s = p @ w @ r)"
    by (metis append_Cons append_Nil list.exhaust list.inject)
  with Cons show ?case by (simp add: begins_iff)
qed simp

lemma icontains_finds: "icontains s w \<longleftrightarrow> finds (lower w) (lower s)"
proof
  show "icontains s w \<Longrightarrow> finds (lower w) (lower s)"
    unfolding icontains_def finds_iff by (metis lower_append)
  assume "finds (lower w) (lower s)"
  then obtain p r where "lower s = p @ lower w @ r" unfolding finds_iff by blast
  then obtain p' m r' where "s = p' @ m @ r'" "lower m = lower w"
    unfolding lower_def by (metis append_eq_map_conv)
  then show "icontains s w" unfolding icontains_def by blast
qed

section \<open>What the statements become\<close>

text \<open>\<open>ENABLE ACCESS CONTROL t\<close>, its keywords in any case and separated by any white space, becomes the
  SQL that creates the table, trigger, view and grants of the relation \<open>t\<close>; the text behind it is
  translated in turn.\<close>
theorem enable_statement:
  assumes "kw k1 ''ENABLE''" "spaces s1" "kw k2 ''ACCESS''" "spaces s2" "kw k3 ''CONTROL''" "spaces s3"
    "word t" "\<not> starts is_word r"
  shows "fst (TranslateEnableAccessControl (k1 @ s1 @ k2 @ s2 @ k3 @ s3 @ t @ r))
       = sql_enable t @ fst (TranslateEnableAccessControl r)"
  using regex_replace_leads [of re_enable "k1 @ s1 @ k2 @ s2 @ k3 @ s3 @ t" r "[(1, t)]" tpl_enable]
    leads_enable [OF assms]
  unfolding TranslateEnableAccessControl_def fst_conv format_enable by simp

lemma enable_statement_witness:
  "fst (TranslateEnableAccessControl (''Enable'' @ '' '' @ ''access'' @ ''  '' @ ''CONTROL'' @ '' '' @ ''docs'' @ '';''))
   = sql_enable ''docs'' @ fst (TranslateEnableAccessControl '';'')"
  by (rule enable_statement; code_simp)

text \<open>\<open>CREATE ACCESS ROLE n WITH p, \<dots>\<close> becomes the insertion of the role with the lower-cased name and
  the list of its permissions, each lower-cased and in single quotes, and the refresh of the expanded
  roles; the text behind the statement is translated in turn.\<close>
theorem create_role_statement:
  assumes "kw k1 ''CREATE''" "spaces s1" "kw k2 ''ACCESS''" "spaces s2" "kw k3 ''ROLE''" "spaces s3"
    "word n" "spaces s4" "kw k4 ''WITH''" "spaces s5" "word p" "names_ok ps"
    "\<not> starts is_word r" "\<not> starts (\<lambda>x. x = CHR '','') r"
  shows "fst (TranslateCreateAccessRole
           (k1 @ s1 @ k2 @ s2 @ k3 @ s3 @ n @ s4 @ k4 @ s5 @ p @ names_tail ps @ r))
       = sql_create_role (lower n) (quoted_names (lower p) (lower_names ps))
         @ fst (TranslateCreateAccessRole r)"
proof -
  let ?u = "k1 @ s1 @ k2 @ s2 @ k3 @ s3 @ n @ s4 @ k4 @ s5 @ p @ names_tail ps"
  let ?h = "\<lambda>m. let r = lower (sub (m_caps m) 1); p = quote_words (lower (sub (m_caps m) 2))
             in Inr (sql_create_role r p) :: Error + string"
  obtain v where v: "rewrite_all re_create_role ?h r = Inr v"
    using rewrite_all_Inr [of ?h re_create_role r] by (auto simp: Let_def)
  have "leads re_create_role [] (?u @ r) ((2, p @ names_tail ps) # names_caps 3 ps [(1, n)]) r"
    using leads_create_role [OF assms] by simp
  note step = rewrite_all_leads [OF _ this, of ?h]
  have "quote_words (lower (p @ names_tail ps)) = quoted_names (lower p) (lower_names ps)"
    using assms(11,12) by (simp add: lower_append lower_names_tail quote_words_names word_lower lower_names_ok)
  with step v show ?thesis
    unfolding TranslateCreateAccessRole_def by (simp add: sub_def map_of_names_caps Let_def)
qed

lemma create_role_statement_witness:
  "fst (TranslateCreateAccessRole
     (''create'' @ '' '' @ ''access'' @ '' '' @ ''role'' @ '' '' @ ''Editor'' @ '' '' @ ''with'' @ '' ''
      @ ''Doc_Read'' @ names_tail [('' '', ''doc_edit'')] @ '';''))
   = sql_create_role (lower ''Editor'') (quoted_names (lower ''Doc_Read'') (lower_names [('' '', ''doc_edit'')]))
     @ fst (TranslateCreateAccessRole '';'')"
  by (rule create_role_statement; code_simp)

lemma inheritance_statement:
  assumes "kw k1 ''CREATE''" "spaces s1" "kw k2 ''ACCESS''" "spaces s2" "kw k3 ''INHERITANCE''" "spaces s3"
    "kw k4 ''FROM''" "spaces s4" "word f" "list_all is_space s5" "word fc" "names_ok fcs" "spaces s6"
    "kw k5 ''TO''" "spaces s7" "word t" "list_all is_space s8" "word tc" "names_ok tcs"
  shows "TranslateCreateAccessInheritance file
     (k1 @ s1 @ k2 @ s2 @ k3 @ s3 @ k4 @ s4 @ f @ s5 @ ''('' @ fc @ names_tail fcs @ '')'' @ s6
      @ k5 @ s7 @ t @ s8 @ ''('' @ tc @ names_tail tcs @ '')'' @ r)
   = (if length fcs \<noteq> length tcs then ([], inheritance_error file)
      else and_then [] (TranslateCreateAccessInheritance file r) (\<lambda>rest.
             (sql_inheritance f t (join_conds True (zip (columns fc fcs) (columns tc tcs))) @ rest, NoError)))"
proof -
  let ?u = "k1 @ s1 @ k2 @ s2 @ k3 @ s3 @ k4 @ s4 @ f @ s5 @ ''('' @ fc @ names_tail fcs @ '')'' @ s6
      @ k5 @ s7 @ t @ s8 @ ''('' @ tc @ names_tail tcs @ '')''"
  let ?c = "(5, tc @ names_tail tcs) # names_caps 6 tcs ((4, t) # (2, fc @ names_tail fcs) # names_caps 3 fcs [(1, f)])"
  let ?m = "\<lparr>m_prefix = [], m_caps = ?c, m_str = ?u, m_suffix = r\<rparr>"
  have subs: "sub ?c 1 = f" "sub ?c 4 = t" "sub ?c 2 = fc @ names_tail fcs" "sub ?c 5 = tc @ names_tail tcs"
    by (simp_all add: sub_def map_of_names_caps)
  have m: "inheritance_match file ?m =
      (if length fcs \<noteq> length tcs then Inl (inheritance_error file)
       else Inr (sql_inheritance f t (join_conds True (zip (columns fc fcs) (columns tc tcs)))))"
    unfolding inheritance_match_def Let_def smatch.simps subs pair_columns_names [OF assms(11,12,18,19)] by auto
  have "leads re_create_inheritance [] (?u @ r) ?c r"
    using leads_create_inheritance [OF assms] by simp
  note step = rewrite_all_leads [OF consumes_patterns(5) this, of "inheritance_match file", unfolded m]
  have error: "rewrite_all re_create_inheritance (inheritance_match file) r = Inl e \<Longrightarrow> Error_bool e" for e
    by (drule inheritance_loop_Inl) (simp only: Error_bool_inheritance_error)
  have fin: "finish (case (if b then Inl e else Inr t) of
          Inl e \<Rightarrow> Inl e | Inr t \<Rightarrow> (case R of Inl e \<Rightarrow> Inl e | Inr v \<Rightarrow> Inr (t @ v)))
      = (if b then ([], e) else and_then [] (finish R) (\<lambda>rest. (t @ rest, NoError)))"
    if "\<And>e. R = Inl e \<Longrightarrow> Error_bool e" for b e t R
    using that by (cases R) auto
  have "TranslateCreateAccessInheritance file (?u @ r) = (if length fcs \<noteq> length tcs then ([], inheritance_error file)
      else and_then [] (TranslateCreateAccessInheritance file r) (\<lambda>rest.
             (sql_inheritance f t (join_conds True (zip (columns fc fcs) (columns tc tcs))) @ rest, NoError)))"
    unfolding TranslateCreateAccessInheritance_def step by (rule fin [OF error])
  then show ?thesis unfolding append.assoc .
qed

lemma early_chain_inheritance:
  assumes "\<not> icontains s ''--''" "\<not> icontains s ''/*''" "\<not> icontains s ''ENABLE''"
    "\<not> icontains s ''PERMISSION''" "\<not> icontains s ''ROLE''"
  shows "early_chain s = s"
proof -
  have n: "needs re_enable ''ENABLE''" "needs re_create_permission ''PERMISSION''" "needs re_create_role ''ROLE''"
    by (simp_all add: re_enable_def re_create_permission_def re_create_role_def)
  have "TranslateEnableAccessControl s = (s, NoError)" "TranslateCreateAccessPermission s = (s, NoError)"
    "TranslateCreateAccessRole s = (s, NoError)"
    unfolding TranslateEnableAccessControl_def TranslateCreateAccessPermission_def TranslateCreateAccessRole_def
    by (simp_all only: regex_replace_needs [OF n(1) assms(3)] regex_replace_needs [OF n(2) assms(4)]
        rewrite_all_needs [OF n(3) assms(5)] finish.simps)
  then show ?thesis unfolding early_chain_def by (simp only: RemoveComments_none [OF assms(1,2)] fst_conv)
qed

lemma inheritance_fails:
  assumes "NUL \<notin> set s" "early_chain s = s" "TranslateCreateAccessInheritance file s = ([], inheritance_error file)"
  shows "Translate file s = (s, inheritance_error file)"
  unfolding Translate_chain cstr_no_NUL [OF assms(1)] assms(2,3)
  by (simp only: and_then.simps Error_bool_inheritance_error if_True)

text \<open>\<open>CREATE ACCESS INHERITANCE FROM f (fc, \<dots>) TO t (tc, \<dots>)\<close>: lists of different lengths are an error
  and no text; lists of one length become the inheritance whose source query compares the columns
  pairwise, the first pair behind \<open>WHERE\<close> and the others behind \<open>AND\<close>, and the text behind the statement
  is translated in turn.\<close>
theorem create_inheritance_statement:
  assumes "kw k1 ''CREATE''" "spaces s1" "kw k2 ''ACCESS''" "spaces s2" "kw k3 ''INHERITANCE''" "spaces s3"
    "kw k4 ''FROM''" "spaces s4" "word f" "list_all is_space s5" "word fc" "names_ok fcs" "spaces s6"
    "kw k5 ''TO''" "spaces s7" "word t" "list_all is_space s8" "word tc" "names_ok tcs"
  shows "TranslateCreateAccessInheritance file
     (k1 @ s1 @ k2 @ s2 @ k3 @ s3 @ k4 @ s4 @ f @ s5 @ ''('' @ fc @ names_tail fcs @ '')'' @ s6
      @ k5 @ s7 @ t @ s8 @ ''('' @ tc @ names_tail tcs @ '')'' @ r)
   = (if length fcs \<noteq> length tcs then ([], inheritance_error file)
      else and_then [] (TranslateCreateAccessInheritance file r) (\<lambda>rest.
             (sql_inheritance f t (join_conds True (zip (columns fc fcs) (columns tc tcs))) @ rest, NoError)))"
  using assms by (rule inheritance_statement)

lemma create_inheritance_statement_witness:
  "TranslateCreateAccessInheritance ''f.cpp''
     (''CREATE'' @ '' '' @ ''ACCESS'' @ '' '' @ ''INHERITANCE'' @ '' '' @ ''FROM'' @ '' '' @ ''dir'' @ [] @ ''(''
      @ ''id'' @ names_tail [] @ '')'' @ '' '' @ ''TO'' @ '' '' @ ''doc'' @ [] @ ''('' @ ''d1''
      @ names_tail [('' '', ''d2'')] @ '')'' @ [])
   = ([], inheritance_error ''f.cpp'')"
  by (subst create_inheritance_statement; code_simp)

text \<open>\<open>BIND ACCESS ROLE n TO p ON t (ids)\<close> becomes the insertion of a binding reference for the ids the
  argument selects and of one binding per id; the argument is everything from its parenthesis to the
  last closing one before a semicolon, and what stands behind it is translated in turn.\<close>
theorem bind_role_statement:
  assumes "kw k1 ''BIND''" "spaces s1" "kw k2 ''ACCESS''" "spaces s2" "kw k3 ''ROLE''" "spaces s3"
    "word n" "spaces s4" "kw k4 ''TO''" "spaces s5"
    "pr \<noteq> []" "list_all (in_cc (CWordOr ''@'')) pr" "spaces s6" "kw k5 ''ON''" "spaces s7"
    "word t" "list_all is_space s8" "q \<noteq> []" "list_all (\<lambda>x. x \<noteq> CHR '';'') q"
    "list_all (\<lambda>x. x \<noteq> CHR '';'' \<and> x \<noteq> CHR '')'') u" "v = [] \<or> hd v = CHR '';''"
  shows "fst (TranslateBindAccessRole
     (k1 @ s1 @ k2 @ s2 @ k3 @ s3 @ n @ s4 @ k4 @ s5 @ pr @ s6 @ k5 @ s7 @ t @ s8 @ ''('' @ q @ '')'' @ u @ v))
   = sql_bind n pr t q @ fst (TranslateBindAccessRole (u @ v))"
proof -
  let ?u = "k1 @ s1 @ k2 @ s2 @ k3 @ s3 @ n @ s4 @ k4 @ s5 @ pr @ s6 @ k5 @ s7 @ t @ s8 @ ''('' @ q @ '')''"
  have "leads re_bind_role [] (?u @ u @ v) [(4, q), (3, t), (2, pr), (1, n)] (u @ v)"
    using leads_bind_role [OF assms] by (simp only: append.assoc)
  from regex_replace_leads [OF consumes_patterns(9) this, of tpl_bind_role] show ?thesis
    unfolding TranslateBindAccessRole_def fst_conv format_bind append.assoc .
qed

lemma bind_role_statement_witness:
  "fst (TranslateBindAccessRole
     (''BIND'' @ '' '' @ ''ACCESS'' @ '' '' @ ''ROLE'' @ '' '' @ ''editor'' @ '' '' @ ''TO'' @ '' '' @ ''ann@x'' @ '' ''
      @ ''ON'' @ '' '' @ ''docs'' @ '' '' @ ''('' @ ''SELECT (1)'' @ '')'' @ '' '' @ '';''))
   = sql_bind ''editor'' ''ann@x'' ''docs'' ''SELECT (1)'' @ fst (TranslateBindAccessRole ('' '' @ '';''))"
  by (rule bind_role_statement; code_simp)

text \<open>The chain of translators either translates the whole query or fails with one error, the mismatch of
  the column lists of an inheritance, and then returns the query as it came.\<close>
theorem Translate_outcome:
  "snd (Translate file query) = NoError \<or> Translate file query = (cstr query, inheritance_error file)"
  by (rule Translate_result)

text \<open>A query with no NUL, in which the word ACCESS does not occur in any case and no comment can start,
  goes through all the translators unchanged.\<close>
theorem Translate_plain:
  assumes "NUL \<notin> set q" "\<not> icontains q ''ACCESS''" "\<not> icontains q ''--''" "\<not> icontains q ''/*''"
  shows "Translate file q = (q, NoError)"
  using assms by (rule Translate_none)

lemma Translate_plain_witness: "Translate ''f.cpp'' ''SELECT 1'' = (''SELECT 1'', NoError)"
  by (rule Translate_plain; (subst icontains_finds)?, code_simp)

text \<open>Everything from \<open>--\<close> to the end of the line is removed, whatever stands before it: the scan knows
  no string literals, so a literal that contains two dashes loses its end and its closing quote.\<close>
theorem line_comment_removed:
  assumes "list_all (\<lambda>x. x \<noteq> CHR ''-'' \<and> x \<noteq> CHR ''/'') p" "list_all (in_cc (CNot [CHR 0x0D, CHR 0x0A])) c"
    "r = [] \<or> hd r = CHR 0x0D \<or> hd r = CHR 0x0A"
  shows "fst (RemoveComments (p @ ''--'' @ c @ r)) = p @ fst (RemoveComments r)"
  using assms by (rule RemoveComments_line)

lemma line_comment_removed_witness:
  "fst (RemoveComments ((''SELECT '' @ [SQ]) @ ''--'' @ ([SQ] @ '', secret FROM t'') @ []))
   = (''SELECT '' @ [SQ]) @ fst (RemoveComments [])"
  by (rule line_comment_removed; code_simp)

end
