(* ===== verification/SessionProps.thy ===== *)
theory SessionProps
  imports SessionSafety Commands
begin

text \<open>
  What a session does with a request and its response, and the places where it fails.
\<close>

section \<open>One request through the plug-ins\<close>

definition query_request :: "string \<Rightarrow> Session \<Rightarrow> bool" where
  \<comment> \<open>the request is a simple query with this text\<close>
  "query_request text s \<longleftrightarrow> byte_at (buf (request_of s)) 0 = Ret (CHR ''Q'') \<and> cstr_at (buf (request_of s)) 5 = Ret text"

lemma query_request_SetQuery [simp]: "query_request (cstr q) (set_request (SetQuery b q) s)"
  unfolding query_request_def by (simp add: SetQuery_text) (simp add: SetQuery_def Let_def)

lemma query_request_frame [simp]:
  "query_request t (set_query q s) = query_request t s"
  "query_request t (s\<lparr>parameters := ps\<rparr>) = query_request t s"
  by (simp_all add: query_request_def)

lemma translate_plugin:
  assumes "query_request text s" "Translate (e_proxy_file env) text = (t, e)"
  shows "TranslateProxyCommandPlugIn env s =
    (if Error_bool e then (s, Ret e) else (set_request (SetQuery (request_of s) t) s, Ret NoError))"
  using assms by (auto simp: TranslateProxyCommandPlugIn_def query_request_def)

lemma parse_plugin:
  assumes "query_request text s" "Parse (e_pg_parse env) text = Ret (q, e)"
  shows "ParseQueryPlugIn env s = (set_query q s, Ret NoError)"
  using assms by (simp add: ParseQueryPlugIn_def query_request_def)

lemma acl_plugin_skip:
  "smap_get (parameters s) ''rolsuper'' = ''t'' \<or> \<not> Query_bool (c_query (ctx s)) \<Longrightarrow>
     AclQueryPlugIn env s = (s\<lparr>parameters := smap_touch (parameters s) ''rolsuper''\<rparr>, Ret NoError)"
  by (auto simp: AclQueryPlugIn_def Let_def)

lemma acl_plugin:
  assumes "smap_get (parameters s) ''rolsuper'' \<noteq> ''t''" "Query_bool (c_query (ctx s))"
    "Acl (e_expand env) (st s) (c_query (ctx s)) = Ret q" "e_pg_deparse env (q_json q) = Some sql"
  shows "AclQueryPlugIn env s =
    (set_request (SetQuery (request_of s) (cstr sql))
       (set_query q (s\<lparr>parameters := smap_touch (parameters s) ''rolsuper''\<rparr>)), Ret NoError)"
  using assms by (simp add: AclQueryPlugIn_def Let_def ToString_def)

lemma drop_plugin_none:
  "\<not> Query_bool (c_query (ctx s)) \<or> ''DropStmt'' \<notin> set (keys_of (query_json s)) \<Longrightarrow>
     DropTablePlugIn env s = (s, Ret NoError)"
  by (auto simp: DropTablePlugIn_def FindNode_None(1) [symmetric] split: option.split)

lemma ensure_plugin_none:
  "\<not> Query_bool (c_query (ctx s)) \<or> ''CreateStmt'' \<notin> set (keys_of (query_json s)) \<Longrightarrow>
     EnsureNewTableHasIdPlugIn env s = (s, Ret NoError)"
  by (auto simp: EnsureNewTableHasIdPlugIn_def FindNode_None(1) [symmetric] split: option.split)

lemmas later_plugins = drop_plugin_none ensure_plugin_none RestrictInternalTableAccessPlugIn_def

lemma session_simps [simp]:
  "c_query (ctx (set_request b s)) = c_query (ctx s)" "c_query (ctx (set_query q s)) = q"
  "query_json (set_request b s) = query_json s" "query_json (set_query q s) = q_json q"
  "parameters (set_request b s) = parameters s" "parameters (set_query q s) = parameters s"
  "st (set_request b s) = st s" "st (set_query q s) = st s"
  "ctx (s\<lparr>parameters := ps\<rparr>) = ctx s" "query_json (s\<lparr>parameters := ps\<rparr>) = query_json s"
  by (simp_all add: set_request_def set_query_def query_json_def)

lemma pre_request_steps:
  assumes "query_request text s" "Translate (e_proxy_file env) text = (t, NoError)"
    "Parse (e_pg_parse env) (cstr t) = Ret (q, e)"
  shows "apply_pre pre_request_plugins env s =
    apply_pre [AclQueryPlugIn, DropTablePlugIn, EnsureNewTableHasIdPlugIn, RestrictInternalTableAccessPlugIn] env
      (set_query q (set_request (SetQuery (request_of s) t) s))"
  using translate_plugin [OF assms(1,2)] parse_plugin [OF query_request_SetQuery assms(3)]
  by (simp add: pre_request_plugins_def)

lemma SetQuery_any: "SetQuery b q = SetQuery Buffer_new q"
  by (simp add: SetQuery_def Let_def)

lemma SetQuery_cstr: "SetQuery b (cstr q) = SetQuery b q"
  by (simp add: SetQuery_def Let_def)

lemma apply_pre_act:
  "apply_pre pre_request_plugins env s = (s', Ret e) \<Longrightarrow> \<not> Error_bool e \<Longrightarrow>
     ApplyPreRequestPlugins env s = Ret (Some PREPARE_TO_FORWARD_REQUEST, s')"
  by (simp add: ApplyPreRequestPlugins_def)

lemma guarded_steps:
  assumes "query_request text s" "Translate (e_proxy_file env) text = (t, NoError)"
    "e_pg_parse env (cstr t) = Inr (Ret j)" "smap_get (parameters s) ''rolsuper'' \<noteq> ''t''"
    "Acl_json (e_expand env) (st s) j = Ret j'" "e_pg_deparse env j' = Some sql"
    "''DropStmt'' \<notin> set (keys_of j')" "''CreateStmt'' \<notin> set (keys_of j')"
  shows "\<exists>s'. ApplyPreRequestPlugins env s = Ret (Some PREPARE_TO_FORWARD_REQUEST, s')
     \<and> request_of s' = SetQuery Buffer_new sql \<and> query_json s' = j' \<and> frame s s'"
proof -
  let ?q = "\<lparr>q_valid = True, q_json = j\<rparr>"
  let ?s1 = "set_query ?q (set_request (SetQuery (request_of s) t) s)"
  let ?s2 = "set_request (SetQuery (SetQuery (request_of s) t) (cstr sql))
       (set_query (?q\<lparr>q_json := j'\<rparr>) (?s1\<lparr>parameters := smap_touch (parameters s) ''rolsuper''\<rparr>))"
  have "Parse (e_pg_parse env) (cstr t) = Ret (?q, NoError)" using assms(3) by (simp add: Parse_def)
  note steps = pre_request_steps [OF assms(1,2) this]
  have "AclQueryPlugIn env ?s1 = (?s2, Ret NoError)"
    using acl_plugin [of ?s1 env "?q\<lparr>q_json := j'\<rparr>" sql] assms by (simp add: Query_bool_def Acl_def)
  moreover have "DropTablePlugIn env ?s2 = (?s2, Ret NoError)" "EnsureNewTableHasIdPlugIn env ?s2 = (?s2, Ret NoError)"
    using assms(7,8) by (simp_all add: drop_plugin_none ensure_plugin_none)
  ultimately have "apply_pre pre_request_plugins env s = (?s2, Ret NoError)"
    unfolding steps by (simp add: RestrictInternalTableAccessPlugIn_def)
  from apply_pre_act [OF this] have "ApplyPreRequestPlugins env s = Ret (Some PREPARE_TO_FORWARD_REQUEST, ?s2)" by simp
  moreover have "request_of ?s2 = SetQuery Buffer_new sql" by (simp add: SetQuery_cstr) (rule SetQuery_any)
  ultimately show ?thesis by (intro exI [of _ ?s2]) simp
qed


text \<open>C16. A simple query that the parser rejects is sent on as it was translated, without any rewriting and
  whoever sent it: the error of the parser is dropped.\<close>
theorem unparsed_forwarded:
  assumes "query_request text s" "Translate (e_proxy_file env) text = (t, NoError)"
    "e_pg_parse env (cstr t) = Inl err"
  shows "\<exists>s'. ApplyPreRequestPlugins env s = Ret (Some PREPARE_TO_FORWARD_REQUEST, s')
     \<and> request_of s' = SetQuery Buffer_new t \<and> \<not> Query_bool (c_query (ctx s'))"
proof -
  let ?s1 = "set_query Query_new (set_request (SetQuery (request_of s) t) s)"
  let ?s2 = "?s1\<lparr>parameters := smap_touch (parameters s) ''rolsuper''\<rparr>"
  have "Parse (e_pg_parse env) (cstr t) = Ret (Query_new, parse_error err)" using assms(3) by (simp add: Parse_def)
  note steps = pre_request_steps [OF assms(1,2) this]
  have "AclQueryPlugIn env ?s1 = (?s2, Ret NoError)" by (simp add: acl_plugin_skip)
  then have "apply_pre pre_request_plugins env s = (?s2, Ret NoError)"
    unfolding steps by (simp add: RestrictInternalTableAccessPlugIn_def drop_plugin_none ensure_plugin_none)
  from apply_pre_act [OF this] have "ApplyPreRequestPlugins env s = Ret (Some PREPARE_TO_FORWARD_REQUEST, ?s2)" by simp
  moreover have "request_of ?s2 = SetQuery Buffer_new t" by simp (rule SetQuery_any)
  ultimately show ?thesis by (intro exI [of _ ?s2]) simp
qed

lemma other_message_passes:
  assumes "byte_at (buf (request_of s)) 0 = Ret c" "c \<noteq> CHR ''Q''" "\<not> Query_bool (c_query (ctx s))"
  shows "ApplyPreRequestPlugins env s
    = Ret (Some PREPARE_TO_FORWARD_REQUEST, s\<lparr>parameters := smap_touch (parameters s) ''rolsuper''\<rparr>)"
proof -
  let ?s2 = "s\<lparr>parameters := smap_touch (parameters s) ''rolsuper''\<rparr>"
  have "TranslateProxyCommandPlugIn env s = (s, Ret NoError)" "ParseQueryPlugIn env s = (s, Ret NoError)"
    using assms by (simp_all add: TranslateProxyCommandPlugIn_def ParseQueryPlugIn_def)
  moreover have "AclQueryPlugIn env s = (?s2, Ret NoError)" using assms(3) by (simp add: acl_plugin_skip)
  ultimately have "apply_pre pre_request_plugins env s = (?s2, Ret NoError)"
    using assms(3)
    by (simp add: pre_request_plugins_def RestrictInternalTableAccessPlugIn_def drop_plugin_none ensure_plugin_none)
  from apply_pre_act [OF this] show ?thesis by simp
qed

text \<open>A message that is not a simple query, such as the Parse message of the extended protocol, is sent on
  untouched: no plug-in looks into it.\<close>
theorem other_message_forwarded:
  assumes "byte_at (buf (request_of s)) 0 = Ret c" "c \<noteq> CHR ''Q''" "\<not> Query_bool (c_query (ctx s))"
  shows "\<exists>s'. ApplyPreRequestPlugins env s = Ret (Some PREPARE_TO_FORWARD_REQUEST, s') \<and> request_of s' = request_of s"
  using other_message_passes [OF assms, of env] by simp

text \<open>A query of a superuser passes the access-control step unchanged.\<close>
theorem superuser_unrestricted:
  assumes "query_request text s" "Translate (e_proxy_file env) text = (t, NoError)"
    "e_pg_parse env (cstr t) = Inr (Ret j)" "smap_get (parameters s) ''rolsuper'' = ''t''"
    "''DropStmt'' \<notin> set (keys_of j)" "''CreateStmt'' \<notin> set (keys_of j)"
  shows "\<exists>s'. ApplyPreRequestPlugins env s = Ret (Some PREPARE_TO_FORWARD_REQUEST, s')
     \<and> request_of s' = SetQuery Buffer_new t"
proof -
  let ?q = "\<lparr>q_valid = True, q_json = j\<rparr>"
  let ?s1 = "set_query ?q (set_request (SetQuery (request_of s) t) s)"
  let ?s2 = "?s1\<lparr>parameters := smap_touch (parameters s) ''rolsuper''\<rparr>"
  have "Parse (e_pg_parse env) (cstr t) = Ret (?q, NoError)" using assms(3) by (simp add: Parse_def)
  note steps = pre_request_steps [OF assms(1,2) this]
  have "AclQueryPlugIn env ?s1 = (?s2, Ret NoError)" using assms(4) by (simp add: acl_plugin_skip)
  moreover have "DropTablePlugIn env ?s2 = (?s2, Ret NoError)" "EnsureNewTableHasIdPlugIn env ?s2 = (?s2, Ret NoError)"
    using assms(5,6) by (simp_all add: drop_plugin_none ensure_plugin_none)
  ultimately have "apply_pre pre_request_plugins env s = (?s2, Ret NoError)"
    unfolding steps by (simp add: RestrictInternalTableAccessPlugIn_def)
  from apply_pre_act [OF this] have "ApplyPreRequestPlugins env s = Ret (Some PREPARE_TO_FORWARD_REQUEST, ?s2)" by simp
  moreover have "request_of ?s2 = SetQuery Buffer_new t" by simp (rule SetQuery_any)
  ultimately show ?thesis by blast
qed

section \<open>Errors of the plug-ins\<close>

lemma inheritance_error_no_code: "\<not> Error_contains (inheritance_error file) ''C''"
  unfolding inheritance_error_def Error_contains_init by simp

text \<open>C15. The one error a proxy command can end in carries no error code, which the error response
  requires: a client that sends an inheritance with column lists of different lengths aborts the proxy.\<close>
theorem command_error_aborts:
  assumes "query_request text s" "snd (Translate (e_proxy_file env) text) \<noteq> NoError"
  shows "ApplyPreRequestPlugins env s = Crash AssertFail"
proof -
  let ?e = "inheritance_error (e_proxy_file env)"
  from assms(2) Translate_result have "Translate (e_proxy_file env) text = (cstr text, ?e)" by blast
  from translate_plugin [OF assms(1) this] Error_bool_inheritance_error
  have "apply_pre pre_request_plugins env s = (s, Ret ?e)" by (simp add: pre_request_plugins_def)
  moreover have "SetError (c_response (ctx s)) ?e = Crash AssertFail"
    using SetError_cases [of ?e] inheritance_error_no_code by simp
  ultimately show ?thesis
    by (simp add: ApplyPreRequestPlugins_def respond_error_def Error_bool_inheritance_error)
qed

text \<open>When a plug-in throws, or reports an error with severity, code and message, the request is not sent
  on: the next state answers the client.\<close>
theorem plugin_failure_not_forwarded:
  assumes "apply_pre pre_request_plugins env s = (s1, r)"
    "(\<exists>x. r = Throw x) \<or> (\<exists>e. r = Ret e \<and> Error_bool e \<and> Error_contains e ''S'' \<and> Error_contains e ''C'' \<and> Error_contains e ''M'')"
  shows "\<exists>s'. ApplyPreRequestPlugins env s = Ret (Some PREPARE_TO_FORWARD_RESPONSE, s')"
proof -
  have answer: "\<exists>s'. respond_error e s1 = Ret (Some PREPARE_TO_FORWARD_RESPONSE, s')"
    if e: "Error_contains e ''S''" "Error_contains e ''C''" "Error_contains e ''M''" for e
  proof -
    from SetError_returns [OF e] obtain b where "SetError (c_response (ctx s1)) e = Ret b" by blast
    with SetError_print [OF this] show ?thesis by (simp add: respond_error_def)
  qed
  have "Error_contains (internal_error x) k" if "k \<in> {''S'', ''C'', ''M''}" for x k
    using that unfolding internal_error_def Error_contains_init by auto
  with answer assms show ?thesis unfolding ApplyPreRequestPlugins_def by (auto split: run.splits)
qed

section \<open>A concrete session\<close>

definition sample_env :: env where
  "sample_env =
     \<lparr>e_pg_parse = \<lambda>_. Inr (Ret (sample_select (range_var None ''docs''))), e_pg_deparse = \<lambda>_. Some ''SELECT 2'',
      e_expand = \<lambda>d. Ret (join_expr d), e_proxy_file = ''p.cpp'', e_plugin_file = ''q.cpp'', e_conn = True,
      e_work = None, e_exec1 = \<lambda>_. Inr ''f'', e_exec = \<lambda>_. None, e_commit = None, e_sock = [],
      e_send = SendOk 100, e_errno = 0\<rparr>"

definition sample_session :: "smap \<Rightarrow> Buffer \<Rightarrow> Session" where
  "sample_session ps b = set_request b (Session_new 3 4 (Some [''docs'']) \<lparr>parameters := ps\<rparr>)"

lemma sample_request: "query_request ''SELECT 1'' (sample_session ps (SetQuery b ''SELECT 1''))"
  unfolding query_request_def sample_session_def request_of_simps SetQuery_text by (simp add: SetQuery_def Let_def)

lemma sample_translate: "Translate f ''SELECT 1'' = (''SELECT 1'', NoError)"
  by (rule Translate_none; (subst icontains_finds)?, code_simp)

lemma sample_session_simps [simp]:
  "parameters (sample_session ps b) = ps" "st (sample_session ps b) = Some [''docs'']"
  "request_of (sample_session ps b) = b" "c_query (ctx (sample_session ps b)) = Query_new"
  by (simp_all add: sample_session_def Session_new_def Context_new_def)

lemma sample_env_simps [simp]:
  "e_pg_parse sample_env q = Inr (Ret (sample_select (range_var None ''docs'')))"
  "e_pg_deparse sample_env j = Some ''SELECT 2''" "e_expand sample_env = (\<lambda>d. Ret (join_expr d))"
  "e_proxy_file sample_env = ''p.cpp''"
  by (simp_all add: sample_env_def)


lemma unparsed_forwarded_witness:
  "\<exists>s'. ApplyPreRequestPlugins (sample_env\<lparr>e_pg_parse := \<lambda>_. Inl \<lparr>pe_message = [], pe_funcname = [],
         pe_filename = [], pe_lineno = 1, pe_cursorpos = 1\<rparr>\<rparr>) (sample_session [] (SetQuery Buffer_new ''SELECT 1''))
       = Ret (Some PREPARE_TO_FORWARD_REQUEST, s')
     \<and> request_of s' = SetQuery Buffer_new ''SELECT 1'' \<and> \<not> Query_bool (c_query (ctx s'))"
  by (rule unparsed_forwarded [OF sample_request sample_translate]) simp

lemma other_message_forwarded_witness:
  "\<exists>s'. ApplyPreRequestPlugins sample_env (sample_session [] (sample_buffer ''P''))
       = Ret (Some PREPARE_TO_FORWARD_REQUEST, s') \<and> request_of s' = request_of (sample_session [] (sample_buffer ''P''))"
  by (rule other_message_forwarded [where c = "CHR ''P''"]) (simp_all add: sample_buffer_def)

lemma superuser_unrestricted_witness:
  "\<exists>s'. ApplyPreRequestPlugins sample_env (sample_session [(''rolsuper'', ''t'')] (SetQuery Buffer_new ''SELECT 1''))
       = Ret (Some PREPARE_TO_FORWARD_REQUEST, s') \<and> request_of s' = SetQuery Buffer_new ''SELECT 1''"
proof -
  have "''DropStmt'' \<notin> set (keys_of (sample_select (range_var None ''docs'')))"
    "''CreateStmt'' \<notin> set (keys_of (sample_select (range_var None ''docs'')))" by code_simp+
  then show ?thesis
    using superuser_unrestricted [OF sample_request sample_translate, of sample_env] by (simp add: smap_get_def)
qed

definition bad_command :: string where
  "bad_command = ''CREATE'' @ '' '' @ ''ACCESS'' @ '' '' @ ''INHERITANCE'' @ '' '' @ ''FROM'' @ '' '' @ ''dir'' @ [] @ ''(''
      @ ''id'' @ names_tail [] @ '')'' @ '' '' @ ''TO'' @ '' '' @ ''doc'' @ [] @ ''('' @ ''d1''
      @ names_tail [('' '', ''d2'')] @ '')'' @ []"

lemma bad_command_fails: "Translate f bad_command = (bad_command, inheritance_error f)"
proof (rule inheritance_fails)
  show "NUL \<notin> set bad_command" by code_simp
  show "early_chain bad_command = bad_command"
    by (rule early_chain_inheritance; subst icontains_finds; code_simp)
  show "TranslateCreateAccessInheritance f bad_command = ([], inheritance_error f)"
    unfolding bad_command_def
    by (subst inheritance_statement; code_simp)
qed

lemma command_error_aborts_witness:
  "ApplyPreRequestPlugins sample_env (sample_session [] (SetQuery Buffer_new bad_command)) = Crash AssertFail"
proof (rule command_error_aborts)
  show "query_request bad_command (sample_session [] (SetQuery Buffer_new bad_command))"
    unfolding query_request_def request_of_simps sample_session_simps SetQuery_text
    by (simp add: SetQuery_def Let_def bad_command_def)
  show "snd (Translate (e_proxy_file sample_env) bad_command) \<noteq> NoError"
    unfolding bad_command_fails snd_conv using Error_bool_inheritance_error Error_bool_simps(1) by metis
qed

lemma plugin_failure_not_forwarded_witness:
  "\<exists>s'. ApplyPreRequestPlugins (sample_env\<lparr>e_expand := \<lambda>_. Throw type_error\<rparr>) (sample_session [] (SetQuery Buffer_new ''SELECT 1''))
       = Ret (Some PREPARE_TO_FORWARD_RESPONSE, s')"
proof -
  let ?env = "sample_env\<lparr>e_expand := \<lambda>_. Throw type_error\<rparr>" and ?s = "sample_session [] (SetQuery Buffer_new ''SELECT 1'')"
  have "Acl_json (\<lambda>_. Throw type_error) (Some [''docs'']) (sample_select (range_var None ''docs'')) = Throw type_error"
    by code_simp
  then have "\<exists>s1. apply_pre pre_request_plugins ?env ?s = (s1, Throw type_error)"
    using pre_request_steps [OF sample_request, of ?env "''SELECT 1''"]
    by (simp add: sample_translate Parse_def AclQueryPlugIn_def Let_def Query_bool_def Acl_def)
  then obtain s1 where "apply_pre pre_request_plugins ?env ?s = (s1, Throw type_error)" by blast
  from plugin_failure_not_forwarded [OF this] show ?thesis by simp
qed

end
