(* ===== verification/PrintRows.thy ===== *)
theory PrintRows
  imports PrintInfo Message
begin

text \<open>
  The log of complete responses: a row description, whose field count the code reads from signed bytes, and
  an error response.
\<close>

section \<open>Row descriptions\<close>

definition be16 :: "nat \<Rightarrow> string" where
  "be16 n = [char_of (n div 256), char_of n]"

definition row_field :: "string \<times> string \<Rightarrow> string" where
  \<comment> \<open>the name of a field and the 18 bytes that describe its type\<close>
  "row_field f = fst f @ NUL # snd f"

definition row_message :: "(string \<times> string) list \<Rightarrow> string" where
  "row_message fs = (let body = concat (map row_field fs) in CHR ''T'' # be32 (length body + 6) @ be16 (length fs) @ body)"

definition field_ok :: "string \<times> string \<Rightarrow> bool" where
  "field_ok f \<longleftrightarrow> NUL \<notin> set (fst f) \<and> length (snd f) = 18"

lemma sign_extend_char:
  "n < 256 \<Longrightarrow> sign_extend (char_of n) = word_of_int (if n < 128 then int n else int n - 256)"
proof -
  assume n: "n < 256"
  then have "(of_char (char_of n :: char) :: int) = int n" by (metis of_nat_of_char of_char_of mod_less)
  moreover have "(of_char (char_of n :: char) :: nat) = n" using n by simp
  ultimately show ?thesis by (simp add: sign_extend_def)
qed

lemma row_fields_count:
  assumes "n < 2 ^ 15"
  shows "unat (push_bit 8 (sign_extend (char_of (n div 256))) + sign_extend (char_of n))
    = (if n mod 256 < 128 then n else if n < 256 then 2 ^ 32 + n - 256 else n - 256)"
proof -
  have h: "n div 256 < 128" using assms by auto
  have c: "char_of n = (char_of (n mod 256) :: char)" by simp
  have a: "sign_extend (char_of (n div 256)) = word_of_int (int (n div 256))"
    using h sign_extend_char [of "n div 256"] by simp
  let ?l = "if n mod 256 < 128 then int (n mod 256) else int (n mod 256) - 256"
  have b: "sign_extend (char_of (n mod 256)) = word_of_int ?l"
    by (rule sign_extend_char) simp
  have "push_bit 8 (sign_extend (char_of (n div 256))) + sign_extend (char_of n)
      = (word_of_int (int (n div 256) * 256 + ?l) :: 32 word)"
    unfolding c a b push_bit_eq_mult of_int_add of_int_mult by simp
  moreover have "unat (word_of_int k :: 32 word) = nat (k mod 2 ^ 32)" for k
    by (simp add: unat_eq_nat_uint uint_word_of_int_eq take_bit_eq_mod)
  ultimately have "unat (push_bit 8 (sign_extend (char_of (n div 256))) + sign_extend (char_of n))
      = nat ((int (n div 256) * 256 + ?l) mod 2 ^ 32)" by presburger
  also have "int (n div 256) * 256 + ?l = (if n mod 256 < 128 then int n else int n - 256)"
  proof -
    have "int (n div 256) * 256 + int (n mod 256) = int n" by (metis div_mult_mod_eq of_nat_add of_nat_mult of_nat_numeral)
    then show ?thesis by auto
  qed
  also have "nat ((if n mod 256 < 128 then int n else int n - 256) mod 2 ^ 32)
      = (if n mod 256 < 128 then n else if n < 256 then 2 ^ 32 + n - 256 else n - 256)"
  proof (cases "n mod 256 < 128 \<or> 256 \<le> n")
    case True
    then show ?thesis using assms by (auto simp: nat_diff_distrib)
  next
    case False
    then have "(int n - 256) mod 2 ^ 32 = int n - 256 + 2 ^ 32" using assms
      by (subst mod_add_self2 [symmetric]) simp
    with False show ?thesis by (simp add: nat_diff_distrib)
  qed
  finally show ?thesis .
qed

lemma print_names_ok:
  "list_all field_ok fs \<Longrightarrow> n \<le> length fs \<Longrightarrow> pos = length pre \<Longrightarrow>
     print_names (pre @ concat (map row_field fs) @ r) n pos = Ret ()"
proof (induction fs arbitrary: n pos pre)
  case (Cons f fs)
  show ?case
  proof (cases n)
    case (Suc m)
    have f: "NUL \<notin> set (fst f)" "length (snd f) = 18" using Cons.prems(1) by (simp_all add: field_ok_def)
    have "cstr_at (pre @ concat (map row_field (f # fs)) @ r) pos = Ret (fst f)"
      using f(1) Cons.prems(3) by (simp add: cstr_at_def row_field_def)
    moreover have "print_names ((pre @ row_field f) @ concat (map row_field fs) @ r) m (pos + length (fst f) + 1 + 4 + 2 + 4 + 2 + 4 + 2) = Ret ()"
      using Cons.IH [of m "pos + length (fst f) + 1 + 4 + 2 + 4 + 2 + 4 + 2" "pre @ row_field f"] Cons.prems f(2) Suc
      by (simp add: row_field_def [of f])
    ultimately show ?thesis using Suc by (subst print_names.simps) simp
  qed (simp add: print_names.simps)
qed (simp add: print_names.simps)

lemma print_names_bound: "print_names data n pos = Ret () \<Longrightarrow> n \<noteq> 0 \<Longrightarrow> pos + 19 * (n - 1) < length data"
proof (induction data n pos rule: print_names.induct)
  case (1 data n pos)
  then obtain s where s: "cstr_at data pos = Ret s" "print_names data (n - 1) (pos + length s + 1 + 4 + 2 + 4 + 2 + 4 + 2) = Ret ()"
    by (subst (asm) (2) print_names.simps) (auto simp: run_simps)
  show ?case
  proof (cases "n - 1 = 0")
    case True
    with cstr_at_Ret [OF s(1)] show ?thesis by simp
  next
    case False
    with "1.IH" [OF "1.prems"(2) s] have "pos + length s + 19 + 19 * (n - 1 - 1) < length data" by (simp add: add.commute)
    with False show ?thesis by (cases n; cases "n - 1") auto
  qed
qed

lemma print_names_crash: "print_names data n pos \<noteq> Ret () \<Longrightarrow> print_names data n pos = Crash OutOfBounds"
proof (induction data n pos rule: print_names.induct)
  case (1 data n pos)
  show ?case
  proof (cases "cstr_at data pos")
    case (Ret s)
    with 1 show ?thesis by (subst print_names.simps, subst (asm) (3) print_names.simps) (auto split: if_splits)
  next
    case (Crash c)
    with 1 show ?thesis by (subst print_names.simps, subst (asm) (3) print_names.simps) (auto simp: cstr_at_def split: if_splits)
  qed simp
qed


lemma read_len_message: "5 \<le> length data \<Longrightarrow> \<exists>n. read_len data = Ret n"
  by (rule read_len_ok) simp

lemma row_message_bytes:
  assumes "content b = row_message fs @ r" "data_size b \<le> length (buf b)"
  shows "\<exists>t. buf b = CHR ''T'' # be32 (length (concat (map row_field fs)) + 6) @ be16 (length fs) @ concat (map row_field fs) @ t"
  using assms append_take_drop_id [of "data_size b" "buf b"]
  by (intro exI [of _ "r @ drop (data_size b) (buf b)"]) (simp add: content_def row_message_def Let_def)

lemma PrintInfo_rows:
  assumes b: "buf_big b" "content b = row_message fs @ r"
    and fs: "list_all field_ok fs" "length fs < 2 ^ 15"
  shows "PrintInfo BACKEND (buf b) (data_size b)
    = bind_run (print_names (buf b) (if length fs mod 256 < 128 then length fs
        else if length fs < 256 then 2 ^ 32 + length fs - 256 else length fs - 256) 7) (\<lambda>_. Ret ())"
proof -
  let ?n = "length fs"
  have d: "data_size b \<le> length (buf b)" using b(1) by (simp add: buf_big_def buf_ok_def)
  from row_message_bytes [OF b(2) d] obtain t
    where t: "buf b = CHR ''T'' # be32 (length (concat (map row_field fs)) + 6) @ be16 ?n @ concat (map row_field fs) @ t" by blast
  note len = buf_big_length [OF b(1)]
  obtain l where l: "read_len (buf b) = Ret l" using read_len_ok [of "buf b"] len by auto
  have "byte_at (buf b) 0 = Ret (CHR ''T'')" "byte_at (buf b) 5 = Ret (char_of (?n div 256))" "byte_at (buf b) 6 = Ret (char_of ?n)"
    using len unfolding t by (simp_all add: byte_at_def be32_def be16_def)
  moreover have "6 < data_size b \<Longrightarrow> print_rest (buf b) (data_size b - 6) 6 = Ret ()"
    using d by (intro print_rest_ok) simp
  ultimately show ?thesis
    using l row_fields_count [OF fs(2)] by (auto simp: PrintInfo_def print_message_def Let_def intro!: bind_run_cong)
qed

lemma names_logged:
  assumes b: "buf_big b" "content b = row_message fs @ r" and fs: "list_all field_ok fs" "n \<le> length fs"
  shows "print_names (buf b) n 7 = Ret ()"
proof -
  have d: "data_size b \<le> length (buf b)" using b(1) by (simp add: buf_big_def buf_ok_def)
  let ?p = "CHR ''T'' # be32 (length (concat (map row_field fs)) + 6) @ be16 (length fs)"
  from row_message_bytes [OF b(2) d] obtain t where "buf b = ?p @ concat (map row_field fs) @ t" by auto
  with print_names_ok [OF fs, of 7 ?p t] show ?thesis by (simp add: be16_def)
qed

lemma rows_logged:
  assumes "buf_big b" "content b = row_message fs @ r" "list_all field_ok fs" "length fs < 2 ^ 15" "length fs \<notin> {128..255}"
  shows "PrintInfo BACKEND (buf b) (data_size b) = Ret ()"
proof -
  have "length fs mod 256 < 128 \<or> 256 \<le> length fs" using assms(5) by auto
  with PrintInfo_rows [OF assms(1-4)] names_logged [OF assms(1-3)] show ?thesis by auto
qed

text \<open>C26. A row description that has arrived with all its fields is logged within the bytes of the buffer exactly when
  the number of its columns is not between 128 and 255: the low byte of the count is read as a signed
  character, so that those counts become counts of more than four billion names.\<close>
theorem wide_rows_overrun:
  assumes "buf_big b" "content b = row_message fs @ r" "list_all field_ok fs" "length fs < 2 ^ 15"
    "length (buf b) < 2 ^ 32"
  shows "PrintInfo BACKEND (buf b) (data_size b) = (if length fs \<in> {128..255} then Crash OutOfBounds else Ret ())"
proof (cases "length fs \<in> {128..255}")
  case True
  then have n: "length fs mod 256 = length fs" "\<not> length fs < 128" "length fs < 256" by auto
  have "print_names (buf b) (2 ^ 32 + length fs - 256) 7 \<noteq> Ret ()"
    using print_names_bound [of "buf b" "2 ^ 32 + length fs - 256" 7] assms(5) n by auto
  with print_names_crash have "print_names (buf b) (2 ^ 32 + length fs - 256) 7 = Crash OutOfBounds" by blast
  with PrintInfo_rows [OF assms(1-4)] True n show ?thesis by simp
next
  case False
  with rows_logged [OF assms(1-4)] show ?thesis by simp
qed

definition sample_rows :: Buffer where
  \<comment> \<open>a row description of 128 columns without names\<close>
  "sample_rows = (let m = row_message (replicate 128 ([], replicate 18 NUL))
     in \<lparr>buf = m @ replicate (8192 - length m) NUL, buf_size = 4096, data_size = length m\<rparr>)"

lemma wide_rows_overrun_witness: "PrintInfo BACKEND (buf sample_rows) (data_size sample_rows) = Crash OutOfBounds"
proof -
  let ?fs = "replicate 128 ([], replicate 18 NUL)" and ?m = "row_message (replicate 128 ([], replicate 18 NUL))"
  have l: "length ?m = 2439" by (simp add: row_message_def row_field_def be16_def length_concat sum_list_replicate)
  have b: "buf sample_rows = ?m @ replicate 5753 NUL" "data_size sample_rows = 2439" "buf_size sample_rows = 4096"
    using l by (simp_all add: sample_rows_def Let_def)
  have "buf_big sample_rows" using l by (simp add: buf_big_def buf_ok_def b DEFAULT_SIZE_def)
  moreover have "content sample_rows = ?m @ []" using l by (simp add: content_def b)
  moreover have "list_all field_ok ?fs" by (simp add: list_all_iff field_ok_def)
  moreover have "length (buf sample_rows) < 2 ^ 32" using l by (simp add: b)
  ultimately show ?thesis using wide_rows_overrun [of sample_rows ?fs "[]"] by simp
qed

section \<open>Error responses\<close>

definition error_message :: "(char \<times> string) list \<Rightarrow> string" where
  "error_message fs = CHR ''E'' # be32 (5 + length (enc_fields fs)) @ enc_fields fs @ [NUL]"

lemma print_fields_ok:
  "\<forall>(k, v) \<in> set fs. NUL \<notin> set v \<Longrightarrow> pos = length pre \<Longrightarrow>
     print_fields (pre @ enc_fields fs @ r) (pos + length (enc_fields fs)) pos = Ret (pos + length (enc_fields fs))"
proof (induction fs arbitrary: pos pre)
  case (Cons f fs)
  obtain k v where f: "f = (k, v)" by fastforce
  with Cons.prems have v: "NUL \<notin> set v" by simp
  let ?d = "pre @ enc_fields (f # fs) @ r" and ?len = "pos + length (enc_fields (f # fs))"
  have b: "byte_at ?d pos = Ret k" "cstr_at ?d (pos + 1) = Ret v"
    using v Cons.prems(2) f by (simp_all add: byte_at_def cstr_at_def nth_append)
  have "print_fields ((pre @ k # v @ [NUL]) @ enc_fields fs @ r) (pos + 1 + length v + 1 + length (enc_fields fs)) (pos + 1 + length v + 1)
      = Ret (pos + 1 + length v + 1 + length (enc_fields fs))"
    using Cons.IH [of "pos + 1 + length v + 1" "pre @ k # v @ [NUL]"] Cons.prems by simp
  then have "print_fields ?d ?len (pos + 1 + length v + 1) = Ret ?len" using f by (simp add: ac_simps)
  moreover have "pos < ?len" using f by simp
  ultimately show ?case using b by (subst print_fields.simps) simp
qed (simp add: print_fields.simps)

lemma PrintInfo_error:
  assumes b: "buf_big b" "content b = error_message fs @ r" "data_size b \<le> length (buf b)"
    and fs: "\<forall>(k, v) \<in> set fs. NUL \<notin> set v" "5 + length (enc_fields fs) < 2 ^ 32"
  shows "PrintInfo BACKEND (buf b) (data_size b) = Ret ()"
proof -
  let ?n = "5 + length (enc_fields fs)" and ?p = "CHR ''E'' # be32 (5 + length (enc_fields fs))"
  obtain t where t: "buf b = ?p @ enc_fields fs @ t"
    using b(2) append_take_drop_id [of "data_size b" "buf b"] by (simp add: content_def error_message_def) metis
  have len: "read_len (buf b) = Ret ?n" unfolding t using read_len_be32 [OF fs(2), of "CHR ''E''" "enc_fields fs @ t"] by simp
  have "print_fields (buf b) ?n 5 = Ret ?n" unfolding t using print_fields_ok [OF fs(1), of 5 ?p t] by simp
  moreover have "print_rest (buf b) ?n (data_size b - ?n) = Ret ()"
  proof (cases "?n \<le> data_size b")
    case True
    then show ?thesis using b(3) by (intro print_rest_ok) simp
  qed (simp add: print_rest.simps)
  moreover have "byte_at (buf b) 0 = Ret (CHR ''E'')" unfolding t by simp
  moreover have "6 < data_size b \<Longrightarrow> print_rest (buf b) (data_size b - 6) 6 = Ret ()"
    using b(3) by (intro print_rest_ok) simp
  ultimately show ?thesis using len by (simp add: PrintInfo_def print_message_def and_then_run_def)
qed

section \<open>Responses the log reads safely\<close>

definition response_start :: "string \<Rightarrow> bool" where
  \<comment> \<open>a response that begins with a row description of any number of columns but 128 to 255, with an error
     response, or with any other message\<close>
  "response_start r \<longleftrightarrow> hd r \<notin> {CHR ''E'', CHR ''T''}
     \<or> (\<exists>fs t. r = row_message fs @ t \<and> list_all field_ok fs \<and> length fs < 2 ^ 15 \<and> length fs \<notin> {128..255})
     \<or> (\<exists>fs t. r = error_message fs @ t \<and> (\<forall>(k, v) \<in> set fs. NUL \<notin> set v) \<and> 5 + length (enc_fields fs) < 2 ^ 32)"

lemma response_logged:
  assumes b: "buf_big b" "content b = r" "data_size b = length r" and r: "response_start r" "r \<noteq> []"
  shows "PrintInfo BACKEND (buf b) (length r) = Ret ()"
proof -
  have len: "data_size b \<le> length (buf b)" using b(1) by (simp add: buf_big_def buf_ok_def)
  have "buf b ! 0 = hd r" using b(2,3) r(2) by (cases "buf b"; cases r) (auto simp: content_def)
  then have "hd r \<notin> {CHR ''E'', CHR ''T''} \<Longrightarrow> PrintInfo BACKEND (buf b) (data_size b) = Ret ()"
    by (intro PrintInfo_safe [OF b(1)]) simp_all
  with r(1) rows_logged [OF b(1)] PrintInfo_error [OF b(1) _ len] b(2,3) show ?thesis
    unfolding response_start_def by fastforce
qed

end
