(* ===== verification/Segments.thy ===== *)
theory Segments
  imports SessionProps PrintRows
begin

text \<open>
  Messages and the pieces they arrive in: one call of \<open>RecvFrom\<close> takes everything that is there, in
  however many pieces, and a response is gathered over as many events as it takes until it ends with
  ReadyForQuery.
\<close>

section \<open>One call of \<open>RecvFrom\<close>\<close>

definition pieces :: "sock \<Rightarrow> string \<Rightarrow> bool" where
  \<comment> \<open>these bytes are there, in one or more pieces, and nothing else\<close>
  "pieces es d \<longleftrightarrow> (\<exists>ds. es = map Bytes ds \<and> [] \<notin> set ds \<and> concat ds = d)"

lemma pieces_one [simp]: "d \<noteq> [] \<Longrightarrow> pieces [Bytes d] d"
  unfolding pieces_def by (intro exI [of _ "[d]"]) simp

lemma pieces_none [simp]: "pieces [] d \<longleftrightarrow> d = []"
  by (auto simp: pieces_def)

lemma pieces_arrived: "pieces es d \<Longrightarrow> arrived es = d"
proof -
  have "[] \<notin> set ds \<Longrightarrow> arrived (map Bytes ds) = concat ds" for ds
    by (induction ds) auto
  then show "pieces es d \<Longrightarrow> arrived es = d" by (auto simp: pieces_def)
qed

lemma pieces_call:
  assumes "pieces es d" "0 < n"
  shows "es = [] \<or> (\<exists>c es' d'. recv_call n es = (Got c, es') \<and> c \<noteq> [] \<and> pieces es' d')"
proof -
  from assms(1) obtain ds where ds: "es = map Bytes ds" "[] \<notin> set ds" by (auto simp: pieces_def)
  show ?thesis
  proof (cases ds)
    case (Cons x xs)
    have "pieces (if n < length x then Bytes (drop n x) # map Bytes xs else map Bytes xs)
        (if n < length x then drop n x @ concat xs else concat xs)"
      unfolding pieces_def
      by (intro exI [of _ "if n < length x then drop n x # xs else xs"]) (use ds Cons in auto)
    moreover have "take n x \<noteq> []" using ds Cons assms(2) by auto
    ultimately show ?thesis using ds Cons by auto
  qed (use ds in simp)
qed

lemma recv_loop_pieces:
  "buf_ok b \<Longrightarrow> recv_loop b es = Ret (b', n, en, es') \<Longrightarrow> pieces es d \<Longrightarrow> en = Some EAGAIN \<and> es' = []"
proof (induction b es arbitrary: d rule: recv_loop.induct)
  case (1 b es)
  have "0 < buf_size b" using 1(2) by (simp add: buf_ok_def)
  from pieces_call [OF 1(4) this] show ?case
  proof (elim disjE exE conjE)
    assume "es = []"
    with 1(3) show ?thesis by (simp add: recv_loop.simps)
  next
    fix c es1 d1 assume c: "recv_call (buf_size b) es = (Got c, es1)" "c \<noteq> []" "pieces es1 d1"
    from recv_call_length [OF c(1)] have l: "length c \<le> buf_size b" .
    note fits = put_bytes_fits [OF 1(2) l]
    have "recv_loop (grow (put_bytes b c)) es1 = Ret (b', n, en, es')"
      using 1(3) c(1,2) fits by (simp add: recv_loop.simps [of b es])
    from 1(1) [OF c(1) [symmetric] refl c(2) _ buf_ok_grow_put [OF 1(2) l] this c(3)] fits show ?thesis by auto
  qed
qed

lemma recv_pieces:
  assumes "buf_big b" "pieces es d" "length (content b @ d) < 2 ^ 31"
  obtains b' where "RecvFrom b es = Ret (b', int (length (content b @ d)), Some EAGAIN, [])" "buf_big b'"
    "content b' = content b @ d" "data_size b' = length (content b @ d)"
proof -
  from RecvFrom_big [OF assms(1), of es] obtain b' en es'
    where r: "RecvFrom b es = Ret (b', recv_result b' en, en, es')" "buf_big b'" "content b' = content b @ arrived es"
    by blast
  have ok: "buf_ok b" "buf_ok b'" using assms(1) r(2) by (auto simp: buf_big_def)
  then have "recv_loop b es = Ret (b', recv_result b' en, en, es')" using r(1) by (simp add: RecvFrom_def)
  with recv_loop_pieces [OF ok(1) _ assms(2)] have e: "en = Some EAGAIN" "es' = []" by blast+
  have c: "content b' = content b @ d" using r(3) pieces_arrived [OF assms(2)] by simp
  with buf_ok_content [OF ok(2)] have "data_size b' = length (content b @ d)" by simp
  with that r(1,2) e c assms(3) show ?thesis by (simp add: recv_result_def)
qed

section \<open>Requests\<close>

lemma first_byte: "content b = d \<Longrightarrow> d \<noteq> [] \<Longrightarrow> buf b \<noteq> [] \<and> buf b ! 0 = hd d"
  by (cases "buf b"; cases "data_size b") (auto simp: content_def)

lemma request_received:
  assumes "buf_big (request_of s)" "content (request_of s) = []" "c_initiated (ctx s)"
    "pieces (e_sock env) d" "d \<noteq> []" "length d < 2 ^ 31"
  obtains b where "ReceiveRequest env s = Ret (Some APPLY_PRE_REQUEST_PLUGINS, stop_waiting (set_request b s))"
    "content b = d" "byte_at (buf b) 0 = Ret (hd d)" "data_size b = length d" "buf_big b"
proof -
  from recv_pieces [OF assms(1,4)] assms(2,6) obtain b
    where b: "RecvFrom (request_of s) (e_sock env) = Ret (b, int (length d), Some EAGAIN, [])"
    "buf_big b" "content b = d" "data_size b = length d" by auto
  have "PrintInfo FRONTEND (buf b) (length d) = Ret ()" by (rule PrintInfo_front) (simp_all add: b)
  with b assms show ?thesis using that [of b] first_byte [OF b(3) assms(5)]
    by (simp add: ReceiveRequest_def Let_def set_request_def)
qed

section \<open>Responses\<close>

definition ends_ready :: "string \<Rightarrow> bool" where
  \<comment> \<open>a ReadyForQuery message at the end\<close>
  "ends_ready r \<longleftrightarrow> (\<exists>r0. \<exists>x \<in> {CHR ''I'', CHR ''T'', CHR ''E''}. r = r0 @ [CHR ''Z'', NUL, NUL, NUL, CHR 0x05, x])"

definition ready_message :: "string \<Rightarrow> bool" where
  \<comment> \<open>a response the log reads safely, with a ReadyForQuery message at the end\<close>
  "ready_message r \<longleftrightarrow> response_start r \<and> ends_ready r"

definition unfinished :: "string \<Rightarrow> bool" where
  \<comment> \<open>the beginning of a response that the session goes on to receive\<close>
  "unfinished p \<longleftrightarrow> response_start p \<and> 6 \<le> length p \<and> hd p \<noteq> CHR ''R'' \<and> \<not> ends_ready p"

lemma ends_ready_last:
  assumes "6 \<le> length r"
  shows "ends_ready r \<longleftrightarrow> take 5 (drop (length r - 6) r) = [CHR ''Z'', NUL, NUL, NUL, CHR 0x05]
    \<and> r ! (length r - 1) \<in> {CHR ''I'', CHR ''T'', CHR ''E''}"
proof -
  define r0 where "r0 = take (length r - 6) r"
  define t where "t = drop (length r - 6) r"
  have r: "r = r0 @ t" by (simp add: r0_def t_def)
  have "length t = 6" using assms by (simp add: t_def)
  then obtain a b c d e f where "t = [a, b, c, d, e, f]"
    by (auto simp: length_Suc_conv numeral_eq_Suc)
  with r have r': "r = r0 @ [a, b, c, d, e, f]" by simp
  show ?thesis unfolding ends_ready_def r' by (auto simp: nth_append)
qed

lemma ready_for_query_content:
  assumes "content b = r" "data_size b = length r" "data_size b \<le> length (buf b)" "6 \<le> length r"
  shows "ready_for_query i (buf b) (length r) = Ret (i \<longrightarrow> hd r = CHR ''R'' \<or> ends_ready r)"
proof -
  have b: "buf b = r @ drop (data_size b) (buf b)" using assms(1) by (metis append_take_drop_id content_def)
  have r: "r \<noteq> []" using assms(4) by auto
  have "take 5 (drop (length r - 6) (buf b)) = take 5 (drop (length r - 6) r)"
    "buf b ! (length r - 1) = r ! (length r - 1)" using assms(4) r by (subst b; simp add: nth_append)+
  then show ?thesis
    using first_byte [OF assms(1) r] assms(2-4) ends_ready_last [OF assms(4)] by (simp add: ready_for_query_def byte_at_def)
qed

lemma ends_ready_long: "ends_ready r \<Longrightarrow> 6 \<le> length r"
  by (auto simp: ends_ready_def)

text \<open>One event: what has arrived is added, and the session goes on according to what there is then.\<close>
lemma response_piece:
  assumes "buf_big (c_response (ctx s))" "content (c_response (ctx s)) = p" "c_initiated (ctx s)" "pieces (e_sock env) d"
    "response_start (p @ d)" "6 \<le> length (p @ d)" "length (p @ d) < 2 ^ 31"
  obtains b where "ReceiveResponse env s = Ret (if hd (p @ d) = CHR ''R'' \<or> ends_ready (p @ d)
      then (Some APPLY_POST_RESPONSE_PLUGINS, stop_waiting (set_response b s)) else (Some RECEIVE_RESPONSE, set_response b s))"
    "buf_big b" "content b = p @ d" "data_size b = length (p @ d)"
proof -
  define r where "r = p @ d"
  note a = assms(5-7) [folded r_def]
  have r: "r \<noteq> []" "0 < int (length r)" using a(2) by auto
  from recv_pieces [OF assms(1,4)] assms(2) a(3) obtain b
    where b: "RecvFrom (c_response (ctx s)) (e_sock env) = Ret (b, int (length r), Some EAGAIN, [])"
    "buf_big b" "content b = r" "data_size b = length r" unfolding r_def by blast
  have "PrintInfo BACKEND (buf b) (length r) = Ret ()" by (rule response_logged [OF b(2-4) a(1) r(1)])
  moreover have "ready_for_query True (buf b) (length r) = Ret (hd r = CHR ''R'' \<or> ends_ready r)"
    using ready_for_query_content [OF b(3,4) _ a(2)] b(2) by (simp add: buf_big_def buf_ok_def)
  ultimately have "ReceiveResponse env s = Ret (if hd r = CHR ''R'' \<or> ends_ready r
      then (Some APPLY_POST_RESPONSE_PLUGINS, stop_waiting (set_response b s)) else (Some RECEIVE_RESPONSE, set_response b s))"
    using b(1) r(2) assms(3) by (simp add: ReceiveResponse_def Let_def set_response_def)
  with that b(2-4) show ?thesis unfolding r_def by blast
qed

lemma bind_run_assoc: "bind_run (bind_run m f) g = bind_run m (\<lambda>x. bind_run (f x) g)"
  by (cases m) auto

lemma take_actions_append:
  "take_actions action (es @ fs) m s = bind_run (take_actions action es m s) (\<lambda>(m', s'). take_actions action fs m' s')"
  by (induction es arbitrary: m s) (auto simp: bind_run_assoc intro!: bind_run_cong)

lemma take_actions_next:
  "action e n s = Ret (Some n', s') \<Longrightarrow>
     take_actions action es (SetInitialState n') s' = x \<Longrightarrow>
     take_actions action (e # es) (SetInitialState n) s = x"
  by (simp add: TakeAction_def SetInitialState_def)

lemmas run_next = take_actions_next [where action = session_action] take_actions.simps(1) [where action = session_action]

fun gathers :: "string \<Rightarrow> env list \<Rightarrow> string \<Rightarrow> bool" where
  \<comment> \<open>after the bytes there are, these events bring the rest of the response, which is complete with the last one\<close>
  "gathers p [] r \<longleftrightarrow> False"
| "gathers p (e # es) r \<longleftrightarrow> (\<exists>d. pieces (e_sock e) d
     \<and> (if es = [] then p @ d = r \<and> ready_message r else unfinished (p @ d) \<and> gathers (p @ d) es r))"

lemma gathers_length: "gathers p es r \<Longrightarrow> length p \<le> length r"
  by (induction p es r rule: gathers.induct) (auto split: if_splits intro: add_leD1)

lemma gathers_ready: "gathers p es r \<Longrightarrow> ready_message r"
  by (induction p es r rule: gathers.induct) (auto split: if_splits)

lemma gathers_one [simp]: "gathers [] [e] r \<longleftrightarrow> pieces (e_sock e) r \<and> ready_message r"
  by auto

lemma set_response_twice [simp]: "set_response b' (set_response b s) = set_response b' s"
  "c_response (ctx (set_response b s)) = b" "c_initiated (ctx (set_response b s)) = c_initiated (ctx s)"
  by (simp_all add: set_response_def)

lemma response_gathered:
  assumes "gathers p es r" "buf_big (c_response (ctx s))" "content (c_response (ctx s)) = p" "c_initiated (ctx s)"
    "length r < 2 ^ 31"
  shows "\<exists>b. take_actions session_action es (SetInitialState RECEIVE_RESPONSE) s
      = Ret (SetInitialState APPLY_POST_RESPONSE_PLUGINS, stop_waiting (set_response b s))
    \<and> content b = r \<and> data_size b = length r"
  using assms
proof (induction p es r arbitrary: s rule: gathers.induct)
  case (2 p e es r)
  from 2(2) obtain d where d: "pieces (e_sock e) d"
    "if es = [] then p @ d = r \<and> ready_message r else unfinished (p @ d) \<and> gathers (p @ d) es r" by auto
  have start: "response_start (p @ d)" "6 \<le> length (p @ d)"
    using d(2) ends_ready_long [of r] by (auto simp: ready_message_def unfinished_def split: if_splits)
  have len: "length (p @ d) < 2 ^ 31" using d(2) gathers_length [of "p @ d" es r] 2(6) by (auto split: if_splits)
  from response_piece [OF 2(3,4,5) d(1) start len] obtain b
    where b: "ReceiveResponse e s = Ret (if hd (p @ d) = CHR ''R'' \<or> ends_ready (p @ d)
        then (Some APPLY_POST_RESPONSE_PLUGINS, stop_waiting (set_response b s)) else (Some RECEIVE_RESPONSE, set_response b s))"
      "buf_big b" "content b = p @ d" "data_size b = length (p @ d)" .
  show ?case
  proof (cases "es = []")
    case True
    with d(2) b have "session_action e RECEIVE_RESPONSE s = Ret (Some APPLY_POST_RESPONSE_PLUGINS, stop_waiting (set_response b s))"
      by (simp add: session_action_def ready_message_def)
    from run_next(1) [OF this run_next(2)] True d(2) b(3,4) show ?thesis by auto
  next
    case False
    with d(2) b have step: "session_action e RECEIVE_RESPONSE s = Ret (Some RECEIVE_RESPONSE, set_response b s)"
      by (auto simp: session_action_def unfinished_def)
    from 2(1) [OF False, of d "set_response b s"] False d(2) b(2,3) 2(5,6) obtain b'
      where "take_actions session_action es (SetInitialState RECEIVE_RESPONSE) (set_response b s)
          = Ret (SetInitialState APPLY_POST_RESPONSE_PLUGINS, stop_waiting (set_response b' s))"
        "content b' = r" "data_size b' = length r" by auto
    with run_next(1) [OF step] show ?thesis by blast
  qed
qed simp

end
