(* ===== verification/SessionRuns.thy ===== *)
theory SessionRuns
  imports Segments
begin

text \<open>
  Whole runs of a session, from its constructor on, whatever the client, the server and the database
  send: what it waits for, in which states it can read outside a buffer, and how a message that is not
  a simple query travels through it.
\<close>

section \<open>The sockets of a session\<close>

lemma frame_sockets: "fine s (s', r) \<Longrightarrow> cl_socket s' = cl_socket s \<and> sv_socket s' = sv_socket s"
  by (simp add: frame_def)

lemma respond_error_sockets:
  "respond_error e s = Ret (n, s') \<Longrightarrow> cl_socket s' = cl_socket s \<and> sv_socket s' = sv_socket s"
  by (auto simp: respond_error_def run_simps set_response_def)

lemma apply_sockets:
  assumes "env_ok env" "sess_inv (Some n) s"
  shows "ApplyPreRequestPlugins env s = Ret (n', s') \<Longrightarrow> n = APPLY_PRE_REQUEST_PLUGINS \<Longrightarrow>
      cl_socket s' = cl_socket s \<and> sv_socket s' = sv_socket s"
    and "ApplyPostResponsePlugins env s = Ret (n', s') \<Longrightarrow> n = APPLY_POST_RESPONSE_PLUGINS \<Longrightarrow>
      cl_socket s' = cl_socket s \<and> sv_socket s' = sv_socket s"
    and "Initiate env s = Ret (n', s') \<Longrightarrow> n = INITIATE \<Longrightarrow>
      cl_socket s' = cl_socket s \<and> sv_socket s' = sv_socket s"
proof -
  have read: "readable (request_of s)" using assms(2) by (auto simp: sess_inv.simps inv_defs)
  {
    fix s1 r assume a: "apply_pre pre_request_plugins env s = (s1, r)"
    from fine_pre_request [OF assms(1) read] a frame_sockets [of s s1 r]
    have "cl_socket s1 = cl_socket s \<and> sv_socket s1 = sv_socket s" by simp
  } note pre = this
  show "ApplyPreRequestPlugins env s = Ret (n', s') \<Longrightarrow> n = APPLY_PRE_REQUEST_PLUGINS \<Longrightarrow>
      cl_socket s' = cl_socket s \<and> sv_socket s' = sv_socket s"
    by (auto simp: ApplyPreRequestPlugins_def split: prod.splits run.splits if_splits
        dest!: pre respond_error_sockets)
  {
    fix s1 r assume a: "apply_post post_response_plugins env s = (s1, r)" and "n = APPLY_POST_RESPONSE_PLUGINS"
    then have "buf_big (c_response (ctx s))" using assms(2) by (auto simp: sess_inv.simps inv_defs)
    then have "buf (c_response (ctx s)) \<noteq> []" using buf_big_length by fastforce
    from fine_post_response [OF read this, of env] a frame_sockets [of s s1 r]
    have "cl_socket s1 = cl_socket s \<and> sv_socket s1 = sv_socket s" by simp
  } note post = this
  show "ApplyPostResponsePlugins env s = Ret (n', s') \<Longrightarrow> n = APPLY_POST_RESPONSE_PLUGINS \<Longrightarrow>
      cl_socket s' = cl_socket s \<and> sv_socket s' = sv_socket s"
    by (auto simp: ApplyPostResponsePlugins_def split: prod.splits run.splits
        dest!: post respond_error_sockets)
  have look: "cl_socket (fst a) = cl_socket s \<and> sv_socket (fst a) = sv_socket s"
    if "a = lookup_rolsuper env (s\<lparr>parameters := ps\<rparr>)" for ps a
  proof -
    have "fine s (lookup_rolsuper env (s\<lparr>parameters := ps\<rparr>))"
      by (rule fine_lookup) (simp_all add: read)
    with that frame_sockets [of s "fst a" "snd a"] show ?thesis by simp
  qed
  show "Initiate env s = Ret (n', s') \<Longrightarrow> n = INITIATE \<Longrightarrow>
      cl_socket s' = cl_socket s \<and> sv_socket s' = sv_socket s"
    using look [OF refl] by (auto simp: Initiate_def run_simps case_prod_beta split: if_splits)
qed

lemma action_sockets:
  assumes "env_ok env" "sess_inv (Some n) s" "session_action env n s = Ret (n', s')"
  shows "cl_socket s' = cl_socket s \<and> sv_socket s' = sv_socket s"
  using assms(3) apply_sockets [OF assms(1,2), of n' s']
  by (cases n) (auto simp: session_action_def PrepareToReceiveRequest_def PrepareToForwardRequest_def
      PrepareToReceiveResponse_def PrepareToForwardResponse_def wait_for_def ForwardRequest_def ForwardResponse_def
      stop_waiting_def fail_with_def ResetContext_def ReceiveRequest_def ReceiveResponse_def run_simps Let_def
      set_request_def set_response_def split: prod.splits if_splits)

lemma new_sockets:
  "\<exists>t. s = Session_new cl sv t \<Longrightarrow>
     sess_inv (Some PREPARE_TO_RECEIVE_REQUEST) s \<and> cl_socket s = cl \<and> sv_socket s = sv"
  using sess_inv_new by (auto simp: Session_new_def)

lemma keeps_sockets:
  "env_ok e \<Longrightarrow> sess_inv (Some n) s \<and> cl_socket s = cl \<and> sv_socket s = sv \<Longrightarrow>
     session_action e n s = Ret (n', s') \<Longrightarrow> sess_inv n' s' \<and> cl_socket s' = cl \<and> sv_socket s' = sv"
  using action_inv action_sockets by blast

interpretation sockets: machine session_action env_ok PREPARE_TO_RECEIVE_REQUEST
    "\<lambda>s. \<exists>t. s = Session_new cl sv t"
    "\<lambda>n s. sess_inv n s \<and> cl_socket s = cl \<and> sv_socket s = sv" for cl sv
  by unfold_locales (rule new_sockets, assumption, rule keeps_sockets)

lemma run_waits:
  assumes "\<forall>e \<in> set envs. env_ok e" "run_session envs (Session_new cl sv t) = Ret (m, s)"
  shows "sess_inv (current_state m) s \<and> cl_socket s = cl \<and> sv_socket s = sv
    \<and> (terminated m \<longleftrightarrow> current_state m = None)"
  using sockets.reached_inv [OF assms(1), of _ cl sv m s] assms(2) by (auto simp: run_session_def)

section \<open>Reading outside a buffer\<close>

lemma ready_cases:
  assumes "buf_big b" "0 < n" "n \<le> data_size b"
  shows "ready_for_query i (buf b) n = Crash OutOfBounds \<longleftrightarrow> i \<and> buf b ! 0 \<noteq> CHR ''R'' \<and> n < 6"
proof -
  have "n \<le> length (buf b)" "0 < length (buf b)" using assms by (auto simp: buf_big_def buf_ok_def)
  then show ?thesis by (auto simp: ready_for_query_def)
qed

lemma receive_response_crash:
  assumes "sess_inv (Some RECEIVE_RESPONSE) s" "ReceiveResponse env s = Crash OutOfBounds"
  obtains b n x y where "RecvFrom (c_response (ctx s)) (e_sock env) = Ret (b, n, x, y)" "0 < n"
    "buf b ! 0 \<in> {CHR ''E'', CHR ''T''} \<or> c_initiated (ctx s) \<and> buf b ! 0 \<noteq> CHR ''R'' \<and> n < 6"
proof -
  from assms(1) have "buf_big (c_response (ctx s))" by (auto simp: sess_inv.simps inv_defs)
  from RecvFrom_big [OF this, of "e_sock env"] obtain b en es'
    where r: "RecvFrom (c_response (ctx s)) (e_sock env) = Ret (b, recv_result b en, en, es')" "buf_big b" by blast
  let ?n = "recv_result b en"
  have pos: "0 < ?n" using assms(2) r(1) by (auto simp: ReceiveResponse_def Let_def split: if_splits)
  note le = recv_positive [OF this]
  have "PrintInfo BACKEND (buf b) (nat ?n) = Crash OutOfBounds
      \<or> ready_for_query (c_initiated (ctx s)) (buf b) (nat ?n) = Crash OutOfBounds"
    using assms(2) r(1) pos by (auto simp: ReceiveResponse_def Let_def run_simps set_response_def split: if_splits)
  moreover have "buf b ! 0 \<in> {CHR ''E'', CHR ''T''}" if "PrintInfo BACKEND (buf b) (nat ?n) = Crash OutOfBounds"
    using PrintInfo_safe [OF r(2), of "nat ?n" BACKEND] le that by auto
  ultimately show ?thesis
    using that [OF r(1) pos] ready_cases [OF r(2), of "nat ?n" "c_initiated (ctx s)"] le pos by (auto simp: nat_less_iff)
qed

section \<open>One exchange\<close>

definition quiet :: "Session \<Rightarrow> bool" where
  \<comment> \<open>whatever the response, no plug-in has anything to do once the query has been executed\<close>
  "quiet s \<longleftrightarrow> (\<forall>env s'. c_query (ctx s') = c_query (ctx s) \<longrightarrow> st s' = st s \<longrightarrow> buf (c_response (ctx s')) \<noteq> [] \<longrightarrow>
     ApplyPostResponsePlugins env s' = Ret (Some PREPARE_TO_FORWARD_RESPONSE, s'))"

lemma quiet_post:
  "quiet s \<Longrightarrow> buf (c_response (ctx s)) \<noteq> [] \<Longrightarrow> ApplyPostResponsePlugins env s = Ret (Some PREPARE_TO_FORWARD_RESPONSE, s)"
  unfolding quiet_def by blast

lemma quiet_same: "quiet s \<Longrightarrow> c_query (ctx s') = c_query (ctx s) \<Longrightarrow> st s' = st s \<Longrightarrow> quiet s'"
  unfolding quiet_def by simp

lemma quietI:
  assumes "\<And>env s'. c_query (ctx s') = c_query (ctx s) \<Longrightarrow> st s' = st s \<Longrightarrow> buf (c_response (ctx s')) \<noteq> [] \<Longrightarrow>
     UpdateParametersPlugIn env s' = (s', Ret NoError) \<and> UpdateSchemaPlugIn env s' = (s', Ret NoError)"
  shows "quiet s"
  unfolding quiet_def using assms by (simp add: ApplyPostResponsePlugins_def post_response_plugins_def)

lemma quiet_none:
  assumes "Query_bool (c_query (ctx s)) \<Longrightarrow>
     ''VariableSetStmt'' \<notin> set (keys_of (query_json s)) \<and> ''CreateStmt'' \<notin> set (keys_of (query_json s))"
  shows "quiet s"
  by (rule quietI) (use assms in \<open>auto simp: UpdateParametersPlugIn_def UpdateSchemaPlugIn_def query_json_def
      FindNode_None(1) [symmetric] byte_at_def\<close>)

lemma SendTo_all:
  "content b = d \<Longrightarrow> data_size b = length d \<Longrightarrow> length d < 2 ^ 31 \<Longrightarrow> SendTo b (SendOk (length d)) = (int (length d), d)"
  by (simp add: SendTo_def content_def)

lemma content_size: "content b = d \<Longrightarrow> data_size b \<le> length (buf b) \<Longrightarrow> data_size b = length d"
  by (auto simp: content_def)

lemma request_half:
  assumes idle: "ctx s = Context_new\<lparr>c_initiated := True\<rparr>"
    and d: "pieces (e_sock e2) d" "d \<noteq> []" "hd d \<noteq> CHR ''Q''" "length d < 2 ^ 31"
  obtains s4 where "take_actions session_action [e1, e2, e3, e4] (SetInitialState PREPARE_TO_RECEIVE_REQUEST) s
      = Ret (SetInitialState FORWARD_REQUEST, s4)"
    "SendTo (request_of s4) (SendOk (length d)) = (int (length d), d)"
    "\<not> Query_bool (c_query (ctx s4))" "c_response (ctx s4) = Buffer_new" "c_initiated (ctx s4)"
proof -
  define s1 where "s1 = wait_for (cl_socket s) EPOLLIN s"
  have s1: "request_of s1 = Buffer_new" "c_initiated (ctx s1)" "\<not> Query_bool (c_query (ctx s1))" "c_response (ctx s1) = Buffer_new"
    using idle by (simp_all add: s1_def wait_for_def request_of_def Context_new_def)
  obtain b where b: "ReceiveRequest e2 s1 = Ret (Some APPLY_PRE_REQUEST_PLUGINS, stop_waiting (set_request b s1))"
      "content b = d" "byte_at (buf b) 0 = Ret (hd d)" "data_size b = length d"
    using request_received [of s1 e2 d] s1 d by auto
  define s2 where "s2 = stop_waiting (set_request b s1)"
  have s2: "request_of s2 = b" "\<not> Query_bool (c_query (ctx s2))" "c_response (ctx s2) = Buffer_new" "c_initiated (ctx s2)"
    using s1 by (simp_all add: s2_def stop_waiting_def request_of_def set_request_def)
  define s3 where "s3 = s2\<lparr>parameters := smap_touch (parameters s2) ''rolsuper''\<rparr>"
  define s4 where "s4 = wait_for (sv_socket s3) EPOLLOUT s3"
  have s4: "request_of s4 = b" "\<not> Query_bool (c_query (ctx s4))" "c_response (ctx s4) = Buffer_new" "c_initiated (ctx s4)"
    using s2 by (simp_all add: s4_def s3_def wait_for_def request_of_def)
  have a: "session_action e1 PREPARE_TO_RECEIVE_REQUEST s = Ret (Some RECEIVE_REQUEST, s1)"
    "session_action e2 RECEIVE_REQUEST s1 = Ret (Some APPLY_PRE_REQUEST_PLUGINS, s2)"
    "session_action e3 APPLY_PRE_REQUEST_PLUGINS s2 = Ret (Some PREPARE_TO_FORWARD_REQUEST, s3)"
    "session_action e4 PREPARE_TO_FORWARD_REQUEST s3 = Ret (Some FORWARD_REQUEST, s4)"
    using b(1,3) s2(1,2) d(3)
    by (simp_all add: session_action_def s1_def s2_def s3_def s4_def PrepareToReceiveRequest_def
        PrepareToForwardRequest_def other_message_passes)
  have "take_actions session_action [e1, e2, e3, e4] (SetInitialState PREPARE_TO_RECEIVE_REQUEST) s
      = Ret (SetInitialState FORWARD_REQUEST, s4)"
    by (rule run_next a)+
  moreover have "SendTo (request_of s4) (SendOk (length d)) = (int (length d), d)"
    unfolding s4(1) by (rule SendTo_all [OF b(2,4) d(4)])
  ultimately show thesis using that s4 by blast
qed

lemma response_half:
  assumes s: "SendTo (request_of s) (e_send e5) = (n, d)" "0 < n" "quiet s" "c_response (ctx s) = Buffer_new"
      "c_initiated (ctx s)"
    and r: "gathers [] es r" "length r < 2 ^ 31"
  obtains s9 where "take_actions session_action ([e5, e6] @ es @ [e8, e9]) (SetInitialState FORWARD_REQUEST) s
      = Ret (SetInitialState FORWARD_RESPONSE, s9)"
    "SendTo (c_response (ctx s9)) (SendOk (length r)) = (int (length r), r)" "c_initiated (ctx s9)"
proof -
  define s5 where "s5 = stop_waiting s"
  define s6 where "s6 = wait_for (sv_socket s5) EPOLLIN s5"
  have s6: "c_response (ctx s6) = Buffer_new" "quiet s6" "c_initiated (ctx s6)"
    using s quiet_same [OF s(3)] by (simp_all add: s6_def s5_def wait_for_def stop_waiting_def)
  from response_gathered [OF r(1), of s6] s6 r(2) obtain b
    where b: "take_actions session_action es (SetInitialState RECEIVE_RESPONSE) s6
        = Ret (SetInitialState APPLY_POST_RESPONSE_PLUGINS, stop_waiting (set_response b s6))"
      "content b = r" "data_size b = length r" by auto
  define s7 where "s7 = stop_waiting (set_response b s6)"
  have s7: "quiet s7" "c_initiated (ctx s7)" "c_response (ctx s7) = b"
    using s6 quiet_same [OF s6(2)] by (simp_all add: s7_def stop_waiting_def set_response_def)
  have "r \<noteq> []" using gathers_ready [OF r(1)] by (auto simp: ready_message_def ends_ready_def)
  with first_byte [OF b(2)] s7(3) have b7: "buf (c_response (ctx s7)) \<noteq> []" by simp
  define s9 where "s9 = wait_for (cl_socket s7) EPOLLOUT s7"
  have s9: "c_response (ctx s9) = b" "c_initiated (ctx s9)" using s7 by (simp_all add: s9_def wait_for_def)
  have a: "session_action e5 FORWARD_REQUEST s = Ret (Some PREPARE_TO_RECEIVE_RESPONSE, s5)"
    "session_action e6 PREPARE_TO_RECEIVE_RESPONSE s5 = Ret (Some RECEIVE_RESPONSE, s6)"
    and c: "session_action e8 APPLY_POST_RESPONSE_PLUGINS s7 = Ret (Some PREPARE_TO_FORWARD_RESPONSE, s7)"
    "session_action e9 PREPARE_TO_FORWARD_RESPONSE s7 = Ret (Some FORWARD_RESPONSE, s9)"
    using s(1,2) quiet_post [OF s7(1) b7]
    by (simp_all add: session_action_def s5_def s6_def s9_def ForwardRequest_def
        PrepareToReceiveResponse_def PrepareToForwardResponse_def)
  have "take_actions session_action [e5, e6] (SetInitialState FORWARD_REQUEST) s = Ret (SetInitialState RECEIVE_RESPONSE, s6)"
    by (rule run_next a)+
  moreover have "take_actions session_action [e8, e9] (SetInitialState APPLY_POST_RESPONSE_PLUGINS) s7
      = Ret (SetInitialState FORWARD_RESPONSE, s9)"
    by (rule run_next c)+
  ultimately have "take_actions session_action ([e5, e6] @ es @ [e8, e9]) (SetInitialState FORWARD_REQUEST) s
      = Ret (SetInitialState FORWARD_RESPONSE, s9)"
    using b(1) unfolding take_actions_append s7_def [symmetric] by simp
  moreover have "SendTo (c_response (ctx s9)) (SendOk (length r)) = (int (length r), r)"
    unfolding s9(1) by (rule SendTo_all [OF b(2,3) r(2)])
  ultimately show thesis using that s9(2) by blast
qed

lemma last_half:
  assumes "SendTo (c_response (ctx s)) (e_send e10) = (n, r)" "0 < n"
  shows "take_actions session_action [e10, e11] (SetInitialState FORWARD_RESPONSE) s
      = Ret (SetInitialState PREPARE_TO_RECEIVE_REQUEST, stop_waiting s\<lparr>ctx := Context_Reset (ctx (stop_waiting s))\<rparr>)"
proof -
  have a: "session_action e10 FORWARD_RESPONSE s = Ret (Some RESET_CONTEXT, stop_waiting s)"
    "session_action e11 RESET_CONTEXT (stop_waiting s)
      = Ret (Some PREPARE_TO_RECEIVE_REQUEST, stop_waiting s\<lparr>ctx := Context_Reset (ctx (stop_waiting s))\<rparr>)"
    using assms by (simp_all add: session_action_def ForwardResponse_def ResetContext_def)
  show ?thesis by (rule run_next a)+
qed

section \<open>Startup messages\<close>

fun encode_params :: "(string \<times> string) list \<Rightarrow> string" where
  \<comment> \<open>the parameters of a startup message: names and values, each ended by a NUL, and a NUL\<close>
  "encode_params [] = [NUL]"
| "encode_params ((k, v) # kvs) = k @ NUL # v @ NUL # encode_params kvs"

definition store_param :: "smap \<Rightarrow> string \<times> string \<Rightarrow> smap" where
  "store_param ps kv =
     (let ps' = smap_put ps (fst kv) (snd kv)
      in if fst kv = ''user'' \<and> \<not> smap_has ps' ''database'' then smap_put ps' ''database'' (snd kv) else ps')"

definition param_ok :: "string \<times> string \<Rightarrow> bool" where
  "param_ok kv \<longleftrightarrow> fst kv \<noteq> [] \<and> NUL \<notin> set (fst kv) \<and> NUL \<notin> set (snd kv)"

lemma cstr_at_here: "NUL \<notin> set v \<Longrightarrow> cstr_at (pre @ v @ NUL # r) (length pre) = Ret v"
  by (simp add: cstr_at_def)

lemma parse_params_encoded:
  "list_all param_ok kvs \<Longrightarrow>
     parse_params (pre @ encode_params kvs @ r) (length pre) ps = Ret (foldl store_param ps kvs)"
proof (induction kvs arbitrary: pre ps)
  case Nil
  then show ?case by (subst parse_params.simps) simp
next
  case (Cons kv kvs)
  obtain k v where kv: "kv = (k, v)" by fastforce
  have "param_ok kv" and rest_ok: "list_all param_ok kvs" using Cons.prems by simp_all
  with kv have ok: "k \<noteq> []" "NUL \<notin> set k" "NUL \<notin> set v" by (simp_all add: param_ok_def)
  define rest where "rest = encode_params kvs @ r"
  let ?d = "pre @ k @ NUL # v @ NUL # rest"
  from ok obtain c k' where k: "k = c # k'" "c \<noteq> NUL" by (cases k) auto
  then have c: "byte_at ?d (length pre) = Ret c" by (simp add: nth_append)
  have n: "cstr_at ?d (length pre) = Ret k" using cstr_at_here [OF ok(2)] .
  have v: "cstr_at ?d (length pre + length k + 1) = Ret v"
    using cstr_at_here [OF ok(3), of "pre @ k @ [NUL]" rest] by simp
  have "parse_params ?d (length pre) ps
      = parse_params ?d (length (pre @ k @ NUL # v @ [NUL])) (store_param ps kv)"
    using c n v k(2) by (subst parse_params.simps) (simp add: Let_def store_param_def kv add.assoc)
  also have "\<dots> = Ret (foldl store_param (store_param ps kv) kvs)"
    using Cons.IH [OF rest_ok, of "pre @ k @ NUL # v @ [NUL]"] by (simp add: rest_def)
  finally show ?case by (simp add: kv rest_def)
qed

lemma store_param_get:
  "smap_get (store_param ps kv) k =
     (if k = fst kv then snd kv
      else if k = ''database'' \<and> fst kv = ''user'' \<and> \<not> smap_has ps ''database'' then snd kv else smap_get ps k)"
  by (auto simp: store_param_def Let_def)

lemma store_params_other:
  "k \<notin> fst ` set kvs \<Longrightarrow> k \<noteq> ''database'' \<or> smap_has ps ''database'' \<or> ''user'' \<notin> fst ` set kvs \<Longrightarrow>
     smap_get (foldl store_param ps kvs) k = smap_get ps k"
proof (induction kvs arbitrary: ps)
  case (Cons kv kvs)
  have "smap_has ps ''database'' \<Longrightarrow> smap_has (store_param ps kv) ''database''"
    by (auto simp: store_param_def Let_def)
  with Cons show ?case by (auto simp: store_param_get)
qed simp

lemma store_params_get:
  "distinct (map fst kvs) \<Longrightarrow> (k, v) \<in> set kvs \<Longrightarrow> smap_get (foldl store_param ps kvs) k = v"
proof (induction kvs arbitrary: ps)
  case (Cons kv kvs)
  show ?case
  proof (cases "kv = (k, v)")
    case True
    have "k = ''database'' \<Longrightarrow> smap_has (store_param ps kv) ''database''"
      using True by (auto simp: store_param_def Let_def)
    moreover have "k \<notin> fst ` set kvs" using Cons.prems True by simp
    ultimately have "smap_get (foldl store_param (store_param ps kv) kvs) k = smap_get (store_param ps kv) k"
      by (intro store_params_other) auto
    then show ?thesis using True by (simp add: store_param_get)
  qed (use Cons in auto)
qed simp

lemma store_params_default:
  assumes "distinct (map fst kvs)" "(''user'', u) \<in> set kvs" "''database'' \<notin> fst ` set kvs" "\<not> smap_has ps ''database''"
  shows "smap_get (foldl store_param ps kvs) ''database'' = u"
  using assms
proof (induction kvs arbitrary: ps)
  case (Cons kv kvs)
  show ?case
  proof (cases "kv = (''user'', u)")
    case True
    then have "smap_has (store_param ps kv) ''database''" by (auto simp: store_param_def Let_def)
    then have "smap_get (foldl store_param (store_param ps kv) kvs) ''database'' = smap_get (store_param ps kv) ''database''"
      using Cons.prems by (intro store_params_other) auto
    with True Cons.prems show ?thesis by (simp add: store_param_get)
  next
    case False
    then have "fst kv \<noteq> ''user''" "fst kv \<noteq> ''database''" using Cons.prems by force+
    then have "\<not> smap_has (store_param ps kv) ''database''" using Cons.prems(4) by (simp add: store_param_def Let_def)
    with Cons False show ?thesis by auto
  qed
qed simp

section \<open>Properties\<close>

text \<open>C12. Whatever happens around it, a session that has taken any number of actions keeps its two sockets and
  waits exactly in the four states that receive or send, for the socket and the direction of that state; it
  is terminated exactly when it has no state, and then still waits on one of its sockets, so that the event
  that ends it is delivered.\<close>
theorem session_waits:
  assumes "\<forall>e \<in> set envs. env_ok e" "run_session envs (Session_new cl sv t) = Ret (m, s)"
  shows "waits_right (current_state m) s \<and> cl_socket s = cl \<and> sv_socket s = sv
    \<and> (IsTerminated m \<longleftrightarrow> current_state m = None)"
  using run_waits [OF assms] by (cases "current_state m") (auto simp: sess_inv.simps IsTerminated_def)

text \<open>C18. A session that reads outside a buffer does so while it receives a response: one whose log follows the
  counts of an error or a row description, or one of fewer than six bytes in an initiated session. In no
  other state, and for no request of a client, can that happen.\<close>
theorem overrun_only_in_response:
  assumes "\<forall>e \<in> set envs. env_ok e" "run_session envs (Session_new cl sv t) = Crash OutOfBounds"
  shows "\<exists>e \<in> set envs. \<exists>s b n x y. sess_inv (Some RECEIVE_RESPONSE) s
    \<and> ReceiveResponse e s = Crash OutOfBounds
    \<and> RecvFrom (c_response (ctx s)) (e_sock e) = Ret (b, n, x, y)
    \<and> (buf b ! 0 \<in> {CHR ''E'', CHR ''T''} \<or> c_initiated (ctx s) \<and> buf b ! 0 \<noteq> CHR ''R'' \<and> n < 6)"
proof -
  have "\<exists>cl' sv' t'. Session_new cl sv t = Session_new cl' sv' t'" by blast
  from session.reached_crash [OF assms(1) this] assms(2) obtain e n s
    where e: "e \<in> set envs" "sess_inv (Some n) s" "session_action e n s = Crash OutOfBounds"
    by (auto simp: run_session_def)
  with assms(1) have "env_ok e" by blast
  from other_states_tame [OF this e(2)] e(3) have n: "n = RECEIVE_RESPONSE" by auto
  with e(3) have "ReceiveResponse e s = Crash OutOfBounds" by (simp add: session_action_def)
  with receive_response_crash [OF e(2) [unfolded n] this] e n show ?thesis by metis
qed

text \<open>In an initiated session a response of which fewer than six bytes have arrived, and which starts with
  none of the letters the code treats apart, is read in front of the buffer by the test for ReadyForQuery.\<close>
theorem short_response_overrun:
  assumes "c_response (ctx s) = Buffer_new" "c_initiated (ctx s)"
    "e_sock env = [Bytes r]" "r \<noteq> []" "length r < 6" "hd r \<notin> {CHR ''E'', CHR ''T'', CHR ''R''}"
  shows "ReceiveResponse env s = Crash OutOfBounds"
proof -
  have "length r < 2 ^ 31" using assms(5) by simp
  with recv_pieces [OF buf_big_new pieces_one [OF assms(4)]] obtain b
    where b: "RecvFrom Buffer_new [Bytes r] = Ret (b, int (length r), Some EAGAIN, [])" "buf_big b"
      "content b = r" "data_size b = length r" by auto
  have h: "buf b ! 0 = hd r" using first_byte [OF b(3) assms(4)] by simp
  then have "PrintInfo BACKEND (buf b) (length r) = Ret ()" using assms(6) by (intro PrintInfo_safe) (simp_all add: b)
  moreover have "ready_for_query True (buf b) (length r) = Crash OutOfBounds"
    using ready_cases [OF b(2), of "length r" True] assms(4-6) h b(4) by simp
  ultimately show ?thesis using b(1) assms by (simp add: ReceiveResponse_def Let_def set_response_def)
qed


text \<open>C31. The parameters of a startup message come back from the bytes a client encodes them in: every name with
  its value, and the database defaults to the user.\<close>
theorem startup_roundtrip:
  assumes "list_all param_ok kvs" "distinct (map fst kvs)"
  shows "\<exists>ps'. parse_params (pre @ encode_params kvs @ r) (length pre) [] = Ret ps'
    \<and> (\<forall>(k, v) \<in> set kvs. smap_get ps' k = v)
    \<and> (\<forall>u. (''user'', u) \<in> set kvs \<longrightarrow> ''database'' \<notin> fst ` set kvs \<longrightarrow> smap_get ps' ''database'' = u)"
  using parse_params_encoded [OF assms(1), of pre r "[]"] store_params_get [OF assms(2)]
    store_params_default [OF assms(2), of _ "[]"] by auto

section \<open>Concrete runs\<close>

lemma sample_env_ok: "env_ok (sample_env\<lparr>e_sock := es\<rparr>)"
  by (simp add: env_ok_def sample_env_def)

lemma RecvFrom_sample:
  assumes "d \<noteq> []" "length d \<le> 1024"
  shows "RecvFrom Buffer_new [Bytes d] = Ret (sample_buffer d, int (length d), Some EAGAIN, [])"
proof -
  have "put_bytes Buffer_new d = sample_buffer d" using assms(2)
    by (simp add: put_bytes_def Buffer_new_def DEFAULT_SIZE_def sample_buffer_def)
  moreover have "grow (sample_buffer d) = sample_buffer d" using assms(2) by (simp add: grow_def sample_buffer_def)
  moreover have "prepare Buffer_new = Buffer_new" by simp
  moreover have "data_size (sample_buffer d) = length d" "buf_size (sample_buffer d) = 1024" by (simp_all add: sample_buffer_def)
  moreover have "buf_size Buffer_new = 1024" "data_size Buffer_new = 0" "length (buf Buffer_new) = 2048"
    by (simp_all add: Buffer_new_def DEFAULT_SIZE_def)
  ultimately show ?thesis using assms by (simp add: RecvFrom_def recv_loop.simps)
qed

lemma sample_buffer_size [simp]: "data_size (sample_buffer d) = length d"
  by (simp add: sample_buffer_def)

lemma session_waits_witness:
  "waits_right (Some RECEIVE_REQUEST) (wait_for 3 EPOLLIN (Session_new 3 4 None))"
proof -
  have a: "session_action e PREPARE_TO_RECEIVE_REQUEST (Session_new 3 4 None)
      = Ret (Some RECEIVE_REQUEST, wait_for 3 EPOLLIN (Session_new 3 4 None))" for e
    by (simp add: session_action_def PrepareToReceiveRequest_def) (simp add: Session_new_def)
  have "run_session [sample_env\<lparr>e_sock := []\<rparr>] (Session_new 3 4 None)
      = Ret (SetInitialState RECEIVE_REQUEST, wait_for 3 EPOLLIN (Session_new 3 4 None))"
    unfolding run_session_def by (rule run_next a)+
  from session_waits [OF _ this] sample_env_ok show ?thesis by (simp add: SetInitialState_def)
qed

lemma startup_request:
  assumes "d \<noteq> []" "length d \<le> 8"
  obtains s4 where "take_actions session_action (replicate 4 (sample_env\<lparr>e_sock := [Bytes d]\<rparr>))
      (SetInitialState PREPARE_TO_RECEIVE_REQUEST) (Session_new 3 4 None) = Ret (SetInitialState FORWARD_REQUEST, s4)"
    "c_response (ctx s4) = Buffer_new" "request_of s4 = sample_buffer d" "\<not> c_initiated (ctx s4)"
proof -
  let ?e = "sample_env\<lparr>e_sock := [Bytes d]\<rparr>"
  define s1 where "s1 = wait_for 3 EPOLLIN (Session_new 3 4 None)"
  have s1: "request_of s1 = Buffer_new" "\<not> c_initiated (ctx s1)" "c_response (ctx s1) = Buffer_new"
    by (simp_all add: s1_def wait_for_def Session_new_def Context_new_def request_of_def)
  define s2 where "s2 = stop_waiting (set_request (sample_buffer d) s1)"
  define s4 where "s4 = wait_for (sv_socket s2) EPOLLOUT s2"
  have s2: "request_of s2 = sample_buffer d" "c_response (ctx s2) = Buffer_new" "\<not> c_initiated (ctx s2)"
    using s1 by (simp_all add: s2_def stop_waiting_def set_request_def request_of_def)
  have s4: "c_response (ctx s4) = Buffer_new" "request_of s4 = sample_buffer d" "\<not> c_initiated (ctx s4)"
    using s2 by (simp_all add: s4_def wait_for_def request_of_def)
  have p: "PrintInfo FRONTEND (buf (sample_buffer d)) (length d) = Ret ()"
    by (rule PrintInfo_front) (use assms in \<open>simp_all add: sample_buffer_big\<close>)
  have "ReceiveRequest ?e s1 = Ret (Some INITIATE, s2)"
    using p s1 RecvFrom_sample [OF assms(1)] assms
    by (simp add: ReceiveRequest_def Let_def s2_def set_request_def)
  then have a: "session_action ?e PREPARE_TO_RECEIVE_REQUEST (Session_new 3 4 None) = Ret (Some RECEIVE_REQUEST, s1)"
    "session_action ?e RECEIVE_REQUEST s1 = Ret (Some INITIATE, s2)"
    "session_action ?e INITIATE s2 = Ret (Some PREPARE_TO_FORWARD_REQUEST, s2)"
    "session_action ?e PREPARE_TO_FORWARD_REQUEST s2 = Ret (Some FORWARD_REQUEST, s4)"
    using s2 assms
    by (simp_all add: session_action_def PrepareToReceiveRequest_def Initiate_def Buffer_Size_def
        PrepareToForwardRequest_def s1_def s4_def) (simp add: Session_new_def)
  have "take_actions session_action [?e, ?e, ?e, ?e] (SetInitialState PREPARE_TO_RECEIVE_REQUEST) (Session_new 3 4 None)
      = Ret (SetInitialState FORWARD_REQUEST, s4)"
    by (rule run_next a)+
  with that s4 show thesis by (simp add: numeral_eq_Suc)
qed

lemma startup_forwarded:
  assumes "d \<noteq> []" "length d \<le> 8"
  obtains s6 where "take_actions session_action (replicate 6 (sample_env\<lparr>e_sock := [Bytes d]\<rparr>))
      (SetInitialState PREPARE_TO_RECEIVE_REQUEST) (Session_new 3 4 None) = Ret (SetInitialState RECEIVE_RESPONSE, s6)"
    "c_response (ctx s6) = Buffer_new"
proof -
  let ?e = "sample_env\<lparr>e_sock := [Bytes d]\<rparr>"
  from startup_request [OF assms] obtain s4 where s4: "take_actions session_action (replicate 4 ?e)
      (SetInitialState PREPARE_TO_RECEIVE_REQUEST) (Session_new 3 4 None) = Ret (SetInitialState FORWARD_REQUEST, s4)"
    "c_response (ctx s4) = Buffer_new" "request_of s4 = sample_buffer d" by blast
  define s5 where "s5 = stop_waiting s4"
  define s6 where "s6 = wait_for (sv_socket s5) EPOLLIN s5"
  have s6: "c_response (ctx s6) = Buffer_new" using s4(2) by (simp add: s5_def s6_def wait_for_def stop_waiting_def)
  have "SendTo (sample_buffer d) (SendOk 100) = (int (length d), d)"
    using assms by (simp add: SendTo_def sample_buffer_def content_def)
  then have a: "session_action ?e FORWARD_REQUEST s4 = Ret (Some PREPARE_TO_RECEIVE_RESPONSE, s5)"
    "session_action ?e PREPARE_TO_RECEIVE_RESPONSE s5 = Ret (Some RECEIVE_RESPONSE, s6)"
    using s4(3) assms
    by (simp_all add: session_action_def ForwardRequest_def PrepareToReceiveResponse_def s5_def s6_def sample_env_def)
  have "take_actions session_action [?e, ?e] (SetInitialState FORWARD_REQUEST) s4 = Ret (SetInitialState RECEIVE_RESPONSE, s6)"
    by (rule run_next a)+
  with s4(1) take_actions_append [of session_action "replicate 4 ?e" "[?e, ?e]"] that s6
  show thesis by (simp add: numeral_eq_Suc)
qed

lemma overrun_only_in_response_witness:
  "\<exists>e s. ReceiveResponse e s = Crash OutOfBounds \<and> sess_inv (Some RECEIVE_RESPONSE) s"
proof -
  let ?e = "sample_env\<lparr>e_sock := [Bytes ''x'']\<rparr>"
  let ?t = "[CHR ''T'', NUL, NUL, CHR 0x0B, NUL, NUL, CHR 0x6D]"
  let ?f = "sample_env\<lparr>e_sock := [Bytes ?t]\<rparr>"
  obtain s6 where s6: "take_actions session_action (replicate 6 ?e) (SetInitialState PREPARE_TO_RECEIVE_REQUEST) (Session_new 3 4 None)
      = Ret (SetInitialState RECEIVE_RESPONSE, s6)" "c_response (ctx s6) = Buffer_new"
    using startup_forwarded [of "''x''"] by auto
  have "PrintInfo BACKEND (buf (sample_buffer ?t)) (data_size (sample_buffer ?t)) = Crash OutOfBounds"
    by (rule PrintInfo_overrun) (simp_all add: sample_buffer_big, simp_all add: sample_buffer_def row_fields_def sign_extend_def)
  moreover have "data_size (sample_buffer ?t) = 7" by simp
  ultimately have "PrintInfo BACKEND (buf (sample_buffer ?t)) 7 = Crash OutOfBounds" by metis
  then have "ReceiveResponse ?f s6 = Crash OutOfBounds"
    using s6(2) RecvFrom_sample [of ?t] by (simp add: ReceiveResponse_def Let_def)
  then have "run_session (replicate 6 ?e @ [?f]) (Session_new 3 4 None) = Crash OutOfBounds"
    unfolding run_session_def take_actions_append s6(1)
    by (simp add: TakeAction_def session_action_def SetInitialState_def)
  from overrun_only_in_response [OF _ this] sample_env_ok show ?thesis by (auto simp del: replicate.simps)
qed

definition sample_idle :: Session where
  "sample_idle = Session_new 3 4 None\<lparr>ctx := Context_new\<lparr>c_initiated := True\<rparr>\<rparr>"

lemma short_response_overrun_witness:
  "ReceiveResponse (sample_env\<lparr>e_sock := [Bytes ''C'']\<rparr>) sample_idle = Crash OutOfBounds"
  by (rule short_response_overrun [where r = "''C''"]) (simp_all add: sample_idle_def Context_new_def)

definition sample_events :: "env list" where
  \<comment> \<open>a response in two events: the beginning of a message, its end with ReadyForQuery\<close>
  "sample_events = [sample_env\<lparr>e_sock := [Bytes ''Dxyz'', Bytes ''xyz'']\<rparr>,
     sample_env\<lparr>e_sock := [Bytes [CHR ''Z'', NUL, NUL, NUL, CHR 0x05, CHR ''I'']]\<rparr>]"

definition sample_response :: string where
  "sample_response = ''Dxyzxyz'' @ [CHR ''Z'', NUL, NUL, NUL, CHR 0x05, CHR ''I'']"

lemma sample_gathers: "gathers [] sample_events sample_response" "length sample_response = 13"
proof -
  have p: "pieces [Bytes ''Dxyz'', Bytes ''xyz''] ''Dxyzxyz''"
    unfolding pieces_def by (intro exI [of _ "[''Dxyz'', ''xyz'']"]) simp
  have u: "unfinished ''Dxyzxyz''"
    by (simp add: unfinished_def response_start_def ends_ready_def)
  have r: "ready_message sample_response"
    by (auto simp: ready_message_def response_start_def ends_ready_def sample_response_def)
  show "gathers [] sample_events sample_response"
    unfolding sample_events_def gathers.simps
    by (intro exI [of _ "''Dxyzxyz''"] conjI exI [of _ "[CHR ''Z'', NUL, NUL, NUL, CHR 0x05, CHR ''I'']"])
       (use p u r in \<open>simp_all add: sample_response_def\<close>)
  show "length sample_response = 13" by (simp add: sample_response_def)
qed


lemma startup_roundtrip_witness:
  "\<exists>ps'. parse_params (encode_params [(''user'', ''joe''), (''a'', ''b'')]) 0 [] = Ret ps'
    \<and> smap_get ps' ''user'' = ''joe'' \<and> smap_get ps' ''database'' = ''joe''"
  using startup_roundtrip [of "[(''user'', ''joe''), (''a'', ''b'')]" "[]" "[]"] by (auto simp: param_ok_def)

end
