(* ===== verification/ThreadPool.thy ===== *)
theory ThreadPool
  imports BlockingQueue
begin

text \<open>
  \<open>concurrency/thread-pool.h\<close>: the pool of worker threads over a blocking queue of jobs. The session
  operator overrides \<open>Work\<close>; the base class runs the version below.
\<close>

record 'j ThreadPool =
  num_threads :: nat
  stopped :: bool
  job_queue :: "'j bqueue"

definition ThreadPool_new :: "nat \<Rightarrow> nat \<Rightarrow> 'j ThreadPool" where
  \<comment> \<open>the requested number and \<open>std::thread::hardware_concurrency()\<close>\<close>
  "ThreadPool_new n hw =
     \<lparr>num_threads = (if n = 0 \<or> hw < n then hw else n), stopped = False, job_queue = []\<rparr>"

definition ThreadPool_Stop :: "'j ThreadPool \<Rightarrow> 'j ThreadPool" where
  "ThreadPool_Stop p = p\<lparr>stopped := True\<rparr>"

definition ThreadPool_IsStopped :: "'j ThreadPool \<Rightarrow> bool" where
  "ThreadPool_IsStopped p = stopped p"

definition ThreadPool_Submit :: "'j ThreadPool \<Rightarrow> 'j \<Rightarrow> 'j ThreadPool" where
  "ThreadPool_Submit p j = p\<lparr>job_queue := Push (job_queue p) j\<rparr>"

definition ThreadPool_Work :: "('j \<Rightarrow> 's \<Rightarrow> 's run) \<Rightarrow> 'j ThreadPool
    \<Rightarrow> ('j bqueue \<times> bool) list \<Rightarrow> 's \<Rightarrow> ('j ThreadPool \<times> 's) run" where
  \<comment> \<open>\<open>J* j = nullptr; if (!job_queue_.Pop(j, 1000)) { (*j)(); delete j; }\<close>: the branch is taken when
     nothing was popped, and then j is still null; a worker that still waits has done nothing\<close>
  "ThreadPool_Work call_op p ws s =
     (case Pop 1000 (job_queue p) ws of
        Popped j q \<Rightarrow> Ret (p\<lparr>job_queue := q\<rparr>, s)
      | TimedOut q \<Rightarrow> Crash NullDeref
      | StillWaiting \<Rightarrow> Ret (p, s))"

lemma ThreadPool_threads_le: "num_threads (ThreadPool_new n hw) \<le> hw"
  by (simp add: ThreadPool_new_def)

lemma ThreadPool_Submit_Pop:
  "\<exists>j q. Pop ms (job_queue (ThreadPool_Submit p j')) ws = Popped j q
     \<and> (j # q = job_queue p @ [j'])"
  using bq.pop_hit [of "job_queue p @ [j']"]
  by (cases "job_queue p") (auto simp: ThreadPool_Submit_def Push_def)

lemma ThreadPool_Work_state: "ThreadPool_Work call_op p ws s = Ret (p', s') \<Longrightarrow> s' = s"
  by (auto simp: ThreadPool_Work_def split: pop_res.splits)

text \<open>The worker of the base class has its test inverted: a job that was queued is taken off the queue and
  neither run nor deleted, and when none came in time the null job is called.\<close>
theorem worker_drops_job:
  "ThreadPool_Work call_op (p\<lparr>job_queue := j # q\<rparr>) ws s = Ret (p\<lparr>job_queue := q\<rparr>, s)
   \<and> ThreadPool_Work call_op (p\<lparr>job_queue := []\<rparr>) [([], True)] s = Crash NullDeref"
  by (simp add: ThreadPool_Work_def)

end
