(* ===== verification/SessionOperator.thy ===== *)
theory SessionOperator
  imports SessionRuns ThreadPool "HOL-Library.Multiset"
begin

text \<open>
  \<open>session/session-operator.{h,cpp}\<close>: the worker threads that run the sessions and the watcher that
  waits for their sockets. Sessions are objects on the heap that the threads pass on by pointer, so the
  model keeps the heap: an access through a pointer to a deleted session is a fault.
\<close>

section \<open>The state\<close>

text \<open>
  \<open>epoll\<close> is what is registered with the epoll instance, each descriptor with its session; \<open>open_fds\<close>
  are the open descriptors. \<open>hands\<close> and \<open>acted\<close> hold the pointers in the local variables of the workers:
  popped and not run yet, run and not passed on yet. \<open>pending\<close> is the rest of the watcher's array of
  events. The schema tracker is shared by all sessions.
\<close>

type_synonym session_obj = "sstate StateMachine \<times> Session"

record op_sys =
  thread_pool :: "nat ThreadPool"
  epoll :: "(int \<times> nat) list"
  open_fds :: "int set"
  sessions :: "nat \<Rightarrow> session_obj option"
  tracker :: "SchemaTracker option"
  hands :: "nat list"
  acted :: "nat list"
  pending :: "nat list"

definition MAX_EVENTS :: nat where "MAX_EVENTS = 100"

definition SessionOperator_new :: "nat \<Rightarrow> nat \<Rightarrow> SchemaTracker option \<Rightarrow> int \<Rightarrow> op_sys run" where
  \<comment> \<open>the last argument is what \<open>epoll_create1\<close> returns\<close>
  "SessionOperator_new n hw t epollfd =
     (if epollfd = -1 then Crash ExitFailure
      else Ret \<lparr>thread_pool = ThreadPool_new n hw, epoll = [], open_fds = {}, sessions = (\<lambda>_. None), tracker = t,
                hands = [], acted = [], pending = []\<rparr>)"

definition deref :: "op_sys \<Rightarrow> nat \<Rightarrow> session_obj run" where
  "deref u p = (case sessions u p of None \<Rightarrow> Crash UseAfterFree | Some x \<Rightarrow> Ret x)"

definition Submit :: "nat \<Rightarrow> op_sys \<Rightarrow> op_sys" where
  "Submit p u = u\<lparr>thread_pool := ThreadPool_Submit (thread_pool u) p\<rparr>"

definition SessionOperator_Stop :: "op_sys \<Rightarrow> op_sys" where
  "SessionOperator_Stop u = u\<lparr>thread_pool := ThreadPool_Stop (thread_pool u)\<rparr>"

section \<open>Workers\<close>

definition delete_session :: "nat \<Rightarrow> Session \<Rightarrow> op_sys \<Rightarrow> op_sys" where
  \<comment> \<open>\<open>delete session\<close>: the connections close their sockets, which leave the epoll instance\<close>
  "delete_session p s u = u\<lparr>sessions := (sessions u)(p := None),
     open_fds := Conn_delete (sv_socket s) (Conn_delete (cl_socket s) (open_fds u)),
     epoll := filter (\<lambda>e. fst e \<notin> {cl_socket s, sv_socket s}) (epoll u)\<rparr>"

definition run_action :: "env \<Rightarrow> nat \<Rightarrow> session_obj \<Rightarrow> op_sys \<Rightarrow> op_sys run" where
  \<comment> \<open>\<open>(*session)()\<close>; nothing catches an exception on a worker thread\<close>
  "run_action env p x u =
     (case TakeAction (session_action env) (fst x) ((snd x)\<lparr>st := tracker u\<rparr>) of
        Ret (m', s') \<Rightarrow> Ret (u\<lparr>sessions := (sessions u)(p \<mapsto> (m', s')), tracker := st s'\<rparr>)
      | Throw e \<Rightarrow> Crash Terminate
      | Crash c \<Rightarrow> Crash c)"

definition Work_take :: "env \<Rightarrow> nat \<Rightarrow> op_sys \<Rightarrow> (op_sys \<times> bool) run" where
  \<comment> \<open>the part of \<open>Work\<close> up to the action; false when the session was deleted\<close>
  "Work_take env p u =
     bind_run (deref u p) (\<lambda>x.
       if IsTerminated (fst x) then Ret (delete_session p (snd x) u, False)
       else bind_run (run_action env p x u) (\<lambda>u. Ret (u, True)))"

definition AddToWatch :: "nat \<Rightarrow> op_sys \<Rightarrow> op_sys run" where
  \<comment> \<open>\<open>EPOLL_CTL_ADD\<close> fails for a descriptor that is not open or is already registered\<close>
  "AddToWatch p u =
     bind_run (deref u p) (\<lambda>x.
       let fd = ev_fd (GetEpollEvent (snd x))
       in if fd \<notin> open_fds u \<or> fd \<in> fst ` set (epoll u) then Crash ExitFailure
          else Ret (u\<lparr>epoll := (fd, p) # epoll u\<rparr>))"

definition Work_put :: "nat \<Rightarrow> op_sys \<Rightarrow> op_sys run" where
  \<comment> \<open>the part of \<open>Work\<close> after the action\<close>
  "Work_put p u =
     bind_run (deref u p) (\<lambda>x. if IsWaiting (snd x) then AddToWatch p u else Ret (Submit p u))"

section \<open>The watcher\<close>

datatype wait_res = Ready "nat list" | Interrupted | WaitFails

fun Watch_wait :: "wait_res \<Rightarrow> op_sys \<Rightarrow> op_sys run" where
  \<comment> \<open>what \<open>epoll_wait\<close> returns\<close>
  "Watch_wait (Ready ps) u = Ret (u\<lparr>pending := ps\<rparr>)"
| "Watch_wait Interrupted u = Ret u"
| "Watch_wait WaitFails u = Crash ExitFailure"

definition Watch_event :: "nat \<Rightarrow> op_sys \<Rightarrow> op_sys run" where
  \<comment> \<open>the body of the loop over the events; \<open>EPOLL_CTL_DEL\<close> fails for a descriptor that is not registered\<close>
  "Watch_event p u =
     bind_run (deref u p) (\<lambda>x.
       let fd = ev_fd (GetEpollEvent (snd x))
       in if fd \<notin> fst ` set (epoll u) then Crash ExitFailure
          else Ret (Submit p (u\<lparr>epoll := filter (\<lambda>e. fst e \<noteq> fd) (epoll u)\<rparr>)))"

section \<open>New sessions\<close>

definition accept_session :: "nat \<Rightarrow> int \<Rightarrow> int \<Rightarrow> op_sys \<Rightarrow> op_sys" where
  \<comment> \<open>the end of the loop of \<open>ProxyServer::Run\<close>: a session over two sockets, submitted; a socket that
     could not be created has the number \<open>-1\<close>\<close>
  "accept_session p cl sv u =
     Submit p (u\<lparr>sessions := (sessions u)(p \<mapsto> (SetInitialState PREPARE_TO_RECEIVE_REQUEST, Session_new cl sv (tracker u))),
       open_fds := open_fds u \<union> {fd \<in> {cl, sv}. 0 \<le> fd}\<rparr>)"

section \<open>Interleavings\<close>

text \<open>
  Any number of workers, the watcher and the accepting thread take turns. A pointer is fresh when no live
  session has it; the kernel gives out descriptors that are not open, and reports events for
  descriptors that are registered, at most one per descriptor.
\<close>

inductive op_step :: "op_sys \<Rightarrow> op_sys \<Rightarrow> bool" where
  accept: "sessions u p = None \<Longrightarrow> 0 \<le> cl \<Longrightarrow> 0 \<le> sv \<Longrightarrow> cl \<noteq> sv \<Longrightarrow> cl \<notin> open_fds u \<Longrightarrow> sv \<notin> open_fds u \<Longrightarrow>
     op_step u (accept_session p cl sv u)"
| pop: "\<not> ThreadPool_IsStopped (thread_pool u) \<Longrightarrow> Pop 1000 (job_queue (thread_pool u)) [] = Popped p q \<Longrightarrow>
     op_step u (u\<lparr>thread_pool := (thread_pool u)\<lparr>job_queue := q\<rparr>, hands := p # hands u\<rparr>)"
| take: "p \<in> set (hands u) \<Longrightarrow> env_ok env \<Longrightarrow> Work_take env p u = Ret (u', again) \<Longrightarrow>
     op_step u (u'\<lparr>hands := remove1 p (hands u'), acted := (if again then p # acted u' else acted u')\<rparr>)"
| put: "p \<in> set (acted u) \<Longrightarrow> Work_put p u = Ret u' \<Longrightarrow>
     op_step u (u'\<lparr>acted := remove1 p (acted u')\<rparr>)"
| wait: "\<not> ThreadPool_IsStopped (thread_pool u) \<Longrightarrow> pending u = [] \<Longrightarrow>
     distinct ps \<and> set ps \<subseteq> snd ` set (epoll u) \<and> length ps \<le> MAX_EVENTS \<Longrightarrow>
     w = Ready ps \<or> w = Interrupted \<Longrightarrow> Watch_wait w u = Ret u' \<Longrightarrow> op_step u u'"
| event: "pending u = p # ps \<Longrightarrow> Watch_event p u = Ret u' \<Longrightarrow> op_step u (u'\<lparr>pending := ps\<rparr>)"
| stop: "op_step u (SessionOperator_Stop u)"

inductive op_fault :: "op_sys \<Rightarrow> fault \<Rightarrow> bool" where
  take: "p \<in> set (hands u) \<Longrightarrow> env_ok env \<Longrightarrow> Work_take env p u = Crash c \<Longrightarrow> op_fault u c"
| put: "p \<in> set (acted u) \<Longrightarrow> Work_put p u = Crash c \<Longrightarrow> op_fault u c"
| event: "pending u = p # ps \<Longrightarrow> Watch_event p u = Crash c \<Longrightarrow> op_fault u c"

inductive op_reach :: "op_sys \<Rightarrow> bool" where
  init: "SessionOperator_new n hw t fd = Ret u \<Longrightarrow> op_reach u"
| step: "op_reach u \<Longrightarrow> op_step u u' \<Longrightarrow> op_reach u'"

inductive_cases op_faultE: "op_fault u c"

section \<open>Ownership\<close>

definition places :: "op_sys \<Rightarrow> nat list" where
  \<comment> \<open>where the pointers are\<close>
  "places u = job_queue (thread_pool u) @ hands u @ acted u @ map snd (epoll u)"

definition sockets_of :: "Session \<Rightarrow> int set" where
  "sockets_of s = {cl_socket s, sv_socket s}"

definition owned :: "op_sys \<Rightarrow> bool" where
  \<comment> \<open>every live session is in exactly one place, and nothing else is\<close>
  "owned u \<longleftrightarrow> distinct (places u) \<and> set (places u) = dom (sessions u)"

definition live_ok :: "op_sys \<Rightarrow> bool" where
  "live_ok u \<longleftrightarrow> (\<forall>p m s. sessions u p = Some (m, s) \<longrightarrow> session.good m s)"

definition fds_ok :: "op_sys \<Rightarrow> bool" where
  \<comment> \<open>live sessions have open sockets, and no two share one\<close>
  "fds_ok u \<longleftrightarrow> (\<forall>p m s. sessions u p = Some (m, s) \<longrightarrow> sockets_of s \<subseteq> open_fds u
     \<and> (\<forall>q m' s'. sessions u q = Some (m', s') \<longrightarrow> q \<noteq> p \<longrightarrow> sockets_of s \<inter> sockets_of s' = {}))"

definition watch_ok :: "op_sys \<Rightarrow> bool" where
  \<comment> \<open>what is registered is the socket its session waits for; the events are of registered sessions\<close>
  "watch_ok u \<longleftrightarrow> (\<forall>(fd, p) \<in> set (epoll u). \<exists>m s. sessions u p = Some (m, s) \<and> IsWaiting s \<and> ev_fd (GetEpollEvent s) = fd)
     \<and> distinct (pending u) \<and> set (pending u) \<subseteq> snd ` set (epoll u)"

definition op_inv :: "op_sys \<Rightarrow> bool" where
  "op_inv u \<longleftrightarrow> owned u \<and> live_ok u \<and> fds_ok u \<and> watch_ok u"

section \<open>One session\<close>

lemma good_st [simp]: "session.good m (s\<lparr>st := t\<rparr>) = session.good m s"
  by (cases "current_state m"; cases "the (current_state m)")
     (auto simp: session.good_def sess_inv.simps inv_defs)

lemma good_new: "session.good (SetInitialState PREPARE_TO_RECEIVE_REQUEST) (Session_new cl sv t)"
  by (rule session.good_start) blast

lemma good_waits: "session.good m s \<Longrightarrow> IsWaiting s \<Longrightarrow> ev_fd (GetEpollEvent s) \<in> sockets_of s"
  by (cases "current_state m"; cases "the (current_state m)")
     (auto simp: session.good_def sess_inv.simps inv_defs sockets_of_def)

lemma act_keeps:
  assumes "env_ok e" "session.good m s" "TakeAction (session_action e) m s = Ret (m', s')"
  shows "session.good m' s' \<and> sockets_of s' = sockets_of s"
proof -
  have "sockets_of s' = sockets_of s"
  proof (cases "terminated m")
    case False
    with assms(2,3) obtain n n' where "sess_inv (Some n) s" "session_action e n s = Ret (n', s')"
      by (auto simp: session.good_def TakeAction_def run_simps split: option.splits)
    from action_sockets [OF assms(1) this] show ?thesis by (simp add: sockets_of_def)
  qed (use assms(3) in \<open>simp add: TakeAction_def\<close>)
  with session.good_TakeAction [OF assms] show ?thesis ..
qed

lemma run_action_Ret:
  assumes "run_action env p (m, s) u = Ret u'"
  obtains m' s' where "TakeAction (session_action env) m (s\<lparr>st := tracker u\<rparr>) = Ret (m', s')"
    "u' = u\<lparr>sessions := (sessions u)(p \<mapsto> (m', s')), tracker := st s'\<rparr>"
  using assms by (auto simp: run_action_def split: run.splits)

section \<open>Every step keeps the invariant\<close>

lemma places_simps [simp]:
  "set (places u) = set (job_queue (thread_pool u)) \<union> set (hands u) \<union> set (acted u) \<union> snd ` set (epoll u)"
  by (auto simp: places_def)

lemma Submit_simps [simp]:
  "job_queue (thread_pool (Submit p u)) = job_queue (thread_pool u) @ [p]"
  "hands (Submit p u) = hands u" "acted (Submit p u) = acted u" "epoll (Submit p u) = epoll u"
  "sessions (Submit p u) = sessions u" "open_fds (Submit p u) = open_fds u" "pending (Submit p u) = pending u"
  by (simp_all add: Submit_def ThreadPool_Submit_def Push_def)

lemma owned_live: "owned u \<Longrightarrow> p \<in> set (places u) \<Longrightarrow> \<exists>m s. sessions u p = Some (m, s)"
  by (auto simp: owned_def)

lemma inv_new: "SessionOperator_new n hw t fd = Ret u \<Longrightarrow> op_inv u"
  by (auto simp: SessionOperator_new_def op_inv_def owned_def live_ok_def fds_ok_def watch_ok_def places_def
      ThreadPool_new_def split: if_splits)

lemma inv_accept:
  assumes "op_inv u" "sessions u p = None" "0 \<le> cl" "0 \<le> sv" "cl \<noteq> sv" "cl \<notin> open_fds u" "sv \<notin> open_fds u"
  shows "op_inv (accept_session p cl sv u)"
proof -
  let ?u = "accept_session p cl sv u"
  have new: "sockets_of (Session_new cl sv t) = {cl, sv}" for t by (simp add: sockets_of_def Session_new_def)
  have p: "p \<notin> set (places u)" using assms(1,2) by (auto simp: op_inv_def owned_def)
  have places: "mset (places ?u) = mset (p # places u)"
    by (simp add: accept_session_def places_def Submit_def ThreadPool_Submit_def Push_def)
  have "owned ?u" unfolding owned_def
    using mset_eq_imp_distinct_iff [OF places] mset_eq_setD [OF places] p assms(1)
    by (auto simp: op_inv_def owned_def accept_session_def)
  moreover have "live_ok ?u"
    using assms(1) good_new by (auto simp: op_inv_def live_ok_def accept_session_def)
  moreover have "fds_ok ?u"
    using assms new unfolding op_inv_def fds_ok_def accept_session_def by (fastforce split: if_splits)
  moreover have "watch_ok ?u"
    using assms(1,2) by (fastforce simp: op_inv_def watch_ok_def accept_session_def)
  ultimately show ?thesis by (simp add: op_inv_def)
qed

lemma owned_moved: "mset (places u') = mset (places u) \<Longrightarrow> dom (sessions u') = dom (sessions u) \<Longrightarrow> owned u \<Longrightarrow> owned u'"
  unfolding owned_def using mset_eq_imp_distinct_iff mset_eq_setD by metis

lemma inv_pop:
  assumes "op_inv u" "Pop 1000 (job_queue (thread_pool u)) [] = Popped p q"
  shows "op_inv (u\<lparr>thread_pool := (thread_pool u)\<lparr>job_queue := q\<rparr>, hands := p # hands u\<rparr>)" (is "op_inv ?u")
proof -
  from assms(2) have "job_queue (thread_pool u) = p # q" by (simp add: Pop_now_Popped)
  then have "mset (places ?u) = mset (places u)" by (simp add: places_def)
  from owned_moved [OF this] assms(1) show ?thesis
    by (simp add: op_inv_def live_ok_def fds_ok_def watch_ok_def)
qed

lemma other_session: "live_ok u \<Longrightarrow> sessions u q = Some (m, s) \<Longrightarrow> session.good m s"
  by (auto simp: live_ok_def)

lemma watch_okI:
  "(\<And>fd p. (fd, p) \<in> set (epoll u) \<Longrightarrow> \<exists>m s. sessions u p = Some (m, s) \<and> IsWaiting s \<and> ev_fd (GetEpollEvent s) = fd) \<Longrightarrow>
   distinct (pending u) \<Longrightarrow> set (pending u) \<subseteq> snd ` set (epoll u) \<Longrightarrow> watch_ok u"
  unfolding watch_ok_def by blast

lemma watch_okD:
  "watch_ok u \<Longrightarrow> (fd, p) \<in> set (epoll u) \<Longrightarrow>
     \<exists>m s. sessions u p = Some (m, s) \<and> IsWaiting s \<and> ev_fd (GetEpollEvent s) = fd"
  unfolding watch_ok_def by blast

lemma watch_pending: "watch_ok u \<Longrightarrow> distinct (pending u) \<and> set (pending u) \<subseteq> snd ` set (epoll u)"
  unfolding watch_ok_def by blast

lemma fds_okI:
  "(\<And>p m s. sessions u p = Some (m, s) \<Longrightarrow> sockets_of s \<subseteq> open_fds u) \<Longrightarrow>
   (\<And>p q m s m' s' fd. sessions u p = Some (m, s) \<Longrightarrow> sessions u q = Some (m', s') \<Longrightarrow>
      fd \<in> sockets_of s \<Longrightarrow> fd \<in> sockets_of s' \<Longrightarrow> p = q) \<Longrightarrow> fds_ok u"
  unfolding fds_ok_def by blast

lemma fds_open: "fds_ok u \<Longrightarrow> sessions u p = Some (m, s) \<Longrightarrow> sockets_of s \<subseteq> open_fds u"
  unfolding fds_ok_def by blast

lemma one_owner:
  "fds_ok u \<Longrightarrow> sessions u p = Some (m, s) \<Longrightarrow> sessions u q = Some (m', s') \<Longrightarrow>
     fd \<in> sockets_of s \<Longrightarrow> fd \<in> sockets_of s' \<Longrightarrow> p = q"
  unfolding fds_ok_def by (metis IntI empty_iff)

lemma registered:
  assumes "watch_ok u" "live_ok u" "(fd, p) \<in> set (epoll u)"
  obtains m s where "sessions u p = Some (m, s)" "IsWaiting s" "ev_fd (GetEpollEvent s) = fd" "fd \<in> sockets_of s"
proof -
  from assms(1,3) obtain m s where p: "sessions u p = Some (m, s)" "IsWaiting s" "ev_fd (GetEpollEvent s) = fd"
    unfolding watch_ok_def by blast
  with good_waits [OF other_session [OF assms(2) p(1)]] that show thesis by blast
qed

lemma epoll_other:
  \<comment> \<open>the descriptors of a session that is not registered are not registered\<close>
  assumes "fds_ok u" "live_ok u" "watch_ok u" "sessions u p = Some (m, s)" "p \<notin> snd ` set (epoll u)" "(fd, q) \<in> set (epoll u)"
  shows "fd \<notin> sockets_of s"
proof
  assume fd: "fd \<in> sockets_of s"
  from registered [OF assms(3,2,6)] obtain m' s' where q: "sessions u q = Some (m', s')" "fd \<in> sockets_of s'" by blast
  from one_owner [OF assms(1,4) q(1) fd q(2)] assms(5,6) show False by force
qed

lemma epoll_one:
  \<comment> \<open>a registered descriptor belongs to one session\<close>
  assumes "fds_ok u" "live_ok u" "watch_ok u" "(fd, p) \<in> set (epoll u)" "(fd, q) \<in> set (epoll u)"
  shows "p = q"
proof -
  from registered [OF assms(3,2,4)] obtain m s where p: "sessions u p = Some (m, s)" "fd \<in> sockets_of s" by blast
  from registered [OF assms(3,2,5)] obtain m' s' where q: "sessions u q = Some (m', s')" "fd \<in> sockets_of s'" by blast
  from one_owner [OF assms(1) p(1) q(1) p(2) q(2)] show ?thesis .
qed

lemma in_hands:
  assumes "owned u" "p \<in> set (hands u) \<union> set (acted u)"
  shows "p \<notin> snd ` set (epoll u)" "\<exists>m s. sessions u p = Some (m, s)"
  using assms owned_live [OF assms(1), of p] by (auto simp: owned_def places_def)

lemma mset_take: "p \<in> set xs \<Longrightarrow> mset (remove1 p xs) + {#p#} = mset xs"
  by simp

lemma inv_delete:
  assumes inv: "op_inv u" and p: "p \<in> set (hands u)" "sessions u p = Some (m, s)"
  shows "op_inv ((delete_session p s u)\<lparr>hands := remove1 p (hands u)\<rparr>)" (is "op_inv ?u")
proof -
  from inv have i: "owned u" "live_ok u" "fds_ok u" "watch_ok u" by (simp_all add: op_inv_def)
  from in_hands [OF i(1)] p(1) have reg: "p \<notin> snd ` set (epoll u)" by blast
  have keep: "filter (\<lambda>e. fst e \<notin> {cl_socket s, sv_socket s}) (epoll u) = epoll u"
    using epoll_other [OF i(3,2,4) p(2) reg] by (auto simp: filter_id_conv sockets_of_def)
  then have e: "epoll ?u = epoll u" "pending ?u = pending u" "sessions ?u = (sessions u)(p := None)"
    "open_fds ?u = open_fds u - sockets_of s"
    by (simp_all add: delete_session_def sockets_of_def)
  have "mset (p # places ?u) = mset (places u)"
    using mset_take [OF p(1)] e(1) by (simp add: places_def delete_session_def)
  from mset_eq_imp_distinct_iff [OF this] mset_eq_setD [OF this]
  have d: "distinct (p # places ?u)" "set (places u) = insert p (set (places ?u))" using i(1) by (auto simp: owned_def)
  then have "owned ?u" using i(1) e(3) unfolding owned_def by auto
  moreover have "live_ok ?u" using i(2) e(3) by (auto simp: live_ok_def)
  moreover have "fds_ok ?u"
  proof (rule fds_okI)
    fix q m' s' assume q: "sessions ?u q = Some (m', s')"
    then have "sessions u q = Some (m', s')" "q \<noteq> p" using e(3) by (auto split: if_splits)
    with fds_open [OF i(3)] one_owner [OF i(3) p(2)] e(4) show "sockets_of s' \<subseteq> open_fds ?u" by blast
  qed (use e(3) one_owner [OF i(3)] in \<open>simp split: if_splits\<close>)
  moreover have "watch_ok ?u"
  proof (rule watch_okI)
    fix fd q assume q: "(fd, q) \<in> set (epoll ?u)"
    then have "q \<noteq> p" using e(1) reg by force
    with q watch_okD [OF i(4), of fd q] e(1,3) show "\<exists>m s. sessions ?u q = Some (m, s) \<and> IsWaiting s \<and> ev_fd (GetEpollEvent s) = fd"
      by auto
  qed (use watch_pending [OF i(4)] e(1,2) in simp_all)
  ultimately show ?thesis by (simp add: op_inv_def)
qed

lemma inv_acted:
  assumes inv: "op_inv u" and p: "p \<in> set (hands u)" "sessions u p = Some (m, s)"
    and env: "env_ok env" and r: "run_action env p (m, s) u = Ret u'"
  shows "op_inv (u'\<lparr>hands := remove1 p (hands u'), acted := p # acted u'\<rparr>)" (is "op_inv ?u")
proof -
  from inv have i: "owned u" "live_ok u" "fds_ok u" "watch_ok u" by (simp_all add: op_inv_def)
  from in_hands [OF i(1)] p(1) have reg: "p \<notin> snd ` set (epoll u)" by blast
  from run_action_Ret [OF r] obtain m' s' where t: "TakeAction (session_action env) m (s\<lparr>st := tracker u\<rparr>) = Ret (m', s')"
    and u': "u' = u\<lparr>sessions := (sessions u)(p \<mapsto> (m', s')), tracker := st s'\<rparr>" .
  from other_session [OF i(2) p(2)] have "session.good m (s\<lparr>st := tracker u\<rparr>)" by simp
  from act_keeps [OF env this t] have good: "session.good m' s'" "sockets_of s' = sockets_of s"
    by (simp_all add: sockets_of_def)
  have e: "epoll ?u = epoll u" "pending ?u = pending u" "sessions ?u = (sessions u)(p \<mapsto> (m', s'))"
    "open_fds ?u = open_fds u" by (simp_all add: u')
  have old: "\<exists>m0 s0. sessions u q = Some (m0, s0) \<and> sockets_of s0 = sockets_of x" if "sessions ?u q = Some (n, x)" for q n x
    using that e(3) p(2) good(2) by (auto split: if_splits)
  have "mset (places ?u) = mset (places u)"
    using mset_take [OF p(1)] by (simp add: places_def u')
  from owned_moved [OF this _ i(1)] have "owned ?u" using e(3) p(2) by auto
  moreover have "live_ok ?u" using other_session [OF i(2)] good(1) e(3) by (auto simp: live_ok_def)
  moreover have "fds_ok ?u"
  proof (rule fds_okI)
    fix q n x assume "sessions ?u q = Some (n, x)"
    from old [OF this] fds_open [OF i(3)] e(4) show "sockets_of x \<subseteq> open_fds ?u" by metis
  next
    fix q q' n x n' x' fd
    assume "sessions ?u q = Some (n, x)" "sessions ?u q' = Some (n', x')" "fd \<in> sockets_of x" "fd \<in> sockets_of x'"
    with old [of q n x] old [of q' n' x'] one_owner [OF i(3), of q _ _ q' _ _ fd] show "q = q'" by metis
  qed
  moreover have "watch_ok ?u"
  proof (rule watch_okI)
    fix fd q assume q: "(fd, q) \<in> set (epoll ?u)"
    then have "q \<noteq> p" using e(1) reg by force
    with q watch_okD [OF i(4), of fd q] e(1,3) show "\<exists>m s. sessions ?u q = Some (m, s) \<and> IsWaiting s \<and> ev_fd (GetEpollEvent s) = fd"
      by auto
  qed (use watch_pending [OF i(4)] e(1,2) in simp_all)
  ultimately show ?thesis by (simp add: op_inv_def)
qed

lemma inv_take:
  assumes "op_inv u" "p \<in> set (hands u)" "env_ok env" "Work_take env p u = Ret (u', again)"
  shows "op_inv (u'\<lparr>hands := remove1 p (hands u'), acted := (if again then p # acted u' else acted u')\<rparr>)"
proof -
  from assms(1,2) obtain m s where p: "sessions u p = Some (m, s)"
    using in_hands(2) [of u p] by (auto simp: op_inv_def)
  show ?thesis
  proof (cases "terminated m")
    case True
    with assms(4) p have u': "u' = delete_session p s u" "\<not> again" by (auto simp: Work_take_def deref_def IsTerminated_def)
    then have "u'\<lparr>hands := remove1 p (hands u'), acted := (if again then p # acted u' else acted u')\<rparr>
        = (delete_session p s u)\<lparr>hands := remove1 p (hands u)\<rparr>" by (simp add: delete_session_def)
    with inv_delete [OF assms(1,2) p] show ?thesis by simp
  next
    case False
    with assms(4) p have "run_action env p (m, s) u = Ret u'" again
      by (auto simp: Work_take_def deref_def IsTerminated_def run_simps)
    with inv_acted [OF assms(1,2) p assms(3)] show ?thesis by simp
  qed
qed

lemma inv_same_sessions:
  assumes "op_inv u" "sessions u' = sessions u" "open_fds u' = open_fds u" "mset (places u') = mset (places u)" "watch_ok u'"
  shows "op_inv u'"
  using assms owned_moved [OF assms(4)] by (auto simp: op_inv_def live_ok_def fds_ok_def)

lemma inv_put:
  assumes inv: "op_inv u" and p: "p \<in> set (acted u)" and r: "Work_put p u = Ret u'"
  shows "op_inv (u'\<lparr>acted := remove1 p (acted u')\<rparr>)" (is "op_inv ?u")
proof -
  from inv have i: "owned u" "live_ok u" "fds_ok u" "watch_ok u" by (simp_all add: op_inv_def)
  from in_hands [OF i(1)] p obtain m s where s: "sessions u p = Some (m, s)" by blast
  note perm = mset_take [OF p]
  show ?thesis
  proof (cases "IsWaiting s")
    case False
    with r s have "u' = Submit p u" by (simp add: Work_put_def deref_def)
    then have e: "epoll ?u = epoll u" "pending ?u = pending u" "sessions ?u = sessions u" "open_fds ?u = open_fds u"
        "mset (places ?u) = mset (places u)"
      using perm by (simp_all add: places_def)
    show ?thesis by (rule inv_same_sessions [OF inv]) (use e i(4) in \<open>simp_all add: watch_ok_def\<close>)
  next
    case True
    let ?fd = "ev_fd (GetEpollEvent s)"
    from r s True have "u' = u\<lparr>epoll := (?fd, p) # epoll u\<rparr>"
      by (auto simp: Work_put_def AddToWatch_def deref_def Let_def split: if_splits)
    then have e: "epoll ?u = (?fd, p) # epoll u" "pending ?u = pending u" "sessions ?u = sessions u" "open_fds ?u = open_fds u"
        "mset (places ?u) = mset (places u)"
      using perm by (simp_all add: places_def)
    have "watch_ok ?u"
    proof (rule watch_okI)
      fix fd q assume "(fd, q) \<in> set (epoll ?u)"
      with e(1) s True watch_okD [OF i(4), of fd q]
      show "\<exists>m s. sessions ?u q = Some (m, s) \<and> IsWaiting s \<and> ev_fd (GetEpollEvent s) = fd"
        unfolding e(3) by auto
    qed (use watch_pending [OF i(4)] e(1,2) in auto)
    with e show ?thesis by (intro inv_same_sessions [OF inv]) simp_all
  qed
qed

lemma filter_one:
  "distinct (map snd xs) \<Longrightarrow> (fd, p) \<in> set xs \<Longrightarrow> (\<And>q. (fd, q) \<in> set xs \<Longrightarrow> q = p) \<Longrightarrow>
     mset (p # map snd (filter (\<lambda>e. fst e \<noteq> fd) xs)) = mset (map snd xs)"
proof (induction xs)
  case (Cons x xs)
  show ?case
  proof (cases "x = (fd, p)")
    case True
    have "fst e \<noteq> fd" if "e \<in> set xs" for e
    proof
      assume "fst e = fd"
      with that Cons.prems(3) [of "snd e"] have "snd e = p" by (metis list.set_intros(2) prod.collapse)
      with True that Cons.prems(1) show False by force
    qed
    then have "filter (\<lambda>e. fst e \<noteq> fd) xs = xs" by (simp add: filter_id_conv)
    with True show ?thesis by simp
  next
    case False
    with Cons.prems have "fst x \<noteq> fd" by (metis list.set_intros(1) prod.collapse)
    with Cons False show ?thesis by simp
  qed
qed simp

lemma inv_event:
  assumes inv: "op_inv u" and p: "pending u = p # ps" and r: "Watch_event p u = Ret u'"
  shows "op_inv (u'\<lparr>pending := ps\<rparr>)" (is "op_inv ?u")
proof -
  from inv have i: "owned u" "live_ok u" "fds_ok u" "watch_ok u" by (simp_all add: op_inv_def)
  from watch_pending [OF i(4)] p obtain fd where fd: "(fd, p) \<in> set (epoll u)" by auto
  from watch_okD [OF i(4) fd] obtain m s where s: "sessions u p = Some (m, s)" "ev_fd (GetEpollEvent s) = fd" by blast
  let ?es = "filter (\<lambda>e. fst e \<noteq> fd) (epoll u)"
  from r s have "u' = Submit p (u\<lparr>epoll := ?es\<rparr>)"
    by (auto simp: Watch_event_def deref_def Let_def split: if_splits)
  then have e: "epoll ?u = ?es" "pending ?u = ps" "sessions ?u = sessions u" "open_fds ?u = open_fds u" by simp_all
  have dist: "distinct (map snd (epoll u))" using i(1) by (simp add: owned_def places_def)
  note perm = filter_one [OF dist fd epoll_one [OF i(3,2,4) _ fd]]
  then have "mset (places ?u) = mset (places u)" using \<open>u' = _\<close> by (simp add: places_def)
  moreover have "watch_ok ?u"
  proof (rule watch_okI)
    fix fd' q assume "(fd', q) \<in> set (epoll ?u)"
    with e watch_okD [OF i(4), of fd' q] show "\<exists>m s. sessions ?u q = Some (m, s) \<and> IsWaiting s \<and> ev_fd (GetEpollEvent s) = fd'"
      by simp
  next
    show "distinct (pending ?u)" using watch_pending [OF i(4)] p e(2) by simp
    from mset_eq_setD [OF perm] have "snd ` set (epoll u) = insert p (snd ` set ?es)" by simp
    with watch_pending [OF i(4)] p e(1,2) show "set (pending ?u) \<subseteq> snd ` set (epoll ?u)" by auto
  qed
  ultimately show ?thesis using e by (intro inv_same_sessions [OF inv]) simp_all
qed

lemma op_step_inv: "op_step u u' \<Longrightarrow> op_inv u \<Longrightarrow> op_inv u'"
proof (induction rule: op_step.induct)
  case (accept u p cl sv)
  then show ?case by (simp add: inv_accept)
next
  case (wait u ps w u')
  from wait.prems have i: "watch_ok u" by (simp add: op_inv_def)
  from wait.hyps have u': "u' = u \<or> u' = u\<lparr>pending := ps\<rparr>" by auto
  have "watch_ok (u\<lparr>pending := ps\<rparr>)" using i wait.hyps(3) unfolding watch_ok_def by auto
  with inv_same_sessions [OF wait.prems, of "u\<lparr>pending := ps\<rparr>"]
  have "op_inv (u\<lparr>pending := ps\<rparr>)" by (simp add: places_def)
  with u' wait.prems show ?case by auto
next
  case (stop u)
  then have "watch_ok u" by (simp add: op_inv_def)
  then show ?case
    by (intro inv_same_sessions [OF stop])
       (simp_all add: SessionOperator_Stop_def ThreadPool_Stop_def places_def watch_ok_def)
next
  case (take p u env u' again)
  from inv_take [OF take.prems take.hyps] show ?case .
qed (rule inv_pop inv_put inv_event; assumption)+

lemma op_reach_inv: "op_reach u \<Longrightarrow> op_inv u"
  by (induction rule: op_reach.induct) (blast intro: inv_new op_step_inv)+

section \<open>How the process ends\<close>

lemma RecvFrom_no_throw [simp]: "RecvFrom b es \<noteq> Throw e"
proof -
  have "recv_loop b es \<noteq> Throw e" for b
    by (induction b es rule: recv_loop.induct) (auto simp: recv_loop.simps split: prod.splits recv_res.splits)
  then show ?thesis by (simp add: RecvFrom_def)
qed

lemma respond_error_no_throw [simp]: "respond_error x s \<noteq> Throw e"
  using SetError_cases [of x "c_response (ctx s)"] by (auto simp: respond_error_def run_simps split: if_splits)

lemma ready_no_throw [simp]: "ready_for_query i d n \<noteq> Throw e"
  by (auto simp: ready_for_query_def run_simps)

lemma only_initiate_throws: "session_action env n s = Throw e \<Longrightarrow> n = INITIATE"
  by (cases n) (auto simp: session_action_def PrepareToReceiveRequest_def PrepareToForwardRequest_def
      PrepareToReceiveResponse_def PrepareToForwardResponse_def ForwardRequest_def ForwardResponse_def ResetContext_def
      ReceiveRequest_def ReceiveResponse_def ApplyPreRequestPlugins_def ApplyPostResponsePlugins_def run_simps Let_def
      split: prod.splits run.splits if_splits)

lemma action_fault:
  assumes "session.good m s" "run_action env p (m, s) u = Crash c" "\<not> terminated m"
  obtains n where "current_state m = Some n"
    "session_action env n (s\<lparr>st := tracker u\<rparr>) = Crash c
     \<or> n = INITIATE \<and> c = Terminate \<and> (\<exists>e. session_action env n (s\<lparr>st := tracker u\<rparr>) = Throw e)"
proof -
  from assms(1,3) obtain n where n: "current_state m = Some n" by (auto simp: session.good_def)
  with assms(2,3) have "session_action env n (s\<lparr>st := tracker u\<rparr>) = Crash c
     \<or> c = Terminate \<and> (\<exists>e. session_action env n (s\<lparr>st := tracker u\<rparr>) = Throw e)"
    by (auto simp: run_action_def TakeAction_def run_simps split: run.splits)
  with that [OF n] only_initiate_throws show thesis by blast
qed

lemma put_no_fault:
  assumes inv: "op_inv u" and p: "p \<in> set (acted u)"
  shows "\<exists>u'. Work_put p u = Ret u'"
proof -
  from inv have i: "owned u" "live_ok u" "fds_ok u" "watch_ok u" by (simp_all add: op_inv_def)
  from p have "p \<in> set (hands u) \<union> set (acted u)" by simp
  note reg = in_hands(1) [OF i(1) this] and live = in_hands(2) [OF i(1) this]
  from live obtain m s where s: "sessions u p = Some (m, s)" by blast
  show ?thesis
  proof (cases "IsWaiting s")
    case True
    let ?fd = "ev_fd (GetEpollEvent s)"
    from good_waits [OF other_session [OF i(2) s] True] have fd: "?fd \<in> sockets_of s" .
    then have "?fd \<in> open_fds u" using fds_open [OF i(3) s] by blast
    moreover have "?fd \<notin> fst ` set (epoll u)" using epoll_other [OF i(3,2,4) s reg] fd by force
    ultimately show ?thesis using s True by (simp add: Work_put_def AddToWatch_def deref_def Let_def)
  qed (simp add: Work_put_def deref_def s)
qed

lemma event_no_fault:
  assumes inv: "op_inv u" and p: "pending u = p # ps"
  shows "\<exists>u'. Watch_event p u = Ret u'"
proof -
  from inv have w: "watch_ok u" by (simp add: op_inv_def)
  with watch_pending [OF w] p obtain fd where fd: "(fd, p) \<in> set (epoll u)" by auto
  from watch_okD [OF w fd] obtain m s where "sessions u p = Some (m, s)" "ev_fd (GetEpollEvent s) = fd" by blast
  moreover have "fd \<in> fst ` set (epoll u)" using fd by force
  ultimately show ?thesis by (simp add: Watch_event_def deref_def Let_def)
qed

lemma fault_in_action:
  assumes inv: "op_inv u" and f: "op_fault u c"
  obtains p m s env n where "p \<in> set (hands u)" "sessions u p = Some (m, s)" "current_state m = Some n"
    "sess_inv (Some n) s" "env_ok env"
    "session_action env n (s\<lparr>st := tracker u\<rparr>) = Crash c
     \<or> n = INITIATE \<and> c = Terminate \<and> (\<exists>e. session_action env n (s\<lparr>st := tracker u\<rparr>) = Throw e)"
  using f
proof (cases rule: op_fault.cases)
  case (take p env)
  from inv take(1) obtain m s where s: "sessions u p = Some (m, s)" using in_hands(2) [of u p] by (auto simp: op_inv_def)
  with take(3) have f: "run_action env p (m, s) u = Crash c" "\<not> terminated m"
    by (auto simp: Work_take_def deref_def IsTerminated_def run_simps split: if_splits)
  from inv have good: "session.good m s" using other_session [OF _ s] by (simp add: op_inv_def)
  from action_fault [OF this f] obtain n where n: "current_state m = Some n"
    "session_action env n (s\<lparr>st := tracker u\<rparr>) = Crash c
     \<or> n = INITIATE \<and> c = Terminate \<and> (\<exists>e. session_action env n (s\<lparr>st := tracker u\<rparr>) = Throw e)" .
  moreover have "sess_inv (Some n) s" using good n(1) by (simp add: session.good_def)
  ultimately show thesis using that take s by blast
next
  case (put p)
  with put_no_fault [OF inv] show thesis by fastforce
next
  case (event p ps)
  with event_no_fault [OF inv] show thesis by fastforce
qed

section \<open>The end of a session\<close>

lemma put_waiting:
  assumes "op_inv u" "p \<in> set (acted u)" "sessions u p = Some (m, s)" "IsWaiting s"
  shows "op_step u (u\<lparr>epoll := (ev_fd (GetEpollEvent s), p) # epoll u, acted := remove1 p (acted u)\<rparr>)"
proof -
  from put_no_fault [OF assms(1,2)] assms(3,4)
  have "Work_put p u = Ret (u\<lparr>epoll := (ev_fd (GetEpollEvent s), p) # epoll u\<rparr>)"
    by (auto simp: Work_put_def AddToWatch_def deref_def Let_def split: if_splits)
  from op_step.put [OF assms(2) this] show ?thesis by simp
qed

lemma end_of_session:
  assumes inv: "op_inv u" and p: "p \<in> set (acted u)" "sessions u p = Some (m, s)" "terminated m"
    and idle: "\<not> stopped (thread_pool u)" "pending u = []" "job_queue (thread_pool u) = []" and env: "env_ok env"
  shows "\<exists>u'. op_step\<^sup>*\<^sup>* u u' \<and> sessions u' = (sessions u)(p := None) \<and> open_fds u' = open_fds u - sockets_of s"
proof -
  let ?fd = "ev_fd (GetEpollEvent s)"
  have "session.good m s" using inv p(2) by (auto simp: op_inv_def live_ok_def)
  then have w: "IsWaiting s" using p(3) by (auto simp: session.good_def sess_inv.simps waits_right_def)
  let ?u1 = "u\<lparr>epoll := (?fd, p) # epoll u, acted := remove1 p (acted u)\<rparr>"
  note s1 = put_waiting [OF inv p(1,2) w]
  let ?u2 = "?u1\<lparr>pending := [p]\<rparr>"
  have s2: "op_step ?u1 ?u2"
    by (rule op_step.wait [where ps = "[p]" and w = "Ready [p]"])
       (simp_all add: idle ThreadPool_IsStopped_def MAX_EVENTS_def)
  let ?u3 = "Submit p (?u2\<lparr>epoll := filter (\<lambda>e. fst e \<noteq> ?fd) (epoll ?u2)\<rparr>)"
  have s3: "op_step ?u2 (?u3\<lparr>pending := []\<rparr>)"
    by (rule op_step.event [where p = p]) (simp_all add: Watch_event_def deref_def p Let_def)
  let ?u4 = "?u3\<lparr>pending := [], thread_pool := (thread_pool ?u3)\<lparr>job_queue := []\<rparr>, hands := p # hands u\<rparr>"
  have s4: "op_step (?u3\<lparr>pending := []\<rparr>) ?u4"
    using op_step.pop [of "?u3\<lparr>pending := []\<rparr>" p "[]"] idle(1,3)
    by (simp add: ThreadPool_IsStopped_def Submit_def ThreadPool_Submit_def Push_def)
  have "Work_take env p ?u4 = Ret (delete_session p s ?u4, False)"
    by (simp add: Work_take_def deref_def p IsTerminated_def)
  let ?d = "delete_session p s ?u4"
  have s5: "op_step ?u4 (?d\<lparr>hands := remove1 p (hands ?d), acted := (if False then p # acted ?d else acted ?d)\<rparr>)"
    (is "op_step _ ?u5") by (rule op_step.take [OF _ env \<open>Work_take env p ?u4 = _\<close>]) simp
  have "sessions ?u5 = (sessions u)(p := None)" "open_fds ?u5 = open_fds u - sockets_of s"
    by (simp_all add: delete_session_def sockets_of_def)
  moreover have "op_step\<^sup>*\<^sup>* u ?u5"
    using s1 s2 s3 s4 s5 by (meson converse_rtranclp_into_rtranclp rtranclp.rtrancl_refl)
  ultimately show ?thesis by blast
qed

section \<open>One session alone\<close>

definition in_hand :: "nat \<Rightarrow> session_obj \<Rightarrow> op_sys \<Rightarrow> bool" where
  \<comment> \<open>a running operator in which a worker has just popped the only pointer\<close>
  "in_hand p x u \<longleftrightarrow> op_reach u \<and> \<not> stopped (thread_pool u) \<and> job_queue (thread_pool u) = [] \<and> hands u = [p]
     \<and> acted u = [] \<and> epoll u = [] \<and> pending u = [] \<and> sessions u p = Some x \<and> tracker u = st (snd x)"

lemma steps_reach: "op_step\<^sup>*\<^sup>* u u' \<Longrightarrow> op_reach u \<Longrightarrow> op_reach u'"
  by (induction rule: rtranclp_induct) (auto intro: op_reach.step)

lemma queued_popped:
  assumes "op_reach u" "\<not> stopped (thread_pool u)" "job_queue (thread_pool u) = [p]" "hands u = []" "acted u = []" "epoll u = []"
    "pending u = []" "sessions u p = Some x" "tracker u = st (snd x)"
  shows "in_hand p x (u\<lparr>thread_pool := (thread_pool u)\<lparr>job_queue := []\<rparr>, hands := [p]\<rparr>)"
proof -
  have "op_step u (u\<lparr>thread_pool := (thread_pool u)\<lparr>job_queue := []\<rparr>, hands := [p]\<rparr>)"
    using op_step.pop [of u p "[]"] assms by (simp add: ThreadPool_IsStopped_def)
  from op_reach.step [OF assms(1) this] assms show ?thesis by (simp add: in_hand_def)
qed

lemma new_in_hand:
  assumes "0 \<le> cl" "0 \<le> sv" "cl \<noteq> sv"
  shows "\<exists>u. in_hand 0 (SetInitialState PREPARE_TO_RECEIVE_REQUEST, Session_new cl sv t) u"
proof -
  let ?u = "\<lparr>thread_pool = ThreadPool_new 4 4, epoll = [], open_fds = {}, sessions = (\<lambda>_. None), tracker = t,
      hands = [], acted = [], pending = []\<rparr>"
  have "SessionOperator_new 4 4 t 3 = Ret ?u" by (simp add: SessionOperator_new_def)
  from op_reach.init [OF this] have r: "op_reach ?u" .
  have "op_step ?u (accept_session 0 cl sv ?u)" by (rule op_step.accept) (use assms in simp_all)
  from op_reach.step [OF r this]
  have "in_hand 0 (SetInitialState PREPARE_TO_RECEIVE_REQUEST, Session_new cl sv t)
    ((accept_session 0 cl sv ?u)\<lparr>thread_pool := (thread_pool (accept_session 0 cl sv ?u))\<lparr>job_queue := []\<rparr>, hands := [0]\<rparr>)"
    by (rule queued_popped)
       (simp_all add: accept_session_def Submit_def ThreadPool_Submit_def ThreadPool_new_def Push_def Session_new_def)
  then show ?thesis by blast
qed

lemma turn:
  assumes h: "in_hand p (m, s) u" and env: "env_ok env" and t: "\<not> terminated m"
    "TakeAction (session_action env) m s = Ret (m', s')"
  shows "\<exists>u'. in_hand p (m', s') u'"
proof -
  from h have u: "op_reach u" "\<not> stopped (thread_pool u)" "job_queue (thread_pool u) = []" "hands u = [p]" "acted u = []"
    "epoll u = []" "pending u = []" "sessions u p = Some (m, s)" "tracker u = st s" by (simp_all add: in_hand_def)
  let ?v = "u\<lparr>sessions := (sessions u)(p \<mapsto> (m', s')), tracker := st s'\<rparr>"
  have "Work_take env p u = Ret (?v, True)"
    using u(8,9) t by (simp add: Work_take_def deref_def IsTerminated_def run_action_def)
  from op_step.take [OF _ env this] u(4,5)
  have "op_step u (?v\<lparr>hands := [], acted := [p]\<rparr>)" (is "op_step u ?w") by simp
  from op_reach.step [OF u(1) this] have w: "op_reach ?w" .
  show ?thesis
  proof (cases "IsWaiting s'")
    case False
    then have "Work_put p ?w = Ret (Submit p ?w)" by (simp add: Work_put_def deref_def)
    from op_step.put [OF _ this] have "op_step ?w ((Submit p ?w)\<lparr>acted := []\<rparr>)" by simp
    note r = op_reach.step [OF w this]
    show ?thesis
      by (rule exI, rule queued_popped [OF r]) (use u in \<open>simp_all add: Submit_def ThreadPool_Submit_def Push_def\<close>)
  next
    case True
    let ?fd = "ev_fd (GetEpollEvent s')"
    have "op_step ?w (?w\<lparr>epoll := [(?fd, p)], acted := []\<rparr>)"
      using put_waiting [OF op_reach_inv [OF w] _ _ True, of p m'] u(6) by simp
    from op_reach.step [OF w this] have r: "op_reach (?w\<lparr>epoll := [(?fd, p)], acted := []\<rparr>)" (is "op_reach ?x") .
    have "op_step ?x (?x\<lparr>pending := [p]\<rparr>)"
      by (rule op_step.wait [where ps = "[p]" and w = "Ready [p]"])
         (simp_all add: u ThreadPool_IsStopped_def MAX_EVENTS_def)
    from op_reach.step [OF r this] have r: "op_reach (?x\<lparr>pending := [p]\<rparr>)" (is "op_reach ?y") .
    have "op_step ?y ((Submit p (?y\<lparr>epoll := []\<rparr>))\<lparr>pending := []\<rparr>)"
      by (rule op_step.event [where p = p]) (simp_all add: Watch_event_def deref_def Let_def)
    note q = op_reach.step [OF r this]
    show ?thesis
      by (rule exI, rule queued_popped [OF q]) (use u in \<open>simp_all add: Submit_def ThreadPool_Submit_def Push_def\<close>)
  qed
qed

lemma turn_next:
  assumes "\<exists>u. in_hand p (SetInitialState n, s) u" "env_ok env" "session_action env n s = Ret (Some n', s')"
  shows "\<exists>u. in_hand p (SetInitialState n', s') u"
proof -
  from assms(1) obtain u where "in_hand p (SetInitialState n, s) u" ..
  then show ?thesis
    by (rule turn [OF _ assms(2)]) (use assms(3) in \<open>simp_all add: TakeAction_def SetInitialState_def\<close>)
qed

lemma in_hand_fault:
  assumes "in_hand p (SetInitialState n, s) u" "env_ok env" "Work_take env p u = Crash c"
  shows "op_reach u \<and> op_fault u c"
  using assms op_fault.take [of p u env c] by (simp add: in_hand_def)

section \<open>Properties\<close>

text \<open>C10. However the workers, the watcher and the accepting thread interleave, every live session is in exactly
  one place: the job queue, the hands of one worker, or the epoll instance. No thread runs a session that
  another thread has, none is forgotten, and a deleted session is nowhere.\<close>
theorem sessions_owned:
  assumes "op_reach u"
  shows "distinct (places u) \<and> set (places u) = dom (sessions u)"
  using op_reach_inv [OF assms] by (simp add: op_inv_def owned_def)


text \<open>C28. A startup message whose user the database does not know ends the whole proxy: the query for the role
  throws, and nothing between the action and the thread catches it.\<close>
theorem unknown_user_ends_proxy:
  assumes "sessions u p = Some (SetInitialState INITIATE, s)" "buf (request_of s) = pre @ encode_params kvs @ r"
    "length pre = 8" "8 < Buffer_Size (request_of s)" "list_all param_ok kvs" "distinct (map fst kvs)" "(''user'', v) \<in> set kvs"
    "e_conn env" "e_work env = None" "e_exec1 env (rolsuper_sql v) = Inl x"
  shows "Work_take env p u = Crash Terminate"
proof -
  let ?s = "s\<lparr>st := tracker u\<rparr>"
  let ?ps = "foldl store_param (parameters s) kvs"
  have r: "request_of ?s = request_of s" "parameters ?s = parameters s" by simp_all
  have "parse_params (buf (request_of s)) 8 (parameters s) = Ret ?ps"
    using parse_params_encoded [OF assms(5), of pre r "parameters s"] assms(2,3) by simp
  moreover have "byte_at (buf (request_of s)) 7 = Ret (buf (request_of s) ! 7)"
    using assms(2,3) by (intro byte_at_Ret) simp
  moreover have "lookup_rolsuper env (?s\<lparr>parameters := ?ps\<rparr>) = (?s\<lparr>parameters := smap_touch ?ps ''user''\<rparr>, Throw x)"
    using assms(8-10) store_params_get [OF assms(6,7), of "parameters s"]
    by (simp add: lookup_rolsuper_def begin_work_def)
  ultimately have "Initiate env ?s = Throw x" using assms(4) unfolding Initiate_def r by simp
  then show ?thesis
    using assms(1) by (simp add: Work_take_def deref_def IsTerminated_def SetInitialState_def run_action_def
        TakeAction_def session_action_def)
qed

text \<open>A server connection whose socket could not be created ends the whole proxy: the constructor only
  prints the failure, and when its session is to forward the first request, the registration of the
  descriptor \<open>-1\<close> fails and the worker calls \<open>exit\<close>.\<close>
theorem failed_socket_ends_proxy:
  assumes "sessions u p = Some (SetInitialState PREPARE_TO_FORWARD_REQUEST, s)" "sv_socket s = -1" "\<forall>fd \<in> open_fds u. 0 \<le> fd"
  shows "\<exists>u'. Work_take env p u = Ret (u', True) \<and> Work_put p u' = Crash ExitFailure"
  using assms by (fastforce simp: Work_take_def deref_def IsTerminated_def SetInitialState_def run_action_def
      TakeAction_def session_action_def PrepareToForwardRequest_def wait_for_def Work_put_def AddToWatch_def
      IsWaiting_def GetEpollEvent_def Let_def)


section \<open>Concrete interleavings\<close>

lemma sessions_owned_witness:
  "\<exists>u. sessions u 0 \<noteq> None \<and> distinct (places u) \<and> set (places u) = dom (sessions u)"
proof -
  obtain u where u: "in_hand 0 (SetInitialState PREPARE_TO_RECEIVE_REQUEST, Session_new 3 4 None) u"
    using new_in_hand [of 3 4 None] by auto
  then have "op_reach u" "sessions u 0 \<noteq> None" by (simp_all add: in_hand_def)
  with sessions_owned [of u] show ?thesis by blast
qed

definition startup_message :: string where
  "startup_message = replicate 8 (CHR 0x01) @ encode_params [(''user'', ''joe'')]"

definition no_user_env :: env where
  "no_user_env = sample_env\<lparr>e_sock := [Bytes startup_message], e_exec1 := \<lambda>_. Inl (StdException [])\<rparr>"

lemma no_user_env_ok: "env_ok no_user_env"
  by (simp add: env_ok_def no_user_env_def sample_env_def)

lemma receives_first:
  assumes "d \<noteq> []" "length d \<le> 1024" "e_sock env = [Bytes d]"
  shows "session_action env RECEIVE_REQUEST (wait_for 3 EPOLLIN (Session_new 3 4 None))
    = Ret (Some INITIATE, stop_waiting (set_request (sample_buffer d) (wait_for 3 EPOLLIN (Session_new 3 4 None))))"
proof -
  have "PrintInfo FRONTEND (buf (sample_buffer d)) (length d) = Ret ()"
    by (rule PrintInfo_front) (use assms in \<open>simp_all add: sample_buffer_big\<close>)
  moreover have "request_of (wait_for 3 EPOLLIN (Session_new 3 4 None)) = Buffer_new"
    "\<not> c_initiated (ctx (wait_for 3 EPOLLIN (Session_new 3 4 None)))"
    by (simp_all add: wait_for_def Session_new_def Context_new_def request_of_def)
  ultimately show ?thesis using RecvFrom_sample [OF assms(1,2)] assms
    by (simp add: session_action_def ReceiveRequest_def Let_def set_request_def)
qed

lemma prepares_first:
  "session_action env PREPARE_TO_RECEIVE_REQUEST (Session_new 3 4 None) = Ret (Some RECEIVE_REQUEST, wait_for 3 EPOLLIN (Session_new 3 4 None))"
  by (simp add: session_action_def PrepareToReceiveRequest_def) (simp add: Session_new_def)

definition starting :: Session where
  "starting = stop_waiting (set_request (sample_buffer startup_message) (wait_for 3 EPOLLIN (Session_new 3 4 None)))"

lemma starting_in_hand: "\<exists>u. in_hand 0 (SetInitialState INITIATE, starting) u"
proof -
  have "\<exists>u. in_hand 0 (SetInitialState PREPARE_TO_RECEIVE_REQUEST, Session_new 3 4 None) u"
    by (rule new_in_hand) simp_all
  from turn_next [OF this no_user_env_ok prepares_first]
  have "\<exists>u. in_hand 0 (SetInitialState RECEIVE_REQUEST, wait_for 3 EPOLLIN (Session_new 3 4 None)) u" .
  moreover have "session_action no_user_env RECEIVE_REQUEST (wait_for 3 EPOLLIN (Session_new 3 4 None)) = Ret (Some INITIATE, starting)"
    unfolding starting_def by (rule receives_first) (simp_all add: startup_message_def no_user_env_def)
  ultimately show ?thesis by (rule turn_next [OF _ no_user_env_ok])
qed

lemma starting_simps [simp]: "request_of starting = sample_buffer startup_message"
  by (simp add: starting_def stop_waiting_def set_request_def request_of_def)

lemma unknown_user_ends_proxy_witness:
  "\<exists>u. in_hand 0 (SetInitialState INITIATE, starting) u \<and> Work_take no_user_env 0 u = Crash Terminate"
proof -
  from starting_in_hand obtain u where u: "in_hand 0 (SetInitialState INITIATE, starting) u" ..
  have "Work_take no_user_env 0 u = Crash Terminate"
  proof (rule unknown_user_ends_proxy [where pre = "replicate 8 (CHR 0x01)" and kvs = "[(''user'', ''joe'')]"
        and r = "replicate 2030 NUL" and v = "''joe''"])
    show "sessions u 0 = Some (SetInitialState INITIATE, starting)" using u by (simp add: in_hand_def)
  qed (simp_all add: startup_message_def sample_buffer_def Buffer_Size_def param_ok_def no_user_env_def sample_env_def)
  with u show ?thesis by blast
qed


lemma failed_socket_ends_proxy_witness:
  "\<exists>u'. Work_take sample_env 0 \<lparr>thread_pool = ThreadPool_new 4 4, epoll = [], open_fds = {3},
      sessions = [0 \<mapsto> (SetInitialState PREPARE_TO_FORWARD_REQUEST, Session_new 3 (-1) None)], tracker = None,
      hands = [0], acted = [], pending = []\<rparr> = Ret (u', True)
    \<and> Work_put 0 u' = Crash ExitFailure"
  by (rule failed_socket_ends_proxy [where s = "Session_new 3 (-1) None"]) (simp_all add: Session_new_def)


end
