(* ===== verification/ProxyServer.thy ===== *)
theory ProxyServer
  imports SessionOperator Schema
begin

text \<open>
  \<open>conn/client-conn.cpp\<close>, \<open>conn/server-conn.cpp\<close>, \<open>proxy-server/proxy-server.cpp\<close> and
  \<open>bin/pg-fort/main.cpp\<close>: how the process starts, accepts clients and connects them to the server.
  What a system call returns is an argument. The constructors only print the failures of their calls, so
  they return what they printed.
\<close>

unbundle bit_operations_syntax

datatype failure =
    SocketFailed int | SetsockoptFailed | BindFailed | FcntlFailed | ListenFailed | GetaddrinfoFailed int | ConnectFailed int

section \<open>Connections\<close>

definition ClientConn_new :: "int \<Rightarrow> int \<Rightarrow> int \<times> failure list" where
  \<comment> \<open>the accepted socket and what \<open>fcntl\<close> returns\<close>
  "ClientConn_new sock fcntl_res = (sock, if fcntl_res < 0 then [FcntlFailed] else [])"

fun connect_first :: "('a \<Rightarrow> int) \<Rightarrow> int \<Rightarrow> 'a list \<Rightarrow> int" where
  \<comment> \<open>the loop over the addresses: the result of the last \<open>connect\<close>\<close>
  "connect_first conn res [] = res"
| "connect_first conn res (a # as) = (if conn a = 0 then 0 else connect_first conn (conn a) as)"

definition ServerConn_new :: "string \<Rightarrow> string \<Rightarrow> int \<Rightarrow> (string \<Rightarrow> string \<Rightarrow> int + 'a list) \<Rightarrow> ('a \<Rightarrow> int) \<Rightarrow> int
    \<Rightarrow> (int \<times> failure list) run" where
  \<comment> \<open>host and port, and what \<open>socket\<close>, \<open>getaddrinfo\<close>, \<open>connect\<close> and \<open>fcntl\<close> return; when \<open>getaddrinfo\<close>
     fails, the list of addresses was never set, and the loop and \<open>freeaddrinfo\<close> use it all the same\<close>
  "ServerConn_new host port sock getaddrinfo conn fcntl_res =
     (let log = (if sock < 0 then [SocketFailed sock] else [])
      in case getaddrinfo host port of
           Inl e \<Rightarrow> Crash Uninitialised
         | Inr addrs \<Rightarrow>
             let res = connect_first conn 0 addrs
             in Ret (sock, log @ (if res \<noteq> 0 then [ConnectFailed res]
                                  else if fcntl_res < 0 then [FcntlFailed] else [])))"

record ServerConnFactory =
  scf_host :: string
  scf_port :: string

definition ServerConnFactory_new :: "string \<Rightarrow> string \<Rightarrow> ServerConnFactory" where
  "ServerConnFactory_new host port = \<lparr>scf_host = host, scf_port = port\<rparr>"

definition CreateServerConn :: "ServerConnFactory \<Rightarrow> int \<Rightarrow> (string \<Rightarrow> string \<Rightarrow> int + 'a list) \<Rightarrow> ('a \<Rightarrow> int) \<Rightarrow> int
    \<Rightarrow> (int \<times> failure list) run" where
  "CreateServerConn f = ServerConn_new (scf_host f) (scf_port f)"

lemma connect_first_0: "connect_first conn 0 as = 0 \<longleftrightarrow> as = [] \<or> (\<exists>a \<in> set as. conn a = 0)"
proof -
  have "r \<noteq> 0 \<Longrightarrow> connect_first conn r as = 0 \<longleftrightarrow> (\<exists>a \<in> set as. conn a = 0)" for r
    by (induction as arbitrary: r) auto
  then show ?thesis by (cases as) auto
qed

section \<open>The server\<close>

record ProxyServer =
  ps_port :: "16 word"
  ps_sock :: int
  ps_scf :: ServerConnFactory
  ps_so :: op_sys

definition htons :: "16 word \<Rightarrow> 16 word" where
  \<comment> \<open>on a little-endian machine\<close>
  "htons w = push_bit 8 w OR drop_bit 8 w"

definition ProxyServer_new :: "int \<Rightarrow> ServerConnFactory \<Rightarrow> int \<Rightarrow> int \<Rightarrow> int \<Rightarrow> int \<Rightarrow> int \<Rightarrow> nat \<Rightarrow> SchemaTracker option \<Rightarrow> int
    \<Rightarrow> (ProxyServer \<times> failure list) run" where
  \<comment> \<open>the port and the factory; what \<open>socket\<close>, \<open>setsockopt\<close>, \<open>bind\<close>, \<open>fcntl\<close> and \<open>listen\<close> return; the number of
     processors, the tracker, and what \<open>epoll_create1\<close> returns for the operator of four threads\<close>
  "ProxyServer_new port scf sock setsockopt_res bind_res fcntl_res listen_res hw t epollfd =
     bind_run (SessionOperator_new 4 hw t epollfd) (\<lambda>so.
       Ret (\<lparr>ps_port = htons (word_of_int port), ps_sock = sock, ps_scf = scf, ps_so = so\<rparr>,
            (if sock < 0 then [SocketFailed sock] else [])
            @ (if setsockopt_res < 0 then [SetsockoptFailed] else [])
            @ (if bind_res < 0 then [BindFailed] else [])
            @ (if fcntl_res < 0 then [FcntlFailed] else [])
            @ (if listen_res < 0 then [ListenFailed] else [])))"

text \<open>
  One turn of the loop of \<open>Run\<close> finds what its system calls return and the address \<open>new\<close> returns. Like
  the kernel of the build target, \<open>select\<close> writes the time it did not wait back into its argument, which the
  loop sets only once.
\<close>

record 'a turn_env =
  t_select :: "nat \<Rightarrow> int \<times> nat"
  t_accept :: int
  t_fcntl :: int
  t_socket :: int
  t_addrinfo :: "string \<Rightarrow> string \<Rightarrow> int + 'a list"
  t_connect :: "'a \<Rightarrow> int"
  t_new :: nat

definition select_timeout :: nat where "select_timeout = 3000000"

definition Run_turn :: "ServerConnFactory \<Rightarrow> 'a turn_env \<Rightarrow> nat \<times> op_sys \<Rightarrow> (nat \<times> op_sys) run" where
  "Run_turn scf e x =
     (case x of (timeout, u) \<Rightarrow>
      case t_select e timeout of (res, left) \<Rightarrow>
        if res = 0 then Ret (left, u)
        else if res < 0 then Ret (left, u)
        else if t_accept e < 0 then Ret (left, u)
        else (case ClientConn_new (t_accept e) (t_fcntl e) of (cl, _) \<Rightarrow>
              bind_run (CreateServerConn scf (t_socket e) (t_addrinfo e) (t_connect e) (t_fcntl e)) (\<lambda>(sv, _).
                Ret (left, accept_session (t_new e) cl sv u))))"

fun Run_turns :: "ServerConnFactory \<Rightarrow> 'a turn_env list \<Rightarrow> nat \<times> op_sys \<Rightarrow> (nat \<times> op_sys) run" where
  "Run_turns scf [] x = Ret x"
| "Run_turns scf (e # es) x = bind_run (Run_turn scf e x) (Run_turns scf es)"

definition ProxyServer_Run :: "'a turn_env list \<Rightarrow> ProxyServer \<Rightarrow> (nat \<times> op_sys) run" where
  \<comment> \<open>the loop has no end; this is its state after some turns\<close>
  "ProxyServer_Run es s = Run_turns (ps_scf s) es (select_timeout, ps_so s)"

section \<open>The program\<close>

fun digits_value :: "string \<Rightarrow> int \<Rightarrow> int" where
  "digits_value [] n = n"
| "digits_value (c # cs) n =
     (let d = of_char c - 48 in if 0 \<le> d \<and> d \<le> 9 then digits_value cs (10 * n + d) else n)"

definition atoi :: "string \<Rightarrow> int" where
  \<comment> \<open>white space, a sign, digits; the conversion to \<open>int\<close> of what \<open>strtol\<close> returns\<close>
  "atoi s =
     (let t = dropWhile (\<lambda>c. c \<in> {CHR '' '', CHR 0x09, CHR 0x0A, CHR 0x0B, CHR 0x0C, CHR 0x0D}) s;
          v = (case t of [] \<Rightarrow> 0
               | c # cs \<Rightarrow> if c = CHR ''-'' then - digits_value cs 0 else if c = CHR ''+'' then digits_value cs 0
                          else digits_value t 0)
      in to_int32 (max (- (2 ^ 63)) (min (2 ^ 63 - 1) v)))"

definition proxy_main :: "string list \<Rightarrow> (nat \<Rightarrow> exn option) \<Rightarrow> string list run \<Rightarrow>
    (int \<Rightarrow> ServerConnFactory \<Rightarrow> SchemaTracker \<Rightarrow> (ProxyServer \<times> failure list) run) \<Rightarrow> (PqxxConnPool \<times> ProxyServer \<times> failure list) run" where
  \<comment> \<open>up to \<open>Run\<close>: the arguments, the attempts to connect to the database, the rows of the catalog, and the
     construction of the server; nothing catches an exception\<close>
  "proxy_main argv connect catalog server =
     (if length argv \<noteq> 4 then Crash ExitFailure
      else
        (case PqxxConnPool_new connect 10 of
           Ret pcp \<Rightarrow>
             (case Acquire 500 pcp [] of
                Some (pcp, c) \<Rightarrow>
                  (case Refresh [] (Some c) catalog of
                     Ret t \<Rightarrow>
                       bind_run (PqxxConn_delete connect pcp) (\<lambda>pcp.
                       bind_run (server (atoi (argv ! 1)) (ServerConnFactory_new (argv ! 2) (argv ! 3)) t) (\<lambda>(s, log). Ret (pcp, s, log)))
                   | Throw x \<Rightarrow> Crash Terminate
                   | Crash f \<Rightarrow> Crash f)
              | None \<Rightarrow> Crash NullDeref)
         | Throw x \<Rightarrow> Crash Terminate
         | Crash f \<Rightarrow> Crash f))"

section \<open>Accepting\<close>

definition turn_ok :: "'a turn_env \<Rightarrow> op_sys \<Rightarrow> bool" where
  \<comment> \<open>what \<open>accept\<close>, \<open>socket\<close> and \<open>new\<close> return is not in use; both sockets were created\<close>
  "turn_ok e u \<longleftrightarrow> (0 \<le> t_accept e \<longrightarrow> sessions u (t_new e) = None \<and> 0 \<le> t_socket e \<and> t_accept e \<noteq> t_socket e
     \<and> t_accept e \<notin> open_fds u \<and> t_socket e \<notin> open_fds u)"

lemma Run_turn_cases:
  assumes "Run_turn scf e (tv, u) = Ret (tv', u')"
  shows "tv' = snd (t_select e tv) \<and>
    (u' = u \<or> 0 \<le> t_accept e \<and> u' = accept_session (t_new e) (t_accept e) (t_socket e) u)"
  using assms by (auto simp: Run_turn_def ClientConn_new_def CreateServerConn_def ServerConn_new_def run_simps Let_def
      split: prod.splits if_splits sum.splits)

lemma Run_turn_step: "turn_ok e u \<Longrightarrow> Run_turn scf e (tv, u) = Ret (tv', u') \<Longrightarrow> u' = u \<or> op_step u u'"
  using Run_turn_cases [of scf e tv u tv' u'] by (auto simp: turn_ok_def intro!: op_step.accept)

definition select_ok :: "'a turn_env \<Rightarrow> bool" where
  \<comment> \<open>the time left is at most the time given, and none after a timeout\<close>
  "select_ok e \<longleftrightarrow> (\<forall>tv. snd (t_select e tv) \<le> tv \<and> (fst (t_select e tv) = 0 \<longrightarrow> snd (t_select e tv) = 0))"

lemma Run_turns_zero:
  "\<forall>e \<in> set es. select_ok e \<Longrightarrow> Run_turns scf es (0, u) = Ret (tv, u') \<Longrightarrow> tv = 0"
proof (induction es arbitrary: u)
  case (Cons e es)
  from Cons.prems(2) obtain tv1 u1 where t: "Run_turn scf e (0, u) = Ret (tv1, u1)" "Run_turns scf es (tv1, u1) = Ret (tv, u')"
    by (auto simp: run_simps)
  have "select_ok e" using Cons.prems(1) by simp
  then have "snd (t_select e 0) \<le> 0" unfolding select_ok_def by blast
  with Run_turn_cases [OF t(1)] have "tv1 = 0" by simp
  with Cons t(2) show ?case by auto
qed simp

text \<open>The process: it starts with the constructor, and then the turns of the accepting loop and the steps of the
  operator's threads come in any order.\<close>

inductive proxy_reach :: "ServerConnFactory \<Rightarrow> nat \<times> op_sys \<Rightarrow> bool" for scf where
  proxy_start: "ProxyServer_new port scf sock r1 r2 r3 r4 hw t fd = Ret (s, log) \<Longrightarrow> proxy_reach scf (select_timeout, ps_so s)"
| proxy_turn: "proxy_reach scf (tv, u) \<Longrightarrow> turn_ok (e :: string turn_env) u \<Longrightarrow> Run_turn scf e (tv, u) = Ret x \<Longrightarrow> proxy_reach scf x"
| proxy_thread: "proxy_reach scf (tv, u) \<Longrightarrow> op_step u u' \<Longrightarrow> proxy_reach scf (tv, u')"

lemma proxy_reach_op: "proxy_reach scf x \<Longrightarrow> op_reach (snd x)"
proof (induction rule: proxy_reach.induct)
  case (proxy_start port sock r1 r2 r3 r4 hw t fd s log)
  then show ?case by (auto simp: ProxyServer_new_def run_simps intro: op_reach.init)
next
  case (proxy_turn tv u e x)
  from Run_turn_step [OF proxy_turn(2), of scf tv "fst x" "snd x"] proxy_turn(3,4) show ?case
    by (auto intro: op_reach.step)
next
  case (proxy_thread tv u u')
  then show ?case by (auto intro: op_reach.step)
qed

section \<open>Starting\<close>

lemma add_conns_all: "\<forall>n. connect n = None \<Longrightarrow> add_conns connect k p
    = Ret (p\<lparr>conns := conns p @ [made p..<made p + k], made := made p + k\<rparr>)"
proof (induction k arbitrary: p)
  case (Suc k)
  then show ?case by (simp add: add_conn_def PqxxConn_new_def Push_def upt_conv_Cons)
qed simp

lemma main_starts:
  assumes "length argv = 4" "\<forall>n. connect n = None"
  shows "proxy_main argv connect (Ret rows) server
    = bind_run (server (atoi (argv ! 1)) (ServerConnFactory_new (argv ! 2) (argv ! 3)) (Refresh_rows [] rows))
        (\<lambda>(s, log). Ret (\<lparr>pool_size = 10, conns = [1..<11], made = 11\<rparr>, s, log))"
proof -
  have pool: "PqxxConnPool_new connect 10 = Ret \<lparr>pool_size = 10, conns = [0..<10], made = 10\<rparr>"
    using add_conns_all [OF assms(2)] by (simp add: PqxxConnPool_new_def)
  have c: "[0..<10] = 0 # [1..<10]" by (simp add: upt_rec)
  have "Acquire 500 \<lparr>pool_size = 10, conns = [0..<10], made = 10\<rparr> []
      = Some (\<lparr>pool_size = 10, conns = [1..<10], made = 10\<rparr>, Some 0)"
    unfolding Acquire_def c by simp
  moreover have "PqxxConn_delete connect \<lparr>pool_size = 10, conns = [1..<10], made = 10\<rparr>
      = Ret \<lparr>pool_size = 10, conns = [1..<11], made = 11\<rparr>"
    using assms(2) by (simp add: PqxxConn_delete_def Release_def has_room_def Queue_Size_def add_conn_def PqxxConn_new_def Push_def
        upt_rec [of 1 11] upt_rec)
  ultimately show ?thesis unfolding proxy_main_def pool using assms(1)
    by (simp add: Refresh_def)
qed

section \<open>Properties\<close>


text \<open>A turn of the accepting loop leaves the operator alone or is one of its steps: a fresh session over two
  fresh sockets, submitted once.\<close>
theorem accept_loop_steps:
  assumes "op_reach u" "turn_ok e u" "Run_turn scf e (tv, u) = Ret (tv', u')"
  shows "(u' = u \<or> op_step u u') \<and> op_reach u'"
  using Run_turn_step [OF assms(2,3)] assms(1) op_reach.step by blast

text \<open>After the first turn in which no client came within three seconds, \<open>select\<close> is called without any time
  to wait for ever after: the loop sets its timeout once, and \<open>select\<close> uses it up.\<close>
theorem select_spins:
  assumes "\<forall>e \<in> set (e # es). select_ok e" "fst (t_select e select_timeout) = 0"
    "ProxyServer_Run (e # es) s = Ret (tv, u)"
  shows "tv = 0"
proof -
  have "select_ok e" using assms(1) by simp
  then have left: "snd (t_select e select_timeout) = 0" using assms(2) unfolding select_ok_def by blast
  from assms(3) obtain tv1 u1 where t: "Run_turn (ps_scf s) e (select_timeout, ps_so s) = Ret (tv1, u1)"
    "Run_turns (ps_scf s) es (tv1, u1) = Ret (tv, u)" by (auto simp: ProxyServer_Run_def run_simps)
  with Run_turn_cases [OF t(1)] left have "Run_turns (ps_scf s) es (0, u1) = Ret (tv, u)" by simp
  with Run_turns_zero [of es "ps_scf s" u1 tv u] assms(1) show ?thesis by simp
qed

text \<open>When the name of the database host cannot be resolved, the constructor of the server connection goes on
  with a list of addresses that was never set, so the next client ends the proxy.\<close>
theorem unresolved_host_fault:
  assumes "0 < fst (t_select e tv)" "0 \<le> t_accept e" "t_addrinfo e (scf_host scf) (scf_port scf) = Inl x"
  shows "Run_turn scf e (tv, u) = Crash Uninitialised"
  using assms by (auto simp: Run_turn_def ClientConn_new_def CreateServerConn_def ServerConn_new_def Let_def split: prod.splits)


section \<open>Concrete starts\<close>

definition sample_turn :: "(nat \<Rightarrow> int \<times> nat) \<Rightarrow> string turn_env" where
  "sample_turn sel = \<lparr>t_select = sel, t_accept = 3, t_fcntl = 0, t_socket = 4, t_addrinfo = \<lambda>_ _. Inr [''127.0.0.1''],
     t_connect = \<lambda>_. 0, t_new = 0\<rparr>"

definition sample_scf :: ServerConnFactory where
  "sample_scf = ServerConnFactory_new ''db'' ''5432''"

definition sample_op :: op_sys where
  "sample_op = \<lparr>thread_pool = ThreadPool_new 4 4, epoll = [], open_fds = {}, sessions = (\<lambda>_. None), tracker = None,
     hands = [], acted = [], pending = []\<rparr>"

lemma sample_turn_runs:
  "turn_ok (sample_turn (\<lambda>tv. (1, tv))) sample_op"
  "Run_turn sample_scf (sample_turn (\<lambda>tv. (1, tv))) (tv, sample_op) = Ret (tv, accept_session 0 3 4 sample_op)"
  by (simp add: turn_ok_def sample_turn_def sample_op_def)
     (simp add: Run_turn_def sample_turn_def ClientConn_new_def CreateServerConn_def ServerConn_new_def)

lemma sample_op_new: "SessionOperator_new 4 4 None 5 = Ret sample_op"
  by (simp add: SessionOperator_new_def sample_op_def)

lemma accept_loop_steps_witness: "op_reach (accept_session 0 3 4 sample_op)"
  using accept_loop_steps [OF _ sample_turn_runs] op_reach.init [OF sample_op_new] by blast


lemma select_spins_witness:
  "\<exists>tv u. ProxyServer_Run [sample_turn (\<lambda>tv. (0, 0)), sample_turn (\<lambda>tv. (1, tv))] \<lparr>ps_port = 0, ps_sock = 3, ps_scf = sample_scf, ps_so = sample_op\<rparr>
      = Ret (tv, u) \<and> tv = 0"
proof -
  have "ProxyServer_Run [sample_turn (\<lambda>tv. (0, 0)), sample_turn (\<lambda>tv. (1, tv))] \<lparr>ps_port = 0, ps_sock = 3, ps_scf = sample_scf, ps_so = sample_op\<rparr>
      = Ret (0, accept_session 0 3 4 sample_op)"
    by (simp add: ProxyServer_Run_def Run_turn_def sample_turn_def ClientConn_new_def CreateServerConn_def ServerConn_new_def)
  with select_spins [OF _ _ this] show ?thesis by (auto simp: select_ok_def sample_turn_def)
qed

lemma unresolved_host_fault_witness:
  "Run_turn sample_scf (sample_turn (\<lambda>tv. (1, tv))\<lparr>t_addrinfo := \<lambda>_ _. Inl (- 2)\<rparr>) (7, sample_op) = Crash Uninitialised"
  by (rule unresolved_host_fault [where x = "- 2"]) (simp_all add: sample_turn_def)


end
