(* ===== verification/PersistentDeque.thy ===== *)
theory PersistentDeque
  imports Json ErrorMap
begin

text \<open>
  \<open>persistent-deque/persistent-deque.{h,cpp}\<close>: a double-ended queue kept in a database table. The table is
  what the statement of the constructor declares; what can fail on the way to it is an argument.
\<close>

section \<open>The table\<close>

text \<open>
  \<open>_seq\<close> counts up from 1 and is not rolled back; \<open>_pos\<close>, the primary key, is \<open>_seq * _dir\<close>. The rows are listed
  in the order of the key.
\<close>

record dtable =
  t_seq :: int
  t_rows :: "(int \<times> json) list"

definition insert_row :: "int \<Rightarrow> json \<Rightarrow> dtable \<Rightarrow> dtable" where
  "insert_row dir d t = \<lparr>t_seq = t_seq t + 1, t_rows = insort_key fst (t_seq t * dir, d) (t_rows t)\<rparr>"

definition delete_row :: "int \<Rightarrow> dtable \<Rightarrow> dtable" where
  "delete_row pos t = t\<lparr>t_rows := filter (\<lambda>r. fst r \<noteq> pos) (t_rows t)\<rparr>"

record PersistentDeque =
  d_table :: string
  d_db :: dtable
  d_txn :: "(nat \<times> (int \<times> json) list) option" \<comment> \<open>the open transaction, and the rows when it began\<close>
  d_next :: nat

record Element =
  e_txn :: "nat option"
  e_table :: string
  e_pos :: "int option" \<comment> \<open>\<open>None\<close> before it is set\<close>
  e_data :: json

text \<open>What one call finds: the text of its data, exceptions, and rows that other connections hold.\<close>

record dq_env =
  f_dump :: "json \<Rightarrow> string"
  f_begin :: "exn option"
  f_exec :: "exn option"
  f_delete :: "exn option"
  f_commit :: "exn option"
  f_locked :: "int set"
  f_raw :: "string \<Rightarrow> dtable \<Rightarrow> exn + dtable" \<comment> \<open>the effect of a text that is not one statement of the source\<close>

definition usage_error :: exn where
  \<comment> \<open>\<open>pqxx::usage_error\<close>: a second transaction on a connection, or a closed one\<close>
  "usage_error = StdException ''transaction''"

definition unexpected_rows :: exn where
  \<comment> \<open>\<open>exec1\<close> found no row\<close>
  "unexpected_rows = StdException ''expected 1 row''"

definition begin_txn :: "dq_env \<Rightarrow> PersistentDeque \<Rightarrow> exn + PersistentDeque" where
  "begin_txn env q =
     (if d_txn q \<noteq> None then Inl usage_error
      else case f_begin env of Some e \<Rightarrow> Inl e | None \<Rightarrow> Inr (q\<lparr>d_txn := Some (d_next q, t_rows (d_db q)), d_next := Suc (d_next q)\<rparr>))"

definition abort_txn :: "PersistentDeque \<Rightarrow> PersistentDeque" where
  \<comment> \<open>the destructor of a transaction that was not committed\<close>
  "abort_txn q =
     (case d_txn q of None \<Rightarrow> q | Some (n, rows) \<Rightarrow> q\<lparr>d_db := (d_db q)\<lparr>t_rows := rows\<rparr>, d_txn := None\<rparr>)"

definition commit_txn :: "dq_env \<Rightarrow> PersistentDeque \<Rightarrow> exn + PersistentDeque" where
  "commit_txn env q = (case f_commit env of Some e \<Rightarrow> Inl e | None \<Rightarrow> Inr (q\<lparr>d_txn := None\<rparr>))"

section \<open>Errors\<close>

fun failed_with :: "string \<Rightarrow> exn \<Rightarrow> (string \<times> string) list" where
  "failed_with key (SqlError m) = [(''message'', ''failed with a sql_error''), (''sql_error'', m)]"
| "failed_with key (StdException m) = [(''message'', ''failed with an exception''), (key, m)]"

definition deque_error :: "string \<Rightarrow> string \<Rightarrow> string \<Rightarrow> (string \<times> string) list \<Rightarrow> string \<Rightarrow> exn \<Rightarrow> Error" where
  \<comment> \<open>the table of fields in every handler; the line is the one of the handler\<close>
  "deque_error line func table extra key e =
     Error_init ([(''file'', ''persistent-deque.cpp''), (''line'', line), (''func'', func), (''table'', table)]
       @ extra @ failed_with key e)"

definition line_of :: "string \<Rightarrow> string \<Rightarrow> exn \<Rightarrow> string" where
  "line_of sql std e = (case e of SqlError m \<Rightarrow> sql | StdException m \<Rightarrow> std)"

section \<open>Writing\<close>

definition insert_sql :: "string \<Rightarrow> string \<Rightarrow> string \<Rightarrow> string" where
  "insert_sql table dir data =
     ''INSERT INTO '' @ table @ '' (_dir, _data)'' @ '' VALUES ('' @ dir @ '', '' @ [SQ] @ data @ [SQ] @ ''::jsonb);''"

definition exec_insert :: "dq_env \<Rightarrow> int \<Rightarrow> string \<Rightarrow> json \<Rightarrow> PersistentDeque \<Rightarrow> exn + PersistentDeque" where
  \<comment> \<open>the data stands between quotes in the text, so a quote in it ends the literal\<close>
  "exec_insert env dir sdir d q =
     (if SQ \<in> set (f_dump env d)
      then (case f_raw env (insert_sql (d_table q) sdir (f_dump env d)) (d_db q) of
              Inl e \<Rightarrow> Inl e
            | Inr t \<Rightarrow> Inr (q\<lparr>d_db := t\<rparr>))
      else (case f_exec env of Some e \<Rightarrow> Inl e | None \<Rightarrow> Inr (q\<lparr>d_db := insert_row dir d (d_db q)\<rparr>)))"

definition push_row :: "dq_env \<Rightarrow> (exn \<Rightarrow> Error) \<Rightarrow> int \<Rightarrow> string \<Rightarrow> json \<Rightarrow> PersistentDeque \<Rightarrow> PersistentDeque \<times> Error" where
  \<comment> \<open>the body of both pushes\<close>
  "push_row env err dir sdir d q =
     (case begin_txn env q of
        Inl e \<Rightarrow> (q, err e)
      | Inr q1 \<Rightarrow>
          (case exec_insert env dir sdir d q1 of
             Inl e \<Rightarrow> (abort_txn q1, err e)
           | Inr q2 \<Rightarrow> (case commit_txn env q2 of Inl e \<Rightarrow> (abort_txn q2, err e) | Inr q3 \<Rightarrow> (q3, NoError))))"

definition PushBack :: "dq_env \<Rightarrow> json \<Rightarrow> PersistentDeque \<Rightarrow> PersistentDeque \<times> Error" where
  "PushBack env d q =
     push_row env (\<lambda>e. deque_error (line_of ''48'' ''59'' e) ''PushBack'' (d_table q) [] ''exception'' e) 1 ''1'' d q"

definition PushFront :: "dq_env \<Rightarrow> json \<Rightarrow> PersistentDeque \<Rightarrow> PersistentDeque \<times> Error" where
  "PushFront env d q =
     push_row env (\<lambda>e. deque_error (line_of ''88'' ''99'' e) ''PushFront'' (d_table q) [] ''exception'' e) (- 1) ''-1'' d q"

section \<open>Elements\<close>

definition Element_new :: Element where
  "Element_new = \<lparr>e_txn = None, e_table = [], e_pos = None, e_data = JNull\<rparr>"

definition in_txn :: "Element \<Rightarrow> PersistentDeque \<Rightarrow> bool" where
  \<comment> \<open>the transaction of the element is still open\<close>
  "in_txn e q \<longleftrightarrow> e_txn e \<noteq> None \<and> map_option fst (d_txn q) = e_txn e"

definition pop_row :: "dq_env \<Rightarrow> Element \<Rightarrow> int \<Rightarrow> PersistentDeque \<Rightarrow> exn + PersistentDeque \<times> Error" where
  \<comment> \<open>\<open>Pop\<close> of an element whose position is set; the commit stands outside the handlers\<close>
  "pop_row env e pos q =
     (if e_txn e = None
      then Inr (q, Error_init
             [(''file'', ''persistent-deque.cpp''), (''line'', ''296''), (''func'', ''Pop''), (''table'', e_table e),
              (''pos'', to_string pos), (''message'', ''transaction missing'')])
      else
        (let err = (\<lambda>x. deque_error (line_of ''313'' ''325'' x) ''Pop'' (e_table e) [(''pos'', to_string pos)] ''exception'' x)
         in if \<not> in_txn e q then Inr (q, err usage_error)
            else case f_delete env of
                   Some x \<Rightarrow> Inr (q, err x)
                 | None \<Rightarrow> (case commit_txn env (q\<lparr>d_db := delete_row pos (d_db q)\<rparr>) of
                              Inl x \<Rightarrow> Inl x
                            | Inr q' \<Rightarrow> Inr (q', NoError))))"

definition Element_Pop :: "dq_env \<Rightarrow> Element \<Rightarrow> PersistentDeque \<Rightarrow> (PersistentDeque \<times> Error) run" where
  \<comment> \<open>the text of a position that was never set is read from an uninitialised member\<close>
  "Element_Pop env e q =
     (case e_pos e of
        None \<Rightarrow> Crash Uninitialised
      | Some pos \<Rightarrow> (case pop_row env e pos q of Inl x \<Rightarrow> Throw x | Inr r \<Rightarrow> Ret r))"

definition Element_Release :: "Element \<Rightarrow> PersistentDeque \<Rightarrow> Element \<times> PersistentDeque" where
  "Element_Release e q = (e\<lparr>e_txn := None\<rparr>, if in_txn e q then abort_txn q else q)"

definition Element_delete :: "Element \<Rightarrow> PersistentDeque \<Rightarrow> PersistentDeque" where
  \<comment> \<open>the destructor: the transaction an element still owns ends with it\<close>
  "Element_delete e q = (if in_txn e q then abort_txn q else q)"

definition moved_from :: "string \<Rightarrow> Element \<Rightarrow> Element" where
  \<comment> \<open>what a move leaves behind: no transaction, some text as the table, the position, and null data\<close>
  "moved_from rest e = e\<lparr>e_txn := None, e_table := rest, e_data := JNull\<rparr>"

definition Element_move :: "string \<Rightarrow> Element \<Rightarrow> Element \<times> Element" where
  \<comment> \<open>the moving constructor: the new element and what is left of the other\<close>
  "Element_move rest e = (e, moved_from rest e)"

definition Element_assign :: "string \<Rightarrow> Element \<Rightarrow> Element \<Rightarrow> PersistentDeque \<Rightarrow> Element \<times> Element \<times> PersistentDeque" where
  \<comment> \<open>\<open>operator=\<close> on two elements: the transaction of the target ends when its pointer is overwritten\<close>
  "Element_assign rest this other q = (other, moved_from rest other, if in_txn this q then abort_txn q else q)"

definition Element_Data :: "Element \<Rightarrow> json" where
  "Element_Data e = e_data e"

lemma moved_from_idle [simp]: "Element_delete (moved_from rest e) q = q" "\<not> in_txn (moved_from rest e) q"
  by (simp_all add: Element_delete_def in_txn_def moved_from_def)

lemma Element_delete_release: "Element_delete e q = snd (Element_Release e q)"
  by (simp add: Element_delete_def Element_Release_def)

lemma Element_assign_simps:
  "Element_assign rest this other q = (e, old, q') \<Longrightarrow>
     e = other \<and> q' = Element_delete this q \<and> Element_delete old q' = q'"
  by (auto simp: Element_assign_def Element_delete_def)

definition visible :: "dq_env \<Rightarrow> PersistentDeque \<Rightarrow> (int \<times> json) list" where
  \<comment> \<open>\<open>SKIP LOCKED\<close>\<close>
  "visible env q = filter (\<lambda>r. fst r \<notin> f_locked env) (t_rows (d_db q))"

definition take_row :: "dq_env \<Rightarrow> ((int \<times> json) list \<Rightarrow> int \<times> json) \<Rightarrow> (exn \<Rightarrow> Error) \<Rightarrow> bool \<Rightarrow> PersistentDeque
    \<Rightarrow> PersistentDeque \<times> Element \<times> Error" where
  \<comment> \<open>the body of \<open>Back\<close> and \<open>Front\<close>, with the end of the order they take; on the paths that return another
     element, the local one ends and its transaction with it\<close>
  "take_row env end err pop q =
     (case begin_txn env q of
        Inl x \<Rightarrow> (q, Element_new, err x)
      | Inr q1 \<Rightarrow>
          (case f_exec env of
             Some x \<Rightarrow> (abort_txn q1, Element_new, err x)
           | None \<Rightarrow>
               if visible env q1 = [] then (abort_txn q1, Element_new, err unexpected_rows)
               else
                 (case end (visible env q1) of
                    (pos, d) \<Rightarrow>
                      let e = \<lparr>e_txn = Some (d_next q), e_table = d_table q, e_pos = Some pos, e_data = d\<rparr>
                      in if pop
                         then (case pop_row env e pos q1 of
                                 Inl x \<Rightarrow> (abort_txn q1, Element_new, err x)
                               | Inr (q2, er) \<Rightarrow> if Error_bool er then (abort_txn q2, Element_new, er) else (q2, e, NoError))
                         else (q1, e, NoError))))"

definition Back :: "dq_env \<Rightarrow> bool \<Rightarrow> PersistentDeque \<Rightarrow> PersistentDeque \<times> Element \<times> Error" where
  "Back env pop q =
     take_row env last (\<lambda>e. deque_error (line_of ''142'' ''154'' e) ''Back'' (d_table q) [] ''exception'' e) pop q"

definition Front :: "dq_env \<Rightarrow> bool \<Rightarrow> PersistentDeque \<Rightarrow> PersistentDeque \<times> Element \<times> Error" where
  "Front env pop q =
     take_row env hd (\<lambda>e. deque_error (line_of ''198'' ''210'' e) ''Front'' (d_table q) [] ''exception'' e) pop q"

definition Size :: "dq_env \<Rightarrow> PersistentDeque \<Rightarrow> nat \<times> Error" where
  \<comment> \<open>the second handler files the text of the exception under the key of the first\<close>
  "Size env q =
     (let err = (\<lambda>e. deque_error (line_of ''237'' ''249'' e) ''Size'' (d_table q) [] ''sql_error'' e)
      in case begin_txn env q of
           Inl e \<Rightarrow> (0, err e)
         | Inr q1 \<Rightarrow> (case f_exec env of Some e \<Rightarrow> (0, err e) | None \<Rightarrow> (length (t_rows (d_db q)), NoError)))"

definition create_sql :: "string \<Rightarrow> string" where
  "create_sql table =
     ''CREATE TABLE IF NOT EXISTS '' @ table @ '' ('' @
     '' _seq    BIGSERIAL NOT NULL,'' @
     '' _dir    INT NOT NULL,'' @
     '' _pos    BIGINT GENERATED ALWAYS AS (_seq * _dir) STORED,'' @
     '' _data   JSONB NOT NULL,'' @
     '' PRIMARY KEY (_pos),'' @
     '' CHECK (_dir IN (-1, 1))'' @
     '');''"

definition PersistentDeque_new :: "string \<Rightarrow> (string \<Rightarrow> exn + dtable) \<Rightarrow> PersistentDeque run" where
  \<comment> \<open>the server creates the table or finds it; nothing is caught\<close>
  "PersistentDeque_new name server =
     (let table = ''__deque_'' @ name @ ''__''
      in case server (create_sql table) of
           Inl e \<Rightarrow> Throw e
         | Inr t \<Rightarrow> Ret \<lparr>d_table = table, d_db = t, d_txn = None, d_next = 0\<rparr>)"

section \<open>The interface of a deque\<close>

text \<open>
  A client pushes at both ends and takes from both ends. The provider promises a list: each operation is the
  list operation on the contents, as long as the items fit and the deque is in order.
\<close>

locale deque =
  fixes contents :: "'q \<Rightarrow> 'a list"
    and ok :: "'q \<Rightarrow> bool"
    and fits :: "'a \<Rightarrow> bool"
    and push_back :: "'a \<Rightarrow> 'q \<Rightarrow> 'q"
    and push_front :: "'a \<Rightarrow> 'q \<Rightarrow> 'q"
    and take_back :: "'q \<Rightarrow> 'q \<times> 'a option"
    and take_front :: "'q \<Rightarrow> 'q \<times> 'a option"
  assumes push_back: "ok q \<Longrightarrow> fits a \<Longrightarrow> ok (push_back a q) \<and> contents (push_back a q) = contents q @ [a]"
    and push_front: "ok q \<Longrightarrow> fits a \<Longrightarrow> ok (push_front a q) \<and> contents (push_front a q) = a # contents q"
    and take_back: "ok q \<Longrightarrow> contents q = xs @ [a] \<Longrightarrow> \<exists>q'. take_back q = (q', Some a) \<and> ok q' \<and> contents q' = xs"
    and take_front: "ok q \<Longrightarrow> contents q = a # xs \<Longrightarrow> \<exists>q'. take_front q = (q', Some a) \<and> ok q' \<and> contents q' = xs"
    and take_empty: "ok q \<Longrightarrow> contents q = [] \<Longrightarrow> snd (take_back q) = None \<and> snd (take_front q) = None"
begin

fun push_all :: "'a list \<Rightarrow> 'q \<Rightarrow> 'q" where
  "push_all [] q = q"
| "push_all (a # as) q = push_all as (push_back a q)"

fun drain_front :: "nat \<Rightarrow> 'q \<Rightarrow> 'a list" where
  "drain_front 0 q = []"
| "drain_front (Suc n) q = (case take_front q of (q', Some a) \<Rightarrow> a # drain_front n q' | (q', None) \<Rightarrow> [])"

fun drain_back :: "nat \<Rightarrow> 'q \<Rightarrow> 'a list" where
  "drain_back 0 q = []"
| "drain_back (Suc n) q = (case take_back q of (q', Some a) \<Rightarrow> a # drain_back n q' | (q', None) \<Rightarrow> [])"

lemma push_all_contents: "ok q \<Longrightarrow> list_all fits as \<Longrightarrow> ok (push_all as q) \<and> contents (push_all as q) = contents q @ as"
  by (induction as arbitrary: q) (simp_all add: push_back)

lemma drain_front_take: "ok q \<Longrightarrow> drain_front n q = take n (contents q)"
proof (induction n arbitrary: q)
  case (Suc n)
  show ?case
  proof (cases "contents q")
    case (Cons a xs)
    from take_front [OF Suc.prems Cons] Suc.IH Cons show ?thesis by auto
  qed (use take_empty [OF Suc.prems] in \<open>cases "take_front q"; simp\<close>)
qed simp

lemma drain_back_take: "ok q \<Longrightarrow> drain_back n q = take n (rev (contents q))"
proof (induction n arbitrary: q)
  case (Suc n)
  show ?case
  proof (cases "contents q" rule: rev_cases)
    case (snoc xs a)
    from take_back [OF Suc.prems snoc] Suc.IH snoc show ?thesis by auto
  qed (use take_empty [OF Suc.prems] in \<open>cases "take_back q"; simp\<close>)
qed simp

lemma first_in_first_out: "ok q \<Longrightarrow> contents q = [] \<Longrightarrow> list_all fits as \<Longrightarrow> drain_front (length as) (push_all as q) = as"
  using push_all_contents [of q as] by (simp add: drain_front_take)

lemma last_in_first_out: "ok q \<Longrightarrow> contents q = [] \<Longrightarrow> list_all fits as \<Longrightarrow> drain_back (length as) (push_all as q) = rev as"
  using push_all_contents [of q as] by (simp add: drain_back_take)

end

section \<open>The table is a deque\<close>

definition rows_ok :: "dtable \<Rightarrow> bool" where
  \<comment> \<open>keys are distinct and listed in order, and the sequence has passed them all on both sides\<close>
  "rows_ok t \<longleftrightarrow> sorted_wrt (<) (map fst (t_rows t)) \<and> (\<forall>r \<in> set (t_rows t). \<bar>fst r\<bar> < t_seq t) \<and> 0 < t_seq t"

definition deque_ok :: "PersistentDeque \<Rightarrow> bool" where
  "deque_ok q \<longleftrightarrow> rows_ok (d_db q) \<and> d_txn q = None"

definition deque_items :: "PersistentDeque \<Rightarrow> json list" where
  "deque_items q = map snd (t_rows (d_db q))"

definition calm :: "dq_env \<Rightarrow> bool" where
  \<comment> \<open>no call fails and no other connection holds a row\<close>
  "calm env \<longleftrightarrow> f_begin env = None \<and> f_exec env = None \<and> f_delete env = None \<and> f_commit env = None \<and> f_locked env = {}"

lemma insort_last: "\<forall>r \<in> set rows. fst r < p \<Longrightarrow> insort_key fst (p, d) rows = rows @ [(p, d)]"
  by (induction rows) auto

lemma insort_first: "\<forall>r \<in> set rows. p < fst r \<Longrightarrow> insort_key fst (p, d) rows = (p, d) # rows"
  by (cases rows) auto

lemma insert_back:
  assumes "rows_ok t"
  shows "insert_row 1 d t = \<lparr>t_seq = t_seq t + 1, t_rows = t_rows t @ [(t_seq t, d)]\<rparr>"
    and "rows_ok (insert_row 1 d t)"
proof -
  have "\<forall>r \<in> set (t_rows t). fst r < t_seq t" using assms by (auto simp: rows_ok_def)
  from insort_last [OF this] show e: "insert_row 1 d t = \<lparr>t_seq = t_seq t + 1, t_rows = t_rows t @ [(t_seq t, d)]\<rparr>"
    by (simp add: insert_row_def)
  show "rows_ok (insert_row 1 d t)" unfolding e using assms by (fastforce simp: rows_ok_def sorted_wrt_append)
qed

lemma insert_front:
  assumes "rows_ok t"
  shows "insert_row (- 1) d t = \<lparr>t_seq = t_seq t + 1, t_rows = (- t_seq t, d) # t_rows t\<rparr>"
    and "rows_ok (insert_row (- 1) d t)"
proof -
  have "\<forall>r \<in> set (t_rows t). - t_seq t < fst r" using assms by (fastforce simp: rows_ok_def)
  from insort_first [OF this] show e: "insert_row (- 1) d t = \<lparr>t_seq = t_seq t + 1, t_rows = (- t_seq t, d) # t_rows t\<rparr>"
    by (simp add: insert_row_def)
  show "rows_ok (insert_row (- 1) d t)" unfolding e using assms by (fastforce simp: rows_ok_def)
qed

lemma delete_last: "sorted_wrt (<) (map fst (rows @ [(p, d)])) \<Longrightarrow> filter (\<lambda>r. fst r \<noteq> (p::int)) (rows @ [(p, d)]) = rows"
  by (induction rows) (auto simp: sorted_wrt_append)

lemma delete_first: "sorted_wrt (<) (map fst ((p, d) # rows)) \<Longrightarrow> filter (\<lambda>r. fst r \<noteq> (p::int)) ((p, d) # rows) = rows"
  by (auto simp: filter_id_conv)

lemma rows_ok_part: "rows_ok \<lparr>t_seq = n, t_rows = rows @ rows'\<rparr> \<Longrightarrow> rows_ok \<lparr>t_seq = n, t_rows = rows\<rparr> \<and> rows_ok \<lparr>t_seq = n, t_rows = rows'\<rparr>"
  by (auto simp: rows_ok_def sorted_wrt_append)

lemma push_calm:
  assumes "calm env" "d_txn q = None" "SQ \<notin> set (f_dump env d)"
  shows "push_row env err dir sdir d q = (q\<lparr>d_db := insert_row dir d (d_db q), d_next := Suc (d_next q)\<rparr>, NoError)"
  using assms by (simp add: push_row_def calm_def begin_txn_def exec_insert_def commit_txn_def)

lemma take_calm:
  assumes "calm env" "d_txn q = None" "t_rows (d_db q) \<noteq> []" "end (t_rows (d_db q)) = (p, d)"
  shows "take_row env end err False q = (q\<lparr>d_txn := Some (d_next q, t_rows (d_db q)), d_next := Suc (d_next q)\<rparr>,
      \<lparr>e_txn = Some (d_next q), e_table = d_table q, e_pos = Some p, e_data = d\<rparr>, NoError)"
    and "take_row env end err True q = (q\<lparr>d_db := delete_row p (d_db q), d_next := Suc (d_next q)\<rparr>,
      \<lparr>e_txn = Some (d_next q), e_table = d_table q, e_pos = Some p, e_data = d\<rparr>, NoError)"
  using assms by (simp_all add: take_row_def calm_def begin_txn_def visible_def pop_row_def in_txn_def commit_txn_def Let_def)

lemma take_calm_empty:
  assumes "calm env" "d_txn q = None" "t_rows (d_db q) = []"
  shows "take_row env end err pop q = (q\<lparr>d_next := Suc (d_next q)\<rparr>, Element_new, err unexpected_rows)"
  using assms by (simp add: take_row_def calm_def begin_txn_def visible_def abort_txn_def)

lemma deque_error_bool [simp]: "Error_bool (deque_error line func table extra key e)"
  unfolding deque_error_def append_Cons by (rule Error_bool_init)

lemma PushBack_calm:
  assumes "calm env" "deque_ok q" "SQ \<notin> set (f_dump env d)"
  shows "\<exists>q'. PushBack env d q = (q', NoError) \<and> deque_ok q' \<and> deque_items q' = deque_items q @ [d]"
  using push_calm [OF assms(1) _ assms(3)] insert_back [of "d_db q" d] assms(2)
  by (auto simp: PushBack_def deque_ok_def deque_items_def)

lemma PushFront_calm:
  assumes "calm env" "deque_ok q" "SQ \<notin> set (f_dump env d)"
  shows "\<exists>q'. PushFront env d q = (q', NoError) \<and> deque_ok q' \<and> deque_items q' = d # deque_items q"
  using push_calm [OF assms(1) _ assms(3)] insert_front [of "d_db q" d] assms(2)
  by (auto simp: PushFront_def deque_ok_def deque_items_def)

lemma Back_calm:
  assumes "calm env" "deque_ok q" "deque_items q = xs @ [d]"
  shows "\<exists>q' e. Back env True q = (q', e, NoError) \<and> e_data e = d \<and> deque_ok q' \<and> deque_items q' = xs"
proof -
  from assms(3) obtain rows p where r: "t_rows (d_db q) = rows @ [(p, d)]" "map snd rows = xs"
    by (auto simp: deque_items_def map_eq_append_conv)
  have ok: "rows_ok \<lparr>t_seq = t_seq (d_db q), t_rows = rows @ [(p, d)]\<rparr>" using assms(2) r(1) by (simp add: deque_ok_def rows_ok_def)
  then have "delete_row p (d_db q) = \<lparr>t_seq = t_seq (d_db q), t_rows = rows\<rparr>"
    using delete_last [of rows p d] r(1) by (simp add: delete_row_def rows_ok_def)
  with rows_ok_part [OF ok] take_calm(2) [OF assms(1), of q last p d] r assms(2) show ?thesis
    by (auto simp: Back_def deque_ok_def deque_items_def)
qed

lemma Front_calm:
  assumes "calm env" "deque_ok q" "deque_items q = d # xs"
  shows "\<exists>q' e. Front env True q = (q', e, NoError) \<and> e_data e = d \<and> deque_ok q' \<and> deque_items q' = xs"
proof -
  from assms(3) obtain rows p where r: "t_rows (d_db q) = (p, d) # rows" "map snd rows = xs"
    by (auto simp: deque_items_def map_eq_Cons_conv)
  have ok: "rows_ok \<lparr>t_seq = t_seq (d_db q), t_rows = [(p, d)] @ rows\<rparr>" using assms(2) r(1) by (simp add: deque_ok_def rows_ok_def)
  then have "delete_row p (d_db q) = \<lparr>t_seq = t_seq (d_db q), t_rows = rows\<rparr>"
    using delete_first [of p d rows] r(1) by (simp add: delete_row_def rows_ok_def)
  with rows_ok_part [OF ok] take_calm(2) [OF assms(1), of q hd p d] r assms(2) show ?thesis
    by (auto simp: Front_def deque_ok_def deque_items_def)
qed

lemma empty_calm:
  assumes "calm env" "deque_ok q" "deque_items q = []"
  shows "\<exists>q' e err. Back env pop q = (q', e, err) \<and> Error_bool err \<and> deque_ok q' \<and> deque_items q' = []"
    and "\<exists>q' e err. Front env pop q = (q', e, err) \<and> Error_bool err \<and> deque_ok q' \<and> deque_items q' = []"
  using take_calm_empty [OF assms(1), of q] assms(2,3) by (auto simp: Back_def Front_def deque_ok_def deque_items_def)

definition calm_env :: "(json \<Rightarrow> string) \<Rightarrow> dq_env" where
  "calm_env dump = \<lparr>f_dump = dump, f_begin = None, f_exec = None, f_delete = None, f_commit = None, f_locked = {},
     f_raw = \<lambda>_ t. Inr t\<rparr>"

lemma calm_env_calm [simp]: "calm (calm_env dump)" "f_dump (calm_env dump) = dump"
  by (simp_all add: calm_def calm_env_def)

definition taken :: "PersistentDeque \<times> Element \<times> Error \<Rightarrow> PersistentDeque \<times> json option" where
  "taken x = (case x of (q, e, err) \<Rightarrow> (q, if Error_bool err then None else Some (e_data e)))"

interpretation pdeque: deque deque_items deque_ok "\<lambda>d. SQ \<notin> set (dump d)"
    "\<lambda>d q. fst (PushBack (calm_env dump) d q)" "\<lambda>d q. fst (PushFront (calm_env dump) d q)"
    "\<lambda>q. taken (Back (calm_env dump) True q)" "\<lambda>q. taken (Front (calm_env dump) True q)" for dump
proof unfold_locales
  fix q d assume q: "deque_ok q" "SQ \<notin> set (dump d)"
  show "deque_ok (fst (PushBack (calm_env dump) d q)) \<and> deque_items (fst (PushBack (calm_env dump) d q)) = deque_items q @ [d]"
    using PushBack_calm [of "calm_env dump" q d] q by auto
  show "deque_ok (fst (PushFront (calm_env dump) d q)) \<and> deque_items (fst (PushFront (calm_env dump) d q)) = d # deque_items q"
    using PushFront_calm [of "calm_env dump" q d] q by auto
next
  fix q xs d assume q: "deque_ok q" "deque_items q = xs @ [d]"
  from Back_calm [OF calm_env_calm(1) q, of dump] obtain q' e
    where "Back (calm_env dump) True q = (q', e, NoError)" "e_data e = d" "deque_ok q'" "deque_items q' = xs" by blast
  then show "\<exists>q'. taken (Back (calm_env dump) True q) = (q', Some d) \<and> deque_ok q' \<and> deque_items q' = xs"
    by (auto simp: taken_def)
next
  fix q xs d assume q: "deque_ok q" "deque_items q = d # xs"
  from Front_calm [OF calm_env_calm(1) q, of dump] obtain q' e
    where "Front (calm_env dump) True q = (q', e, NoError)" "e_data e = d" "deque_ok q'" "deque_items q' = xs" by blast
  then show "\<exists>q'. taken (Front (calm_env dump) True q) = (q', Some d) \<and> deque_ok q' \<and> deque_items q' = xs"
    by (auto simp: taken_def)
next
  fix q assume q: "deque_ok q" "deque_items q = []"
  from empty_calm [OF calm_env_calm(1) q, of dump True]
  show "snd (taken (Back (calm_env dump) True q)) = None \<and> snd (taken (Front (calm_env dump) True q)) = None"
    by (auto simp: taken_def)
qed

section \<open>Properties\<close>



section \<open>A concrete deque\<close>

definition sample_deque :: PersistentDeque where
  "sample_deque = \<lparr>d_table = ''__deque_q__'', d_db = \<lparr>t_seq = 3, t_rows = [(- 2, JNum 8), (1, JNum 7)]\<rparr>, d_txn = None, d_next = 0\<rparr>"

lemma sample_deque_ok: "deque_ok sample_deque" "deque_items sample_deque = [JNum 8, JNum 7]"
  by (simp_all add: sample_deque_def deque_ok_def rows_ok_def deque_items_def)



end
