(* ===== verification/Mediation.thy ===== *)
theory Mediation
  imports SessionRuns
begin

text \<open>
  Complete mediation: what a session can send to the server, over all its runs. The specification says
  which requests may leave the proxy in answer to what the client sent, and every request that a run
  sends is one of them.
\<close>

section \<open>The specification\<close>

inductive edited_at :: "step list \<Rightarrow> json \<Rightarrow> json \<Rightarrow> bool" for p :: "step list" where
  \<comment> \<open>the second tree results from the first by accesses to the node at this path and below it\<close>
  edited_none: "edited_at p j j"
| edited_more: "edited_at p j i \<Longrightarrow> update_at (p @ q) f i = Ret ((), k) \<Longrightarrow> edited_at p j k"

definition sends_tree :: "env \<Rightarrow> json \<Rightarrow> Buffer \<Rightarrow> bool" where
  \<comment> \<open>the request is the text of the tree, or of what the tree is after changes to its DROP statement\<close>
  "sends_tree env j b \<longleftrightarrow> (\<exists>i sql. (i = j \<or> (\<exists>n. FindNode j ''DropStmt'' = Some n \<and> edited_at n j i))
     \<and> e_pg_deparse env i = Some sql \<and> b = SetQuery Buffer_new sql)"

definition vetted :: "env \<Rightarrow> Session \<Rightarrow> Buffer \<Rightarrow> bool" where
  \<comment> \<open>what may be sent for the request of this session\<close>
  "vetted env s b \<longleftrightarrow>
     (\<exists>c. byte_at (buf (request_of s)) 0 = Ret c \<and> c \<noteq> CHR ''Q'' \<and> b = request_of s)
   \<or> (\<exists>text t. query_request text s \<and> Translate (e_proxy_file env) text = (t, NoError)
       \<and> (case e_pg_parse env (cstr t) of
            Inl err \<Rightarrow> b = SetQuery Buffer_new t
          | Inr r \<Rightarrow> (\<exists>j. r = Ret j
              \<and> (if smap_get (parameters s) ''rolsuper'' = ''t'' then b = SetQuery Buffer_new t \<or> sends_tree env j b
                 else \<exists>j'. Acl_json (e_expand env) (st s) j = Ret j' \<and> query_ok (e_expand env) (st s) j'
                        \<and> sends_tree env j' b))))"

section \<open>Edits below a node\<close>

lemma update_at_unit:
  "update_at p f j = Ret (x, k) \<Longrightarrow> update_at p (\<lambda>v. map_run (\<lambda>(x, w). ((), w)) (f v)) j = Ret ((), k)"
  by (induction p arbitrary: j k) (auto simp: run_simps)

lemma edited_update: "edited_at p j i \<Longrightarrow> update_at (p @ q) f i = Ret (x, k) \<Longrightarrow> edited_at p j k"
  by (erule edited_more) (erule update_at_unit)

section \<open>Outcomes of a plug-in\<close>

fun act_all :: "(Session \<Rightarrow> bool) \<Rightarrow> 'a act \<Rightarrow> bool" where
  \<comment> \<open>however the plug-in ends, it leaves such a session\<close>
  "act_all P (s, r) = P s"

lemma act_all_then [intro]:
  "act_all P m \<Longrightarrow> (\<And>s x. m = (s, Ret x) \<Longrightarrow> P s \<Longrightarrow> act_all P (f s x)) \<Longrightarrow> act_all P (then_do m f)"
  by (cases "(m, f)" rule: then_do.cases) auto

definition kept :: "Session \<Rightarrow> Session \<Rightarrow> bool" where
  "kept s0 s \<longleftrightarrow> request_of s = request_of s0 \<and> st s = st s0"

definition edited :: "step list \<Rightarrow> Session \<Rightarrow> Session \<Rightarrow> bool" where
  "edited p s0 s \<longleftrightarrow> edited_at p (query_json s0) (query_json s) \<and> request_of s = request_of s0"

lemma query_json_set_json' [simp]: "query_json (set_json j s) = j"
  by (simp add: query_json_def set_json_def set_query_def)

lemma touch_edited: "edited p s0 s \<Longrightarrow> act_all (edited p s0) (touch_json (p @ q) s)"
  by (auto simp: touch_json_def edited_def read_at_def intro: edited_update split: run.splits)

lemma touch_request: "request_of s = b \<Longrightarrow> act_all (\<lambda>s. request_of s = b) (touch_json q s)"
  by (auto simp: touch_json_def split: run.splits)

lemma names_edited: "edited p s0 s \<Longrightarrow> act_all (edited p s0) (drop_table_names (p @ q) is s)"
proof (induction "is" arbitrary: s)
  case (Cons i "is")
  have "act_all (edited p s0) (touch_json ((p @ q) @ i @ ks) s)" for ks
    using touch_edited [OF Cons.prems, of "q @ i @ ks"] by simp
  with Cons.IH show ?case by (auto intro!: act_all_then)
qed simp

definition dropped :: "env \<Rightarrow> step list \<Rightarrow> Session \<Rightarrow> Session \<Rightarrow> bool" where
  "dropped env p s0 s \<longleftrightarrow> edited_at p (query_json s0) (query_json s)
     \<and> (request_of s = request_of s0
        \<or> (\<exists>sql. e_pg_deparse env (query_json s) = Some sql \<and> request_of s = SetQuery Buffer_new sql))"

lemma act_all_mono: "act_all P m \<Longrightarrow> (\<And>s. P s \<Longrightarrow> Q s) \<Longrightarrow> act_all Q m"
  by (cases m) auto

lemma edited_dropped: "edited p s0 s \<Longrightarrow> dropped env p s0 s"
  by (simp add: edited_def dropped_def)

lemma drop_written:
  assumes "edited n s0 s" "set_behavior n (query_json s) = Ret (u, j)"
    "ToString (e_pg_deparse env) (c_query (ctx (set_json j s))) = Ret q"
  shows "dropped env n s0 (set_request (SetQuery (request_of (set_json j s)) q) (set_json j s))"
proof -
  have "edited_at n (query_json s0) j"
    using edited_update [of n "query_json s0" "query_json s"] assms(1,2) by (auto simp: edited_def set_behavior_def)
  moreover obtain sql where "e_pg_deparse env j = Some sql" "q = cstr sql"
    using assms(3) by (auto simp: ToString_def set_json_def split: option.splits)
  ultimately show ?thesis
    unfolding dropped_def by (simp add: SetQuery_cstr) (metis SetQuery_any)
qed

lemma then_dropped:
  "act_all (edited n s0) m \<Longrightarrow> (\<And>s x. m = (s, Ret x) \<Longrightarrow> edited n s0 s \<Longrightarrow> act_all (dropped env n s0) (f s x))
     \<Longrightarrow> act_all (dropped env n s0) (then_do m f)"
  by (cases "(m, f)" rule: then_do.cases) (auto intro: edited_dropped)

lemma drop_plugin:
  assumes "FindNode (query_json s) ''DropStmt'' = Some n"
  shows "act_all (dropped env n s) (DropTablePlugIn env s)"
proof -
  have e: "edited n s s" by (simp add: edited_def edited_none)
  show ?thesis
  proof (cases "Query_bool (c_query (ctx s))")
    case True
    have written: "act_all (dropped env n s)
        (then_do (t, set_behavior n (query_json t)) (\<lambda>s (_, j).
         then_do (set_json j s, ToString (e_pg_deparse env) (c_query (ctx (set_json j s)))) (\<lambda>s qstr.
           (set_request (SetQuery (request_of s) qstr) s, Ret NoError))))" if t: "edited n s t" for t
    proof (cases "set_behavior n (query_json t)")
      case (Ret uj)
      obtain u j where uj: "uj = (u, j)" by (cases uj)
      have "edited n s (set_json j t)"
        using edited_update [of n "query_json s" "query_json t"] t Ret uj by (auto simp: edited_def set_behavior_def)
      then show ?thesis using drop_written [OF t] Ret uj edited_dropped
        by (cases "ToString (e_pg_deparse env) (c_query (ctx (set_json j t)))") auto
    qed (use t edited_dropped in auto)
    show ?thesis
      unfolding DropTablePlugIn_def using True assms e
      by (auto intro!: then_dropped touch_edited names_edited written edited_dropped
          split del: if_split split: option.splits exn.splits if_split)
  qed (simp add: DropTablePlugIn_def e edited_dropped)
qed

section \<open>The chain of plug-ins\<close>

lemma constraints_request: "request_of s = b \<Longrightarrow> act_all (\<lambda>s. request_of s = b) (inspect_constraints is p fl s)"
  by (induction "is" arbitrary: s fl) (auto intro!: act_all_then touch_request)

lemma column_request: "request_of s = b \<Longrightarrow> act_all (\<lambda>s. request_of s = b) (inspect_column p fl s)"
  unfolding inspect_column_def
  by (auto intro!: act_all_then touch_request constraints_request split del: if_split split: if_split)

lemma table_constraint_request: "request_of s = b \<Longrightarrow> act_all (\<lambda>s. request_of s = b) (inspect_table_constraint p fl s)"
  unfolding inspect_table_constraint_def
  by (auto intro!: act_all_then touch_request split del: if_split split: if_split)

lemma elements_request: "request_of s = b \<Longrightarrow> act_all (\<lambda>s. request_of s = b) (inspect_elements is p fl s)"
  by (induction "is" arbitrary: s fl) (auto intro!: act_all_then column_request table_constraint_request)

lemma ensure_request: "act_all (\<lambda>s. request_of s = request_of s0) (EnsureNewTableHasIdPlugIn env s0)"
  unfolding EnsureNewTableHasIdPlugIn_def
  by (auto intro!: act_all_then touch_request elements_request split del: if_split split: if_split option.split)

lemma apply_pre_next:
  assumes "apply_pre (p # ps) env s = (s', Ret e)" "\<not> Error_bool e"
  obtains s1 e1 where "p env s = (s1, Ret e1)" "\<not> Error_bool e1" "apply_pre ps env s1 = (s', Ret e)"
  using assms by (cases "p env s"; cases "snd (p env s)") (auto split: if_splits)

lemma last_plugins:
  assumes "apply_pre [DropTablePlugIn, EnsureNewTableHasIdPlugIn, RestrictInternalTableAccessPlugIn] env s = (s', Ret e)"
    "\<not> Error_bool e"
  shows "request_of s' = request_of s
    \<or> (\<exists>n j sql. FindNode (query_json s) ''DropStmt'' = Some n \<and> edited_at n (query_json s) j
        \<and> e_pg_deparse env j = Some sql \<and> request_of s' = SetQuery Buffer_new sql)"
proof -
  from apply_pre_next [OF assms] obtain s1 e1 where 1: "DropTablePlugIn env s = (s1, Ret e1)"
    "apply_pre [EnsureNewTableHasIdPlugIn, RestrictInternalTableAccessPlugIn] env s1 = (s', Ret e)" by metis
  from apply_pre_next [OF 1(2) assms(2)] obtain s2 e2 where 2: "EnsureNewTableHasIdPlugIn env s1 = (s2, Ret e2)"
    "apply_pre [RestrictInternalTableAccessPlugIn] env s2 = (s', Ret e)" by metis
  from 2(2) have "s' = s2" by (simp add: RestrictInternalTableAccessPlugIn_def)
  with ensure_request [of s1 env] 2(1) have r: "request_of s' = request_of s1" by simp
  show ?thesis
  proof (cases "FindNode (query_json s) ''DropStmt''")
    case None
    with 1(1) have "s1 = s" by (auto simp: DropTablePlugIn_def split: if_splits)
    with r show ?thesis by simp
  next
    case (Some n)
    from drop_plugin [OF this, of env] 1(1) have "dropped env n s s1" by simp
    with Some r show ?thesis unfolding dropped_def by auto
  qed
qed

lemma not_a_query:
  assumes "apply_pre pre_request_plugins env s = (s', Ret e)" "\<not> Error_bool e" "\<not> Query_bool (c_query (ctx s))"
    "byte_at (buf (request_of s)) 0 = Ret c" "c \<noteq> CHR ''Q''"
  shows "request_of s' = request_of s"
proof -
  have "ApplyPreRequestPlugins env s = Ret (Some PREPARE_TO_FORWARD_REQUEST, s')" by (rule apply_pre_act [OF assms(1,2)])
  with other_message_passes [OF assms(4,5,3), of env] show ?thesis by auto
qed

lemma last_sends:
  assumes "apply_pre [DropTablePlugIn, EnsureNewTableHasIdPlugIn, RestrictInternalTableAccessPlugIn] env s = (s', Ret e)"
    "\<not> Error_bool e"
  shows "request_of s' = request_of s \<or> sends_tree env (query_json s) (request_of s')"
  using last_plugins [OF assms] unfolding sends_tree_def by auto

lemma acl_sends:
  assumes "AclQueryPlugIn env s = (s3, Ret e4)" "c_query (ctx s) = \<lparr>q_valid = True, q_json = j\<rparr>"
    "smap_get (parameters s) ''rolsuper'' \<noteq> ''t''"
  obtains j' where "Acl_json (e_expand env) (st s) j = Ret j'" "query_json s3 = j'" "sends_tree env j' (request_of s3)"
proof -
  from assms obtain q where q: "Acl (e_expand env) (st s) (c_query (ctx s)) = Ret q"
    by (cases "Acl (e_expand env) (st s) (c_query (ctx s))") (auto simp: AclQueryPlugIn_def Let_def Query_bool_def)
  then have j': "Acl_json (e_expand env) (st s) j = Ret (q_json q)" using assms(2) by (auto simp: Acl_def run_simps)
  from q assms obtain sql where sql: "e_pg_deparse env (q_json q) = Some sql"
    by (cases "e_pg_deparse env (q_json q)") (auto simp: AclQueryPlugIn_def Let_def Query_bool_def ToString_def)
  from acl_plugin [OF assms(3) _ q sql] assms(1,2)
  have s3: "s3 = set_request (SetQuery (request_of s) (cstr sql))
       (set_query q (s\<lparr>parameters := smap_touch (parameters s) ''rolsuper''\<rparr>))" by (simp add: Query_bool_def)
  then have "request_of s3 = SetQuery Buffer_new sql" by (simp add: SetQuery_cstr) (rule SetQuery_any)
  with that [OF j'] sql s3 show thesis by (auto simp: sends_tree_def)
qed

lemma vetted_request:
  assumes "apply_pre pre_request_plugins env s = (s', Ret e)" "\<not> Error_bool e" "\<not> Query_bool (c_query (ctx s))"
  shows "vetted env s (request_of s')"
proof -
  from apply_pre_next [OF assms(1) [unfolded pre_request_plugins_def] assms(2)] obtain s1 e1 where
    1: "TranslateProxyCommandPlugIn env s = (s1, Ret e1)" "\<not> Error_bool e1"
      "apply_pre [ParseQueryPlugIn, AclQueryPlugIn, DropTablePlugIn, EnsureNewTableHasIdPlugIn,
         RestrictInternalTableAccessPlugIn] env s1 = (s', Ret e)" by metis
  from 1(1) obtain c where c: "byte_at (buf (request_of s)) 0 = Ret c"
    by (cases "byte_at (buf (request_of s)) 0") (auto simp: TranslateProxyCommandPlugIn_def)
  show ?thesis
  proof (cases "c = CHR ''Q''")
    case False
    with not_a_query [OF assms c] c show ?thesis by (auto simp: vetted_def)
  next
    case True
    with 1(1) c obtain raw where raw: "cstr_at (buf (request_of s)) 5 = Ret raw"
      by (cases "cstr_at (buf (request_of s)) 5") (auto simp: TranslateProxyCommandPlugIn_def)
    then have q: "query_request raw s" using raw c True by (simp add: query_request_def)
    obtain t e2 where t: "Translate (e_proxy_file env) raw = (t, e2)" by fastforce
    from 1(1,2) translate_plugin [OF q t] have e2: "\<not> Error_bool e2" "s1 = set_request (SetQuery (request_of s) t) s"
      by (auto split: if_splits)
    then have "e2 = NoError" by (simp add: Error_bool_def NoError_def)
    note t = t [unfolded this]
    have q1: "query_request (cstr t) s1" unfolding e2(2) by simp
    from apply_pre_next [OF 1(3) assms(2)] obtain s2 e3 where
      2: "ParseQueryPlugIn env s1 = (s2, Ret e3)"
        "apply_pre [AclQueryPlugIn, DropTablePlugIn, EnsureNewTableHasIdPlugIn, RestrictInternalTableAccessPlugIn] env s2
          = (s', Ret e)" by metis
    from 2(1) q1 obtain qu ep where p: "Parse (e_pg_parse env) (cstr t) = Ret (qu, ep)"
      by (cases "Parse (e_pg_parse env) (cstr t)") (auto simp: ParseQueryPlugIn_def query_request_def)
    from parse_plugin [OF q1 p] 2(1) have s2: "s2 = set_query qu s1" by simp
    from apply_pre_next [OF 2(2) assms(2)] obtain s3 e4 where
      3: "AclQueryPlugIn env s2 = (s3, Ret e4)"
        "apply_pre [DropTablePlugIn, EnsureNewTableHasIdPlugIn, RestrictInternalTableAccessPlugIn] env s3 = (s', Ret e)" by metis
    have b2: "request_of s2 = SetQuery Buffer_new t" unfolding s2 e2(2) by simp (rule SetQuery_any)
    note last = last_sends [OF 3(2) assms(2)]
    have keep: "st s2 = st s" "parameters s2 = parameters s" unfolding s2 e2(2) by simp_all
    show ?thesis
    proof (cases "e_pg_parse env (cstr t)")
      case (Inl err)
      with p have "qu = Query_new" by (simp add: Parse_def)
      with s2 acl_plugin_skip [of s2 env] 3(1)
      have "s3 = s2\<lparr>parameters := smap_touch (parameters s2) ''rolsuper''\<rparr>" "query_json s2 = q_json Query_new" by simp_all
      then have "query_json s3 = JNull" "request_of s3 = request_of s2" by (simp_all add: Query_new_def)
      with last_plugins [OF 3(2) assms(2)] b2 have "request_of s' = SetQuery Buffer_new t" by (simp add: FindNode.simps)
      with Inl q t show ?thesis unfolding vetted_def by auto
    next
      case (Inr r)
      with p obtain j where j: "r = Ret j" "qu = \<lparr>q_valid = True, q_json = j\<rparr>" by (auto simp: Parse_def run_simps)
      show ?thesis
      proof (cases "smap_get (parameters s) ''rolsuper'' = ''t''")
        case True
        with acl_plugin_skip [of s2 env] 3(1) keep s2 j
        have "query_json s3 = j" "request_of s3 = request_of s2" by simp_all
        with last b2 q t Inr j True show ?thesis unfolding vetted_def by auto
      next
        case False
        with acl_sends [OF 3(1), of j] keep s2 j obtain j' where
          j': "Acl_json (e_expand env) (st s) j = Ret j'" "query_json s3 = j'" "sends_tree env j' (request_of s3)" by auto
        with last have "sends_tree env j' (request_of s')" by auto
        with Acl_query_ok(1) [OF j'(1)] j' q t Inr j False show ?thesis unfolding vetted_def by auto
      qed
    qed
  qed
qed

section \<open>Runs\<close>

lemma forward_entered:
  assumes "session_action e n s = Ret (Some FORWARD_REQUEST, s')"
  shows "n = PREPARE_TO_FORWARD_REQUEST \<and> request_of s' = request_of s"
  using assms
  by (cases n) (auto simp: session_action_def Initiate_def PrepareToReceiveRequest_def ReceiveRequest_def
      ApplyPreRequestPlugins_def respond_error_def PrepareToForwardRequest_def ForwardRequest_def
      PrepareToReceiveResponse_def ReceiveResponse_def ApplyPostResponsePlugins_def PrepareToForwardResponse_def
      ForwardResponse_def ResetContext_def run_simps Let_def wait_for_def request_of_def
      split: prod.splits run.splits if_splits)

lemma lookup_request: "act_all (\<lambda>t. request_of t = request_of s) (lookup_rolsuper e s)"
  unfolding lookup_rolsuper_def by (auto intro!: act_all_then)

lemma initiate_request:
  assumes "Initiate e s = Ret (n, s')"
  shows "request_of s' = request_of s \<and> n = Some PREPARE_TO_FORWARD_REQUEST"
proof (cases "Buffer_Size (request_of s) \<le> 8")
  case False
  with assms obtain ps where ps: "parse_params (buf (request_of s)) 8 (parameters s) = Ret ps"
    by (auto simp: Initiate_def run_simps)
  obtain t r where t: "lookup_rolsuper e (s\<lparr>parameters := ps\<rparr>) = (t, r)" by fastforce
  with False ps assms have "n = Some PREPARE_TO_FORWARD_REQUEST" "s' = t\<lparr>ctx := (ctx t)\<lparr>c_initiated := True\<rparr>\<rparr>"
    by (auto simp: Initiate_def run_simps)
  with t lookup_request [of "s\<lparr>parameters := ps\<rparr>" e] show ?thesis by (simp add: request_of_def)
qed (use assms in \<open>simp add: Initiate_def\<close>)

lemma prepare_entered:
  assumes "session_action e n s = Ret (Some PREPARE_TO_FORWARD_REQUEST, s')" "n \<noteq> INITIATE"
  shows "n = APPLY_PRE_REQUEST_PLUGINS \<and> (\<exists>err. apply_pre pre_request_plugins e s = (s', Ret err) \<and> \<not> Error_bool err)"
proof (cases n)
  case APPLY_PRE_REQUEST_PLUGINS
  obtain s1 r where r: "apply_pre pre_request_plugins e s = (s1, r)" by fastforce
  have "\<not> respond_error err s0 = Ret (Some PREPARE_TO_FORWARD_REQUEST, s')" for err s0
    by (auto simp: respond_error_def run_simps)
  with assms(1) r show ?thesis
    by (cases r) (auto simp: APPLY_PRE_REQUEST_PLUGINS session_action_def ApplyPreRequestPlugins_def split: if_splits)
next
  case RECEIVE_REQUEST
  with assms show ?thesis by (auto simp: session_action_def ReceiveRequest_def run_simps Let_def split: prod.splits if_splits)
next
  case RECEIVE_RESPONSE
  with assms show ?thesis by (auto simp: session_action_def ReceiveResponse_def run_simps Let_def split: prod.splits if_splits)
next
  case APPLY_POST_RESPONSE_PLUGINS
  with assms show ?thesis
    by (auto simp: session_action_def ApplyPostResponsePlugins_def respond_error_def run_simps split: prod.splits run.splits if_splits)
qed (use assms in \<open>auto simp: session_action_def PrepareToReceiveRequest_def PrepareToForwardRequest_def ForwardRequest_def
      PrepareToReceiveResponse_def PrepareToForwardResponse_def ForwardResponse_def ResetContext_def Let_def
      split: prod.splits if_splits\<close>)

lemma sent_after:
  assumes "session_action e n s = Ret (Some PREPARE_TO_FORWARD_REQUEST, s')"
  shows "n = INITIATE \<and> request_of s' = request_of s
    \<or> n = APPLY_PRE_REQUEST_PLUGINS \<and> (\<exists>err. apply_pre pre_request_plugins e s = (s', Ret err) \<and> \<not> Error_bool err)"
proof (cases "n = INITIATE")
  case True
  with assms initiate_request [of e s "Some PREPARE_TO_FORWARD_REQUEST" s'] show ?thesis by (simp add: session_action_def)
next
  case False
  with prepare_entered [OF assms] show ?thesis by blast
qed

definition no_query :: "sstate option \<Rightarrow> Session \<Rightarrow> bool" where
  \<comment> \<open>until its plug-ins run, a request has no parsed query\<close>
  "no_query n s \<longleftrightarrow> (n \<in> Some ` {PREPARE_TO_RECEIVE_REQUEST, RECEIVE_REQUEST, INITIATE, APPLY_PRE_REQUEST_PLUGINS}
     \<longrightarrow> \<not> Query_bool (c_query (ctx s)))"

lemma no_query_action:
  assumes "no_query (Some n) s" "session_action e n s = Ret (n', s')"
  shows "no_query n' s'"
proof -
  have plugins: "n' = Some PREPARE_TO_FORWARD_REQUEST \<or> n' = Some PREPARE_TO_FORWARD_RESPONSE"
    if "n = APPLY_PRE_REQUEST_PLUGINS \<or> n = APPLY_POST_RESPONSE_PLUGINS"
    using that assms(2)
    by (auto simp: session_action_def ApplyPreRequestPlugins_def ApplyPostResponsePlugins_def respond_error_def run_simps
        split: prod.splits run.splits if_splits)
  show ?thesis
  proof (cases "n \<in> {INITIATE, APPLY_PRE_REQUEST_PLUGINS, APPLY_POST_RESPONSE_PLUGINS}")
    case True
    with plugins assms(2) initiate_request [of e s n' s'] show ?thesis by (auto simp: session_action_def no_query_def)
  next
    case False
    with assms show ?thesis
      by (cases n) (auto simp: no_query_def session_action_def PrepareToReceiveRequest_def ReceiveRequest_def
          PrepareToForwardRequest_def ForwardRequest_def PrepareToReceiveResponse_def ReceiveResponse_def
          PrepareToForwardResponse_def ForwardResponse_def ResetContext_def run_simps Let_def wait_for_def stop_waiting_def
          set_request_def fail_with_def Context_Reset_def Context_new_def split: prod.splits if_splits)
  qed
qed

interpretation unparsed: machine session_action env_ok PREPARE_TO_RECEIVE_REQUEST
    "\<lambda>s. \<exists>cl sv t. s = Session_new cl sv t" "\<lambda>n s. sess_inv n s \<and> no_query n s"
proof unfold_locales
  fix s assume "\<exists>cl sv t. s = Session_new cl sv t"
  then show "sess_inv (Some PREPARE_TO_RECEIVE_REQUEST) s \<and> no_query (Some PREPARE_TO_RECEIVE_REQUEST) s"
    using session.inv_start by (auto simp: no_query_def Session_new_def Context_new_def)
qed (use action_inv no_query_action in blast)

lemma run_last:
  assumes "\<forall>e \<in> set envs. env_ok e" "run_session envs (Session_new cl sv t) = Ret (m, s)"
    "current_state m = Some n" "n \<noteq> PREPARE_TO_RECEIVE_REQUEST"
  obtains pre e m0 s0 n0 where "envs = pre @ [e]" "run_session pre (Session_new cl sv t) = Ret (m0, s0)"
    "current_state m0 = Some n0" "session_action e n0 s0 = Ret (Some n, s)" "sess_inv (Some n0) s0" "no_query (Some n0) s0"
proof -
  have "envs \<noteq> []" using assms(2-4) by (auto simp: run_session_def SetInitialState_def)
  then obtain pre e where e: "envs = pre @ [e]" by (metis rev_exhaust)
  from assms(2) obtain m0 s0 where m0: "run_session pre (Session_new cl sv t) = Ret (m0, s0)"
    "TakeAction (session_action e) m0 s0 = Ret (m, s)"
    unfolding run_session_def e take_actions_append by (auto simp: run_simps)
  have inv: "sess_inv (current_state m0) s0 \<and> no_query (current_state m0) s0 \<and> (terminated m0 \<longleftrightarrow> current_state m0 = None)"
    using unparsed.reached_inv [of pre "Session_new cl sv t" m0 s0] assms(1) m0(1) e by (auto simp: run_session_def)
  from m0(2) assms(3) inv obtain n0 where "current_state m0 = Some n0" "session_action e n0 s0 = Ret (Some n, s)"
    by (auto simp: TakeAction_def run_simps split: if_splits option.splits)
  with that e m0(1) inv show thesis by simp
qed



end
