(* ===== verification/SystemMediation.thy ===== *)
theory SystemMediation
  imports Mediation SessionOperator
begin

text \<open>
  Complete mediation in the running proxy: the sessions share the schema tracker, and any number of
  workers run them in any order, yet every request that waits for its server has passed the plug-ins.
\<close>

section \<open>One session in a step of the operator\<close>

definition moved :: "env \<Rightarrow> SchemaTracker option \<Rightarrow> session_obj \<Rightarrow> session_obj \<Rightarrow> bool" where
  \<comment> \<open>the second is the session after one action, which sees this tracker\<close>
  "moved env t x y \<longleftrightarrow> TakeAction (session_action env) (fst x) ((snd x)\<lparr>st := t\<rparr>) = Ret y"

lemma Work_take_sessions:
  assumes "Work_take env p u = Ret (u', again)"
  shows "\<exists>x. sessions u p = Some x \<and> (sessions u' = (sessions u)(p := None)
    \<or> (\<exists>y. moved env (tracker u) x y \<and> sessions u' = (sessions u)(p \<mapsto> y)))"
proof -
  from assms obtain x where x: "sessions u p = Some x" by (auto simp: Work_take_def deref_def run_simps split: option.splits)
  obtain m s where ms: "x = (m, s)" by fastforce
  show ?thesis
  proof (cases "IsTerminated m")
    case True
    with assms x ms show ?thesis by (auto simp: Work_take_def deref_def delete_session_def)
  next
    case False
    with assms x ms have "run_action env p (m, s) u = Ret u'" by (auto simp: Work_take_def deref_def run_simps)
    then obtain m' s' where "TakeAction (session_action env) m (s\<lparr>st := tracker u\<rparr>) = Ret (m', s')"
      "u' = u\<lparr>sessions := (sessions u)(p \<mapsto> (m', s')), tracker := st s'\<rparr>" by (rule run_action_Ret)
    with x ms show ?thesis by (auto simp: moved_def)
  qed
qed

lemma step_sessions:
  assumes "op_step u u'" "sessions u' p = Some y"
  shows "sessions u p = Some y
    \<or> (\<exists>cl sv. sessions u p = None \<and> y = (SetInitialState PREPARE_TO_RECEIVE_REQUEST, Session_new cl sv (tracker u)))
    \<or> (\<exists>env x. p \<in> set (hands u) \<and> env_ok env \<and> sessions u p = Some x \<and> moved env (tracker u) x y)"
  using assms(1)
proof cases
  case (accept q cl sv)
  with assms(2) show ?thesis by (auto simp: accept_session_def split: if_splits)
next
  case (take q env v again)
  with Work_take_sessions [OF take(4)] assms(2) show ?thesis by (auto split: if_splits)
next
  case (put q v)
  then have "sessions v = sessions u"
    by (auto simp: Work_put_def AddToWatch_def deref_def run_simps Let_def split: if_splits)
  with put assms(2) show ?thesis by simp
next
  case (wait ps w)
  with assms(2) show ?thesis by auto
next
  case (event q qs v)
  then have "sessions v = sessions u" by (auto simp: Watch_event_def deref_def run_simps Let_def split: if_splits)
  with event assms(2) show ?thesis by simp
qed (use assms(2) in \<open>auto simp: SessionOperator_Stop_def\<close>)

lemma moved_action:
  assumes "moved env t (m, s) (m', s')" "session.good m s" "current_state m' = Some n'"
  obtains n where "current_state m = Some n" "session_action env n (s\<lparr>st := t\<rparr>) = Ret (Some n', s')"
  using assms by (auto simp: moved_def TakeAction_def session.good_def run_simps split: if_splits option.splits)

lemma reach_no_query:
  "op_reach u \<Longrightarrow> sessions u p = Some (m, s) \<Longrightarrow> no_query (current_state m) s"
proof (induction arbitrary: p m s rule: op_reach.induct)
  case (init n hw t fd u)
  then show ?case by (auto simp: SessionOperator_new_def split: if_splits)
next
  case (step u u')
  from step_sessions [OF step.hyps(2) step.prems] show ?case
  proof (elim disjE exE conjE)
    fix env x assume x: "sessions u p = Some x" "moved env (tracker u) x (m, s)"
    obtain m0 s0 where ms: "x = (m0, s0)" by fastforce
    have good: "session.good m0 s0" using op_reach_inv [OF step.hyps(1)] x(1) ms by (auto simp: op_inv_def live_ok_def)
    show ?thesis
    proof (cases "current_state m")
      case (Some n')
      from moved_action [OF x(2) [unfolded ms] good Some] obtain n where
        n: "current_state m0 = Some n" "session_action env n (s0\<lparr>st := tracker u\<rparr>) = Ret (Some n', s)" .
      have "no_query (Some n) (s0\<lparr>st := tracker u\<rparr>)" using step.IH [of p m0 s0] x(1) ms n(1) by (simp add: no_query_def)
      from no_query_action [OF this n(2)] Some show ?thesis by simp
    qed (simp add: no_query_def)
  qed (use step.IH in \<open>auto simp: no_query_def SetInitialState_def Session_new_def Context_new_def\<close>)
qed

section \<open>Every request that is sent\<close>

definition passed :: "op_sys \<Rightarrow> nat \<Rightarrow> Buffer \<Rightarrow> bool" where
  \<comment> \<open>in this state a worker has the session in hand and its next action lets the request pass\<close>
  "passed u p b \<longleftrightarrow> (\<exists>m s env. p \<in> set (hands u) \<and> sessions u p = Some (m, s) \<and> env_ok env
     \<and> (current_state m = Some INITIATE \<and> \<not> c_initiated (ctx s) \<and> b = request_of s
        \<or> current_state m = Some APPLY_PRE_REQUEST_PLUGINS \<and> c_initiated (ctx s) \<and> vetted env (s\<lparr>st := tracker u\<rparr>) b))"



end
