(* ===== verification/ThreadLife.thy ===== *)
theory ThreadLife
  imports ThreadPool
begin

text \<open>
  The life of the threads of \<open>concurrency/thread-pool.h\<close> and \<open>session/session-operator.cpp\<close>: \<open>Start\<close> creates
  the workers and the watcher, each of which tests the flag and works in turn, and \<open>Stop\<close> sets the flag
  and joins them one after the other.
\<close>

section \<open>Threads\<close>

text \<open>
  A \<open>std::thread\<close> is not joinable before it is started and after it was joined. A running one is about
  to test the flag of its loop, inside its work, or past the loop. What a call of \<open>Work\<close>, or one round of
  \<open>Watch\<close>, does to the queue is left open here; both wait with a deadline, so they return.
\<close>

datatype phase = NotJoinable | Testing | Working | Exited

datatype stop_state = NotCalled | Joining nat | Returned | Threw

record 'j thread_sys =
  t_pool :: "'j ThreadPool"
  t_phases :: "phase list"
  t_stop :: stop_state

definition threads_new :: "'j ThreadPool \<Rightarrow> 'j thread_sys" where
  \<comment> \<open>\<open>threads_.resize(num_threads_)\<close>, and the watcher of the operator behind them\<close>
  "threads_new p = \<lparr>t_pool = p, t_phases = replicate (num_threads p + 1) NotJoinable, t_stop = NotCalled\<rparr>"

definition threads_Start :: "'j thread_sys \<Rightarrow> 'j thread_sys" where
  "threads_Start u = u\<lparr>t_phases := map (\<lambda>_. Testing) (t_phases u)\<rparr>"

definition threads_Stop :: "'j thread_sys \<Rightarrow> 'j thread_sys" where
  \<comment> \<open>up to the first \<open>join\<close>\<close>
  "threads_Stop u = u\<lparr>t_pool := ThreadPool_Stop (t_pool u), t_stop := Joining 0\<rparr>"

inductive thread_step :: "'j thread_sys \<Rightarrow> 'j thread_sys \<Rightarrow> bool" where
  test: "i < length (t_phases u) \<Longrightarrow> t_phases u ! i = Testing \<Longrightarrow>
     thread_step u (u\<lparr>t_phases := (t_phases u)[i := if ThreadPool_IsStopped (t_pool u) then Exited else Working]\<rparr>)"
| work: "i < length (t_phases u) \<Longrightarrow> t_phases u ! i = Working \<Longrightarrow>
     ThreadPool_IsStopped p = ThreadPool_IsStopped (t_pool u) \<Longrightarrow>
     thread_step u (u\<lparr>t_pool := p, t_phases := (t_phases u)[i := Testing]\<rparr>)"
| stop: "t_stop u = NotCalled \<Longrightarrow> thread_step u (threads_Stop u)"
| join: "t_stop u = Joining k \<Longrightarrow> k < length (t_phases u) \<Longrightarrow> t_phases u ! k = Exited \<Longrightarrow>
     thread_step u (u\<lparr>t_phases := (t_phases u)[k := NotJoinable], t_stop := Joining (Suc k)\<rparr>)"
| join_throws: "t_stop u = Joining k \<Longrightarrow> k < length (t_phases u) \<Longrightarrow> t_phases u ! k = NotJoinable \<Longrightarrow>
     thread_step u (u\<lparr>t_stop := Threw\<rparr>)"
| joined: "t_stop u = Joining k \<Longrightarrow> k = length (t_phases u) \<Longrightarrow> thread_step u (u\<lparr>t_stop := Returned\<rparr>)"

section \<open>Stopping\<close>

definition started :: "'j thread_sys \<Rightarrow> bool" where
  \<comment> \<open>joined are exactly the threads \<open>Stop\<close> has come past, and the flag is set once \<open>Stop\<close> was called\<close>
  "started u \<longleftrightarrow> (case t_stop u of
       NotCalled \<Rightarrow> NotJoinable \<notin> set (t_phases u)
     | Joining k \<Rightarrow> ThreadPool_IsStopped (t_pool u) \<and> k \<le> length (t_phases u)
         \<and> (\<forall>i < length (t_phases u). t_phases u ! i = NotJoinable \<longleftrightarrow> i < k)
     | Returned \<Rightarrow> set (t_phases u) \<subseteq> {NotJoinable}
     | Threw \<Rightarrow> False)"

fun rounds :: "phase \<Rightarrow> nat" where
  "rounds NotJoinable = 0"
| "rounds Exited = 1"
| "rounds Testing = 2"
| "rounds Working = 3"

definition to_do :: "'j thread_sys \<Rightarrow> nat" where
  "to_do u = sum_list (map rounds (t_phases u)) + (if t_stop u = Returned then 0 else 1)"

lemma sum_list_rounds: "i < length ps \<Longrightarrow>
    sum_list (map rounds (ps[i := q])) + rounds (ps ! i) = sum_list (map rounds ps) + rounds q"
proof (induction ps arbitrary: i)
  case (Cons p ps)
  then show ?case by (cases i) auto
qed simp

lemma started_Joining:
  "started u \<Longrightarrow> t_stop u = Joining k \<Longrightarrow> ThreadPool_IsStopped (t_pool u) \<and> k \<le> length (t_phases u)
     \<and> (\<forall>i < length (t_phases u). t_phases u ! i = NotJoinable \<longleftrightarrow> i < k)"
  by (simp add: started_def)

lemma started_running:
  assumes "started u" "i < length (t_phases u)" "t_phases u ! i \<noteq> NotJoinable"
  shows "t_stop u \<noteq> Returned"
proof
  assume "t_stop u = Returned"
  with assms(1) have "set (t_phases u) \<subseteq> {NotJoinable}" by (simp add: started_def)
  with assms(2,3) nth_mem show False by blast
qed

lemma started_goes_on:
  assumes "started u" "i < length (t_phases u)" "t_phases u ! i \<noteq> NotJoinable" "q \<noteq> NotJoinable"
    "ThreadPool_IsStopped p = ThreadPool_IsStopped (t_pool u)"
  shows "started (u\<lparr>t_pool := p, t_phases := (t_phases u)[i := q]\<rparr>)"
proof (cases "t_stop u")
  case NotCalled
  with assms show ?thesis by (auto simp: started_def dest!: set_update_subset_insert [THEN subsetD])
next
  case (Joining k)
  with started_Joining [OF assms(1)] assms(2-5) show ?thesis by (auto simp: started_def nth_list_update)
qed (use assms(1) started_running [OF assms(1-3)] in \<open>simp_all add: started_def\<close>)

lemma started_step:
  assumes "thread_step u u'" "started u"
  shows "started u'"
  using assms(1)
proof cases
  case (test i)
  with started_goes_on [OF assms(2), of i _ "t_pool u"] show ?thesis by simp
next
  case (work i p)
  with started_goes_on [OF assms(2), of i _ p] show ?thesis by simp
next
  case stop
  with assms(2) show ?thesis
    by (auto simp: started_def threads_Stop_def ThreadPool_Stop_def ThreadPool_IsStopped_def dest: nth_mem)
next
  case (join k)
  with started_Joining [OF assms(2)] show ?thesis by (auto simp: started_def nth_list_update)
next
  case (join_throws k)
  with started_Joining [OF assms(2)] show ?thesis by auto
next
  case (joined k)
  with started_Joining [OF assms(2)] show ?thesis by (auto simp: started_def in_set_conv_nth)
qed

lemma to_do_step:
  assumes "thread_step u u'" "started u" "t_stop u \<noteq> NotCalled"
  shows "to_do u' < to_do u \<and> t_stop u' \<noteq> NotCalled"
  using assms(1)
proof cases
  case (test i)
  then have "t_stop u \<noteq> Returned" using started_running [OF assms(2), of i] by simp
  then obtain k where "t_stop u = Joining k" using assms(2,3) by (cases "t_stop u") (auto simp: started_def)
  with started_Joining [OF assms(2)] sum_list_rounds [of i "t_phases u" Exited] test show ?thesis by (simp add: to_do_def)
next
  case (work i p)
  with sum_list_rounds [of i "t_phases u" Testing] assms(3) show ?thesis by (simp add: to_do_def)
next
  case (join k)
  with sum_list_rounds [of k "t_phases u" NotJoinable] show ?thesis by (simp add: to_do_def)
next
  case (join_throws k)
  with started_Joining [OF assms(2)] show ?thesis by auto
qed (use assms(3) in \<open>simp_all add: to_do_def\<close>)

lemma stuck_returned:
  assumes "started u" "t_stop u \<noteq> NotCalled" "\<forall>u'. \<not> thread_step u u'"
  shows "t_stop u = Returned \<and> set (t_phases u) \<subseteq> {NotJoinable}"
proof (cases "t_stop u")
  case (Joining k)
  note k = started_Joining [OF assms(1) this]
  have "k < length (t_phases u)" using assms(3) thread_step.joined [OF Joining] k by fastforce
  with k have "t_phases u ! k \<noteq> NotJoinable" by auto
  with \<open>k < length (t_phases u)\<close> assms(3) thread_step.join [OF Joining] thread_step.test [of k u] thread_step.work [of k u "t_pool u"]
  show ?thesis by (cases "t_phases u ! k") auto
qed (use assms in \<open>auto simp: started_def\<close>)

lemma stopping_bound:
  "(thread_step ^^ n) u u' \<Longrightarrow> started u \<Longrightarrow> t_stop u \<noteq> NotCalled \<Longrightarrow> started u' \<and> t_stop u' \<noteq> NotCalled \<and> n + to_do u' \<le> to_do u"
proof (induction n arbitrary: u')
  case (Suc n)
  from Suc.prems(1) obtain v where v: "(thread_step ^^ n) u v" "thread_step v u'" by auto
  from Suc.IH [OF v(1) Suc.prems(2,3)] to_do_step [OF v(2)] started_step [OF v(2)] show ?case by auto
qed simp

lemma to_do_le: "to_do u \<le> 3 * length (t_phases u) + 1"
proof -
  have "sum_list (map rounds ps) \<le> 3 * length ps" for ps
  proof (induction ps)
    case (Cons p ps)
    then show ?case by (cases p) auto
  qed simp
  then show ?thesis by (auto simp: to_do_def intro: le_SucI)
qed

lemma step_length: "thread_step u u' \<Longrightarrow> length (t_phases u') = length (t_phases u)"
  by (induction rule: thread_step.induct) (auto simp: threads_Stop_def)

lemma start_reaches:
  assumes "thread_step\<^sup>*\<^sup>* (threads_Start (threads_new p)) u"
  shows "started u \<and> length (t_phases u) = num_threads p + 1"
  using assms
proof induction
  case base
  show ?case by (auto simp: started_def threads_Start_def threads_new_def)
next
  case (step u u')
  with started_step step_length show ?case by metis
qed

section \<open>Properties\<close>


text \<open>\<open>Stop\<close> on threads that were never started throws at its first \<open>join\<close>.\<close>
lemma stop_unstarted:
  "\<exists>u. thread_step\<^sup>*\<^sup>* (threads_new p) u \<and> t_stop u = Threw"
proof -
  have "thread_step (threads_new p) (threads_Stop (threads_new p))" by (rule thread_step.stop) (simp add: threads_new_def)
  moreover have "thread_step (threads_Stop (threads_new p)) (threads_Stop (threads_new p)\<lparr>t_stop := Threw\<rparr>)"
    by (rule thread_step.join_throws [where k = 0]) (simp_all add: threads_new_def threads_Stop_def nth_Cons')
  ultimately have "thread_step\<^sup>*\<^sup>* (threads_new p) (threads_Stop (threads_new p)\<lparr>t_stop := Threw\<rparr>)" by simp
  then show ?thesis by (rule exI [of _ "threads_Stop (threads_new p)\<lparr>t_stop := Threw\<rparr>", OF conjI]) simp
qed


end
