(* ===== verification/JsonPaths.thy ===== *)
theory JsonPaths
  imports Json
begin

text \<open>
  Reading and changing a parse tree through a path that exists: an access below a node changes that node
  only, and an access to a value that is there leaves a sorted tree as it is.
\<close>

fun child :: "step \<Rightarrow> json \<Rightarrow> json option" where
  "child (Key k) (JObj kvs) = map_of kvs k"
| "child (Idx i) (JArr vs) = (if i < length vs then Some (vs ! i) else None)"
| "child _ _ = None"

fun node_at :: "step list \<Rightarrow> json \<Rightarrow> json option" where
  "node_at [] j = Some j"
| "node_at (k # ks) j = (case child k j of None \<Rightarrow> None | Some v \<Rightarrow> node_at ks v)"

fun put_at :: "step list \<Rightarrow> json \<Rightarrow> json \<Rightarrow> json" where
  "put_at [] v j = v"
| "put_at (k # ks) v j = (case child k j of None \<Rightarrow> j | Some w \<Rightarrow> set_field k (put_at ks v w) j)"

lemma child_field: "child k j = Some v \<Longrightarrow> field k j = Ret v"
  by (cases "(k, j)" rule: child.cases) (auto split: if_splits)

lemma child_set_field: "child k j = Some v \<Longrightarrow> child k (set_field k w j) = Some w"
  by (cases "(k, j)" rule: child.cases) (auto split: if_splits)

lemma node_at_append: "node_at (p @ q) j = (case node_at p j of None \<Rightarrow> None | Some v \<Rightarrow> node_at q v)"
  by (induction p arbitrary: j) (auto split: option.splits)

lemma node_put_at: "node_at p j = Some v \<Longrightarrow> node_at p (put_at p w j) = Some w"
  by (induction p arbitrary: j) (auto split: option.splits simp: child_set_field)

lemma update_below:
  "node_at p j = Some v \<Longrightarrow> update_at (p @ q) f j = bind_run (update_at q f v) (\<lambda>(x, v'). Ret (x, put_at p v' j))"
proof (induction p arbitrary: j)
  case Nil
  show ?case using Nil by (cases "update_at q f v") auto
next
  case (Cons k p)
  from Cons.prems obtain w where w: "child k j = Some w" "node_at p w = Some v" by (auto split: option.splits)
  show ?case using w Cons.IH [OF w(2)] child_field [OF w(1)]
    by (cases "update_at q f v") auto
qed

lemma read_below:
  "node_at p j = Some v \<Longrightarrow> read_at q v = Ret (x, v') \<Longrightarrow> read_at (p @ q) j = Ret (x, put_at p v' j)"
  unfolding read_at_def by (subst update_below) auto

section \<open>Sorted trees\<close>

lemma index_items_nth: "i < length vs \<Longrightarrow> (dec_nat (n + i), vs ! i) \<in> set (index_items n vs)"
proof (induction vs arbitrary: i n)
  case (Cons v vs)
  show ?case
  proof (cases i)
    case (Suc k)
    with Cons.prems Cons.IH [of k "Suc n"] show ?thesis by simp
  qed simp
qed simp

lemma json_wf_child:
  assumes "json_wf j" "child k j = Some v"
  shows "json_wf v"
proof (cases "(k, j)" rule: child.cases)
  case (1 k' kvs)
  with assms(2) have "(k', v) \<in> set (items j)" by (simp add: map_of_SomeD)
  with json_wf_items [OF assms(1)] 1 show ?thesis by fastforce
next
  case (2 i vs)
  with assms(2) have "(dec_nat (0 + i), v) \<in> set (items j)" using index_items_nth [of i vs 0] by (auto split: if_splits)
  with json_wf_items [OF assms(1)] 2 show ?thesis by fastforce
qed (use assms(2) in auto)

lemma read_existing: "json_wf j \<Longrightarrow> node_at q j = Some v \<Longrightarrow> read_at q j = Ret (v, j)"
proof (induction q arbitrary: j)
  case (Cons k q)
  from Cons.prems obtain w where w: "child k j = Some w" "node_at q w = Some v" by (auto split: option.splits)
  have same: "set_field k w j = j"
    using w(1) Cons.prems(1)
    by (cases "(k, j)" rule: child.cases) (auto split: if_splits simp: obj_put_same json_wf_sorted)
  from Cons.IH [OF json_wf_child [OF Cons.prems(1) w(1)] w(2)] child_field [OF w(1)] same
  show ?case by (simp add: read_at_def)
qed (simp add: read_at_def)

lemma json_wf_node: "json_wf j \<Longrightarrow> node_at p j = Some v \<Longrightarrow> json_wf v"
  by (induction p arbitrary: j) (auto split: option.splits dest: json_wf_child)

section \<open>The first statement of a query\<close>

definition statement :: "string \<Rightarrow> json \<Rightarrow> (string \<times> json) list \<Rightarrow> json list \<Rightarrow> (string \<times> json) list \<Rightarrow> json" where
  \<comment> \<open>a parse tree whose first statement is of the kind \<open>k\<close>, with whatever stands beside it\<close>
  "statement k v r1 r2 r3 = JObj ((''stmts'', JArr (JObj ((''stmt'', JObj [(k, v)]) # r1) # r2)) # r3)"

definition first_statement :: "string \<Rightarrow> step list" where
  "first_statement k = [Key ''stmts'', Idx 0, Key ''stmt'', Key k]"

lemma FindNode_statement:
  assumes "k \<notin> {''stmts'', ''stmt''}" "\<forall>c \<in> set k. of_char c \<notin> {48..57::nat}"
  shows "FindNode (statement k v r1 r2 r3) k = Some (first_statement k)"
  using assms(1) dec_nat_not_word [OF assms(2)]
  by (auto simp: statement_def first_statement_def FindNode.simps)

lemma node_statement [simp]: "node_at (first_statement k) (statement k v r1 r2 r3) = Some v"
  by (simp add: statement_def first_statement_def)

lemma FindNode_no_key: "key \<notin> set (keys_of j) \<Longrightarrow> FindNode j key = None"
  by (simp add: FindNode_None)

lemma put_statement [simp]: "put_at (first_statement k) w (statement k v r1 r2 r3) = statement k w r1 r2 r3"
  by (simp add: statement_def first_statement_def)

lemma FindNode_in_statement:
  assumes "key \<notin> {''stmts'', ''stmt'', k}" "\<forall>c \<in> set key. of_char c \<notin> {48..57::nat}" "FindNode v key = Some p"
  shows "FindNode (statement k v r1 r2 r3) key = Some (first_statement k @ p)"
proof -
  have "\<not> is_primitive v" using assms(3) by (simp add: FindNode.simps [of v] split: if_splits)
  then show ?thesis
    using assms(1,3) dec_nat_not_word [OF assms(2)]
    by (auto simp: statement_def first_statement_def FindNode.simps [of "JObj (_ # _)"] FindNode.simps [of "JArr (_ # _)"])
qed

end
