(* ===== verification/PlugInProps.thy ===== *)
theory PlugInProps
  imports SessionRuns JsonPaths
begin

text \<open>
  What the plug-ins for tables and roles do with the statements they look for: the check of a new table,
  the cascade of a dropped one, and what a finished statement changes in the session.
\<close>

section \<open>Touching a node of the query\<close>

definition focus :: "step list \<Rightarrow> json \<Rightarrow> Session \<Rightarrow> Session \<Rightarrow> bool" where
  \<comment> \<open>the second session differs from the first in its query only, which has this node\<close>
  "focus p v s s' \<longleftrightarrow> (\<exists>j. s' = set_json j s \<and> node_at p j = Some v)"

lemma query_json_set_json [simp]: "query_json (set_json j s) = j"
  by (simp add: query_json_def set_json_def set_query_def)

lemma set_json_twice [simp]: "set_json j (set_json i s) = set_json j s"
  by (simp add: set_json_def set_query_def)

lemma set_json_same [simp]: "set_json (query_json s) s = s"
  by (simp add: query_json_def set_json_def set_query_def)

lemma focus_start: "node_at p (query_json s) = Some v \<Longrightarrow> focus p v s s"
  unfolding focus_def by (intro exI [of _ "query_json s"]) simp

lemma touch_below:
  assumes "focus p v s0 s" "read_at q v = Ret (x, v')"
  shows "\<exists>s'. touch_json (p @ q) s = (s', Ret x) \<and> focus p v' s0 s'"
proof -
  from assms(1) obtain j where j: "s = set_json j s0" "node_at p j = Some v" by (auto simp: focus_def)
  from read_below [OF j(2) assms(2)] j node_put_at [OF j(2)] show ?thesis
    by (auto simp: touch_json_def focus_def)
qed

lemma read_element:
  "i < length es \<Longrightarrow> read_at q (es ! i) = Ret (x, e') \<Longrightarrow> read_at (Idx i # q) (JArr es) = Ret (x, JArr (es[i := e']))"
  by (simp add: read_at_def)

lemma touch_element:
  assumes "focus p (JArr es) s0 s" "i < length es" "read_at q (es ! i) = Ret (x, e')"
  shows "\<exists>s'. touch_json ((p @ [Idx i]) @ q) s = (s', Ret x) \<and> focus p (JArr (es[i := e'])) s0 s'"
  using touch_below [OF assms(1) read_element [OF assms(2,3)]] by simp

lemma touch_element_same:
  assumes "focus p (JArr es) s0 s" "i < length es" "json_wf (es ! i)" "node_at q (es ! i) = Some x"
  shows "\<exists>s'. touch_json ((p @ [Idx i]) @ q) s = (s', Ret x) \<and> focus p (JArr es) s0 s'"
  using touch_element [OF assms(1,2) read_existing [OF assms(3,4)]] by simp

section \<open>New tables\<close>

datatype table_elem = Column string "string list" | TableConstraint string "string list"

definition constraint_of :: "string \<Rightarrow> json \<Rightarrow> bool" where
  "constraint_of c j \<longleftrightarrow> node_at [Key ''Constraint'', Key ''contype''] j = Some (JStr c)"

fun elem_of :: "table_elem \<Rightarrow> json \<Rightarrow> bool" where
  \<comment> \<open>the node of a parse tree for a column with its constraints, or for a constraint with its columns\<close>
  "elem_of (Column n cs) j \<longleftrightarrow> (\<exists>cd cons. j = JObj [(''ColumnDef'', JObj cd)] \<and> map_of cd ''colname'' = Some (JStr n)
     \<and> map_of cd ''constraints'' = (if cs = [] then None else Some (JArr cons)) \<and> list_all2 constraint_of cs cons)"
| "elem_of (TableConstraint c ks) j \<longleftrightarrow> (\<exists>ct. j = JObj [(''Constraint'', JObj ct)] \<and> map_of ct ''contype'' = Some (JStr c)
     \<and> map_of ct ''keys'' = Some (JArr (map str_node ks)))"

fun elem_flags :: "table_elem \<Rightarrow> id_flags \<Rightarrow> id_flags" where
  "elem_flags (Column n cs) fl =
     (if n = ''id'' then \<lparr>have_id = True, not_null = not_null fl \<or> ''CONSTR_NOTNULL'' \<in> set cs,
        is_unique = is_unique fl \<or> ''CONSTR_UNIQUE'' \<in> set cs, primary = primary fl \<or> ''CONSTR_PRIMARY'' \<in> set cs\<rparr>
      else fl)"
| "elem_flags (TableConstraint c ks) fl = fl\<lparr>primary := primary fl \<or> c = ''CONSTR_PRIMARY'' \<and> ks = [''id'']\<rparr>"

lemma constraints_inspected:
  assumes "node_at q (es ! i) = Some (JArr cons)" "i < length es" "json_wf (es ! i)"
  shows "focus p (JArr es) s0 s \<Longrightarrow> list_all2 constraint_of cs (drop k cons) \<Longrightarrow> k \<le> length cons \<Longrightarrow>
    \<exists>s'. inspect_constraints (map (\<lambda>i. [Idx i]) [k..<length cons]) ((p @ [Idx i]) @ q) fl s
      = (s', Ret (fl\<lparr>not_null := not_null fl \<or> ''CONSTR_NOTNULL'' \<in> set cs,
                     is_unique := is_unique fl \<or> ''CONSTR_UNIQUE'' \<in> set cs,
                     primary := primary fl \<or> ''CONSTR_PRIMARY'' \<in> set cs\<rparr>)) \<and> focus p (JArr es) s0 s'"
proof (induction cs arbitrary: k fl s)
  case Nil
  then show ?case by simp
next
  case (Cons c cs)
  from Cons.prems(2) have k: "k < length cons" by (metis drop_eq_Nil leI list_all2_Nil2 list.distinct(1))
  then have d: "drop k cons = cons ! k # drop (Suc k) cons" "[k..<length cons] = k # [Suc k..<length cons]"
    by (simp_all add: Cons_nth_drop_Suc upt_conv_Cons)
  with Cons.prems(2) have c: "constraint_of c (cons ! k)" "list_all2 constraint_of cs (drop (Suc k) cons)" by simp_all
  have "node_at (q @ [Idx k, Key ''Constraint'', Key ''contype'']) (es ! i) = Some (JStr c)"
    using assms(1) k c(1) by (simp add: node_at_append constraint_of_def)
  from touch_element_same [OF Cons.prems(1) assms(2,3) this] obtain s1
    where s1: "touch_json (((p @ [Idx i]) @ q) @ [Idx k] @ [Key ''Constraint'', Key ''contype'']) s = (s1, Ret (JStr c))"
      "focus p (JArr es) s0 s1" by auto
  from Cons.IH [OF s1(2) c(2), of "fl\<lparr>not_null := not_null fl \<or> c = ''CONSTR_NOTNULL'',
             is_unique := is_unique fl \<or> c = ''CONSTR_UNIQUE'', primary := primary fl \<or> c = ''CONSTR_PRIMARY''\<rparr>"] k s1(1) d(2)
  show ?case by (auto simp: eq_commute [of "''CONSTR_NOTNULL''" c] eq_commute [of "''CONSTR_UNIQUE''" c]
        eq_commute [of "''CONSTR_PRIMARY''" c])
qed

lemma column_inspected:
  assumes "elem_of (Column n cs) (es ! i)" "json_wf (es ! i)" "i < length es" "focus p (JArr es) s0 s"
  shows "\<exists>s' cd'. inspect_column (p @ [Idx i]) fl s = (s', Ret (elem_flags (Column n cs) fl))
    \<and> focus p (JArr (es[i := JObj [(''ColumnDef'', JObj cd')]])) s0 s'"
proof -
  from assms(1) obtain cd cons where e: "es ! i = JObj [(''ColumnDef'', JObj cd)]" "map_of cd ''colname'' = Some (JStr n)"
    "map_of cd ''constraints'' = (if cs = [] then None else Some (JArr cons))" "list_all2 constraint_of cs cons" by auto
  then have id: "es[i := JObj [(''ColumnDef'', JObj cd)]] = es" by (metis list_update_id)
  have "node_at [Key ''ColumnDef'', Key ''colname''] (es ! i) = Some (JStr n)" using e by simp
  from touch_element_same [OF assms(4,3,2) this] obtain s1
    where s1: "touch_json ((p @ [Idx i]) @ [Key ''ColumnDef'', Key ''colname'']) s = (s1, Ret (JStr n))" "focus p (JArr es) s0 s1" by blast
  let ?q = "[Key ''ColumnDef'', Key ''constraints'']"
  show ?thesis
  proof (cases "n = ''id''")
    case False
    with s1 id show ?thesis by (intro exI [of _ s1] exI [of _ cd]) (simp add: inspect_column_def)
  next
    case True
    show ?thesis
    proof (cases "cs = []")
      case cs: True
      let ?cd = "obj_put ''constraints'' JNull cd"
      have "read_at ?q (es ! i) = Ret (JNull, JObj [(''ColumnDef'', JObj ?cd)])" using e cs by (simp add: read_at_def)
      from touch_element [OF s1(2) assms(3) this] obtain s2 where "touch_json ((p @ [Idx i]) @ ?q) s1 = (s2, Ret JNull)"
        "focus p (JArr (es[i := JObj [(''ColumnDef'', JObj ?cd)]])) s0 s2" by blast
      with s1(1) True cs show ?thesis by (intro exI [of _ s2] exI [of _ ?cd]) (simp add: inspect_column_def)
    next
      case cs: False
      then have c: "node_at ?q (es ! i) = Some (JArr cons)" using e by simp
      from touch_element_same [OF s1(2) assms(3,2) this] obtain s2
        where s2: "touch_json ((p @ [Idx i]) @ ?q) s1 = (s2, Ret (JArr cons))" "focus p (JArr es) s0 s2" by blast
      have "list_all2 constraint_of cs (drop 0 cons)" using e(4) by simp
      from constraints_inspected [OF c assms(3,2) s2(2) this, of "fl\<lparr>have_id := True\<rparr>"] s1(1) s2(1) True id
      show ?thesis by (auto simp: inspect_column_def intro!: exI [of _ cd])
    qed
  qed
qed

lemma element_inspected:
  assumes "elem_of el (es ! i)" "json_wf (es ! i)" "i < length es" "focus p (JArr es) s0 s"
  shows "\<exists>s1 s2 e' fl1. inspect_column (p @ [Idx i]) fl s = (s1, Ret fl1)
    \<and> inspect_table_constraint (p @ [Idx i]) fl1 s1 = (s2, Ret (elem_flags el fl)) \<and> focus p (JArr (es[i := e'])) s0 s2"
proof (cases el)
  case (Column n cs)
  from column_inspected [OF assms(1) [unfolded Column] assms(2-4)] obtain s1 cd
    where s1: "inspect_column (p @ [Idx i]) fl s = (s1, Ret (elem_flags el fl))"
      "focus p (JArr (es[i := JObj [(''ColumnDef'', JObj cd)]])) s0 s1" unfolding Column by blast
  let ?e = "JObj [(''ColumnDef'', JObj cd)]"
  let ?e' = "JObj [(''ColumnDef'', JObj cd), (''Constraint'', JObj [(''contype'', JNull)])]"
  have "read_at [Key ''Constraint'', Key ''contype''] ((es[i := ?e]) ! i) = Ret (JNull, ?e')"
    using assms(3) by (simp add: read_at_def)
  from touch_element [OF s1(2) _ this] assms(3) obtain s2
    where "touch_json ((p @ [Idx i]) @ [Key ''Constraint'', Key ''contype'']) s1 = (s2, Ret JNull)"
      "focus p (JArr (es[i := ?e'])) s0 s2" by auto
  with s1(1) show ?thesis
    by (intro exI [of _ s1] exI [of _ s2] exI [of _ ?e'] exI [of _ "elem_flags el fl"]) (simp add: inspect_table_constraint_def)
next
  case (TableConstraint c ks)
  with assms(1) obtain ct where e: "es ! i = JObj [(''Constraint'', JObj ct)]" "map_of ct ''contype'' = Some (JStr c)"
    "map_of ct ''keys'' = Some (JArr (map str_node ks))" by auto
  have wf: "json_wf (JObj ct)" using json_wf_child [OF assms(2), of "Key ''Constraint''"] e(1) by simp
  let ?e = "JObj [(''ColumnDef'', JObj [(''colname'', JNull)]), (''Constraint'', JObj ct)]"
  have "read_at [Key ''ColumnDef'', Key ''colname''] (es ! i) = Ret (JNull, ?e)" using e(1) by (simp add: read_at_def)
  from touch_element [OF assms(4,3) this] obtain s1
    where s1: "touch_json ((p @ [Idx i]) @ [Key ''ColumnDef'', Key ''colname'']) s = (s1, Ret JNull)"
      "focus p (JArr (es[i := ?e])) s0 s1" by blast
  have same: "obj_put k v ct = ct" if "map_of ct k = Some v" for k v by (rule obj_put_same [OF json_wf_sorted [OF wf] that])
  have "read_at [Key ''Constraint'', Key ''contype''] ((es[i := ?e]) ! i) = Ret (JStr c, ?e)"
    using assms(3) e(2) same by (simp add: read_at_def)
  from touch_element [OF s1(2) _ this] assms(3) obtain s2
    where s2: "touch_json ((p @ [Idx i]) @ [Key ''Constraint'', Key ''contype'']) s1 = (s2, Ret (JStr c))"
      "focus p (JArr (es[i := ?e])) s0 s2" by auto
  have "read_at [Key ''Constraint'', Key ''keys''] ((es[i := ?e]) ! i) = Ret (JArr (map str_node ks), ?e)"
    using assms(3) e(3) same by (simp add: read_at_def)
  from touch_element [OF s2(2) _ this] assms(3) obtain s3
    where s3: "touch_json ((p @ [Idx i]) @ [Key ''Constraint'', Key ''keys'']) s2 = (s3, Ret (JArr (map str_node ks)))"
      "focus p (JArr (es[i := ?e])) s0 s3" by auto
  have key: "read_at [Idx 0, Key ''String'', Key ''str''] (JArr [str_node k]) = Ret (JStr k, JArr [str_node k])" for k
    by (simp add: read_at_def str_node_def)
  have col: "inspect_column (p @ [Idx i]) fl s = (s1, Ret fl)" using s1(1) by (simp add: inspect_column_def)
  show ?thesis
  proof (cases "c = ''CONSTR_PRIMARY'' \<and> length ks = 1")
    case True
    then obtain k where "ks = [k]" by (cases ks) auto
    with True s2(1) s3 key [of k] col TableConstraint show ?thesis
      by (intro exI [of _ s1] exI [of _ s3] exI [of _ ?e] exI [of _ fl])
         (auto simp: inspect_table_constraint_def)
  next
    case False
    have ks: "ks \<noteq> [''id''] \<or> c \<noteq> ''CONSTR_PRIMARY''" using False by auto
    show ?thesis
    proof (cases "c = ''CONSTR_PRIMARY''")
      case True
      with False s2(1) s3 ks col TableConstraint show ?thesis
        by (intro exI [of _ s1] exI [of _ s3] exI [of _ ?e] exI [of _ fl]) (auto simp: inspect_table_constraint_def)
    next
      case False
      with s2 col TableConstraint show ?thesis
        by (intro exI [of _ s1] exI [of _ s2] exI [of _ ?e] exI [of _ fl]) (auto simp: inspect_table_constraint_def)
    qed
  qed
qed

lemma elements_inspected:
  "list_all2 elem_of els (drop k es) \<Longrightarrow> \<forall>e \<in> set (drop k es). json_wf e \<Longrightarrow> focus p (JArr es) s0 s \<Longrightarrow>
     \<exists>s'. inspect_elements (map (\<lambda>i. [Idx i]) [k..<length es]) p fl s = (s', Ret (fold elem_flags els fl)) \<and> request_of s' = request_of s0"
proof (induction els arbitrary: k es fl s)
  case Nil
  then show ?case by (auto simp: focus_def)
next
  case (Cons el els)
  from Cons.prems(1) have k: "k < length es" by (metis drop_eq_Nil leI list_all2_Nil2 list.distinct(1))
  then have d: "drop k es = es ! k # drop (Suc k) es" "[k..<length es] = k # [Suc k..<length es]"
    by (simp_all add: Cons_nth_drop_Suc upt_conv_Cons)
  with Cons.prems(1,2) have el: "elem_of el (es ! k)" "json_wf (es ! k)" "list_all2 elem_of els (drop (Suc k) es)"
    "\<forall>e \<in> set (drop (Suc k) es). json_wf e" by simp_all
  from element_inspected [OF el(1,2) k Cons.prems(3), of fl] obtain s1 s2 e' fl1
    where s2: "inspect_column (p @ [Idx k]) fl s = (s1, Ret fl1)"
      "inspect_table_constraint (p @ [Idx k]) fl1 s1 = (s2, Ret (elem_flags el fl))" "focus p (JArr (es[k := e'])) s0 s2" by blast
  from Cons.IH [OF _ _ s2(3), of "Suc k" "elem_flags el fl"] el(3,4) s2(1,2) d(2)
  show ?case by simp
qed

definition no_flags :: id_flags where
  "no_flags = \<lparr>have_id = False, not_null = False, is_unique = False, primary = False\<rparr>"

definition id_has :: "string \<Rightarrow> table_elem list \<Rightarrow> bool" where
  "id_has c els \<longleftrightarrow> (\<exists>cs. Column ''id'' cs \<in> set els \<and> c \<in> set cs)"

lemma fold_elem_flags:
  "fold elem_flags els fl =
     \<lparr>have_id = have_id fl \<or> (\<exists>cs. Column ''id'' cs \<in> set els),
      not_null = not_null fl \<or> id_has ''CONSTR_NOTNULL'' els,
      is_unique = is_unique fl \<or> id_has ''CONSTR_UNIQUE'' els,
      primary = primary fl \<or> id_has ''CONSTR_PRIMARY'' els \<or> TableConstraint ''CONSTR_PRIMARY'' [''id''] \<in> set els\<rparr>"
proof (induction els arbitrary: fl)
  case (Cons el els)
  show ?case
  proof (cases el)
    case (Column n cs)
    then show ?thesis by (auto simp: Cons.IH id_has_def)
  next
    case (TableConstraint c ks)
    then show ?thesis by (auto simp: Cons.IH id_has_def)
  qed
qed (simp add: id_has_def)

definition create_table :: "string \<Rightarrow> table_elem list \<Rightarrow> json \<Rightarrow> bool" where
  \<comment> \<open>the parse tree of a query whose first statement creates this table\<close>
  "create_table t els j \<longleftrightarrow> json_wf j \<and> (\<exists>cs rel elts r1 r2 r3. j = statement ''CreateStmt'' (JObj cs) r1 r2 r3
     \<and> map_of cs ''relation'' = Some (JObj rel) \<and> map_of rel ''relname'' = Some (JStr t)
     \<and> map_of cs ''tableElts'' = Some (JArr elts) \<and> list_all2 elem_of els elts)"

lemma FindNode_CreateStmt: "FindNode (statement ''CreateStmt'' v r1 r2 r3) ''CreateStmt'' = Some (first_statement ''CreateStmt'')"
  by (rule FindNode_statement) simp_all

lemma new_table_verdict:
  assumes "create_table t els (query_json s)" "Query_bool (c_query (ctx s))" "\<not> ends_with t ''__access_bindings__''"
  shows "\<exists>s'. EnsureNewTableHasIdPlugIn env s = (s', Ret (id_verdict (e_plugin_file env) (fold elem_flags els no_flags)))
    \<and> request_of s' = request_of s"
proof -
  let ?n = "first_statement ''CreateStmt''"
  from assms(1) obtain cs rel elts r1 r2 r3 where j: "json_wf (query_json s)" "query_json s = statement ''CreateStmt'' (JObj cs) r1 r2 r3"
    "map_of cs ''relation'' = Some (JObj rel)" "map_of rel ''relname'' = Some (JStr t)"
    "map_of cs ''tableElts'' = Some (JArr elts)" "list_all2 elem_of els elts" unfolding create_table_def by blast
  have find: "FindNode (query_json s) ''CreateStmt'' = Some ?n" unfolding j(2) by (rule FindNode_CreateStmt)
  have n: "node_at ?n (query_json s) = Some (JObj cs)" by (simp add: j(2))
  have t: "touch_json (?n @ [Key ''relation'', Key ''relname'']) s = (s, Ret (JStr t))"
    using read_existing [OF j(1), of "?n @ [Key ''relation'', Key ''relname'']" "JStr t"] n j(3,4)
    by (simp add: node_at_append touch_json_def)
  have e: "node_at (?n @ [Key ''tableElts'']) (query_json s) = Some (JArr elts)"
    using n j(5) by (simp add: node_at_append)
  then have te: "touch_json (?n @ [Key ''tableElts'']) s = (s, Ret (JArr elts))"
    using read_existing [OF j(1) e] by (simp add: touch_json_def)
  have "json_wf x" if "x \<in> set elts" for x
  proof -
    from that obtain i where "i < length elts" "elts ! i = x" by (metis in_set_conv_nth)
    then have "node_at ((?n @ [Key ''tableElts'']) @ [Idx i]) (query_json s) = Some x"
      using e by (simp only: node_at_append) simp
    with json_wf_node [OF j(1)] show ?thesis by blast
  qed
  then have "\<forall>x \<in> set (drop 0 elts). json_wf x" by simp
  from elements_inspected [OF _ this focus_start [OF e], of els no_flags] j(6)
  obtain s' where "inspect_elements (map (\<lambda>i. [Idx i]) [0..<length elts]) (?n @ [Key ''tableElts'']) no_flags s
      = (s', Ret (fold elem_flags els no_flags))" "request_of s' = request_of s" by auto
  with find t te assms(2,3) show ?thesis
    by (simp add: EnsureNewTableHasIdPlugIn_def no_flags_def)
qed

section \<open>Dropped tables\<close>

lemma touch_there:
  "json_wf (query_json s) \<Longrightarrow> node_at q (query_json s) = Some v \<Longrightarrow> touch_json q s = (s, Ret v)"
  using read_existing by (simp add: touch_json_def)

definition drop_one :: "string \<Rightarrow> (string \<times> json) list \<Rightarrow> json \<Rightarrow> bool" where
  \<comment> \<open>the statement, given by its fields, drops this one table; \<open>obj\<close> is its node\<close>
  "drop_one t ds obj \<longleftrightarrow> map_of ds ''removeType'' = Some (JStr ''OBJECT_TABLE'') \<and> map_of ds ''objects'' = Some (JArr [obj])
     \<and> node_at [Key ''List'', Key ''items'', Idx 0, Key ''String'', Key ''str''] obj = Some (JStr t)
     \<and> FindNode (JObj ds) ''objects'' = Some [Key ''objects'']"

lemma FindNode_DropStmt: "FindNode (statement ''DropStmt'' v r1 r2 r3) ''DropStmt'' = Some (first_statement ''DropStmt'')"
  by (rule FindNode_statement) simp_all

lemma FindNode_objects: "FindNode v ''objects'' = Some p \<Longrightarrow>
    FindNode (statement ''DropStmt'' v r1 r2 r3) ''objects'' = Some (first_statement ''DropStmt'' @ p)"
  by (rule FindNode_in_statement) simp_all

lemma drop_table_steps:
  assumes j: "json_wf (query_json s)" "query_json s = statement ''DropStmt'' (JObj ds) r1 r2 r3" "drop_one t ds obj"
    and s: "Query_bool (c_query (ctx s))" "st s = Some tr" "Exist tr t"
    and env: "e_conn env" "e_work env = None"
      "e_pg_deparse env (statement ''DropStmt'' (JObj (obj_put ''objects'' (JArr [obj, drop_object (t @ ''__access_bindings__'')]) ds)) r1 r2 r3) = Some tsql"
      "e_pg_deparse env (statement ''DropStmt'' (JObj (obj_put ''behavior'' (JStr ''DROP_CASCADE'') ds)) r1 r2 r3) = Some sql"
  shows "e_exec env (cstr tsql) = None \<Longrightarrow> \<exists>s'. DropTablePlugIn env s = (s', Ret NoError) \<and> request_of s' = SetQuery (request_of s) (cstr sql)"
    and "e_exec env (cstr tsql) = Some (SqlError m) \<Longrightarrow> DropTablePlugIn env s = (s, Ret NoError)"
proof -
  let ?n = "first_statement ''DropStmt''"
  let ?t = "statement ''DropStmt'' (JObj (obj_put ''objects'' (JArr [obj, drop_object (t @ ''__access_bindings__'')]) ds)) r1 r2 r3"
  let ?c = "statement ''DropStmt'' (JObj (obj_put ''behavior'' (JStr ''DROP_CASCADE'') ds)) r1 r2 r3"
  from j(3) have d: "map_of ds ''removeType'' = Some (JStr ''OBJECT_TABLE'')" "map_of ds ''objects'' = Some (JArr [obj])"
    "node_at [Key ''List'', Key ''items'', Idx 0, Key ''String'', Key ''str''] obj = Some (JStr t)"
    "FindNode (JObj ds) ''objects'' = Some [Key ''objects'']" by (simp_all add: drop_one_def)
  have n: "node_at ?n (query_json s) = Some (JObj ds)" by (simp add: j(2))
  have find: "FindNode (query_json s) ''DropStmt'' = Some ?n" unfolding j(2) by (rule FindNode_DropStmt)
  have t1: "touch_json (?n @ [Key ''removeType'']) s = (s, Ret (JStr ''OBJECT_TABLE''))"
    "touch_json (?n @ [Key ''objects'']) s = (s, Ret (JArr [obj]))"
    by (rule touch_there [OF j(1)]; simp add: node_at_append n d)+
  have "touch_json ((?n @ [Key ''objects'']) @ [Idx 0] @ [Key ''List'', Key ''items'', Idx 0, Key ''String'', Key ''str'']) s = (s, Ret (JStr t))"
  proof (rule touch_there [OF j(1)])
    show "node_at ((?n @ [Key ''objects'']) @ [Idx 0] @ [Key ''List'', Key ''items'', Idx 0, Key ''String'', Key ''str'']) (query_json s) = Some (JStr t)"
      unfolding node_at_append n option.case using d(2,3) by simp
  qed
  then have names: "drop_table_names (?n @ [Key ''objects'']) (item_steps (JArr [obj])) s = (s, Ret [t @ ''__access_bindings__''])"
    using s(2,3) by simp
  have q: "q_json (c_query (ctx s)) = query_json s" by (simp add: query_json_def)
  have "update_at (?n @ [Key ''objects'']) (\<lambda>v. bind_run (push_back v (drop_object (t @ ''__access_bindings__''))) (\<lambda>v'. Ret ((), v'))) (query_json s)
      = Ret ((), ?t)"
    unfolding update_below [OF n] by (simp add: d(2) j(2))
  then have test: "test_query [t @ ''__access_bindings__''] (c_query (ctx s)) = Ret (c_query (ctx s)\<lparr>q_json := ?t\<rparr>)"
    using FindNode_objects [OF d(4)] j(2) by (simp add: test_query_def q)
  have set: "set_behavior ?n (query_json s) = Ret ((), ?c)"
    unfolding set_behavior_def update_below [OF n] by (simp add: j(2))
  have cq: "c_query (ctx (set_json ?c s)) = c_query (ctx s)\<lparr>q_json := ?c\<rparr>" by (simp add: set_json_def set_query_def)
  note run = DropTablePlugIn_def find t1 names test begin_work_def ToString_def
  show "\<exists>s'. DropTablePlugIn env s = (s', Ret NoError) \<and> request_of s' = SetQuery (request_of s) (cstr sql)"
    if "e_exec env (cstr tsql) = None"
    using that s(1) env set cq by (simp add: run del: drop_table_names.simps item_steps.simps)
  show "DropTablePlugIn env s = (s, Ret NoError)" if "e_exec env (cstr tsql) = Some (SqlError m)"
    using that s(1) env by (simp add: run del: drop_table_names.simps item_steps.simps)
qed

section \<open>After a statement\<close>

definition completed :: "Session \<Rightarrow> bool" where
  \<comment> \<open>the server answered the query of this session with CommandComplete\<close>
  "completed s \<longleftrightarrow> Query_bool (c_query (ctx s)) \<and> byte_at (buf (c_response (ctx s))) 0 = Ret (CHR ''C'')"

lemma completed_parameters [simp]: "completed (s\<lparr>parameters := ps\<rparr>) = completed s"
  by (simp add: completed_def)

lemma FindNode_VariableSetStmt:
  "FindNode (statement ''VariableSetStmt'' v r1 r2 r3) ''VariableSetStmt'' = Some (first_statement ''VariableSetStmt'')"
  by (rule FindNode_statement) simp_all

lemma update_schema_none:
  "completed s \<Longrightarrow> ''CreateStmt'' \<notin> set (keys_of (query_json s)) \<Longrightarrow> UpdateSchemaPlugIn env s = (s, Ret NoError)"
  by (simp add: UpdateSchemaPlugIn_def completed_def FindNode_no_key)

lemma update_parameters_none:
  "''VariableSetStmt'' \<notin> set (keys_of (query_json s)) \<Longrightarrow> UpdateParametersPlugIn env s = (s, Ret NoError)"
  by (simp add: UpdateParametersPlugIn_def FindNode_no_key)

definition role_args :: "step list" where
  "role_args = [Key ''args'', Idx 0, Key ''A_Const'', Key ''val'', Key ''String'', Key ''str'']"

lemma lookup_answer:
  assumes "e_conn env" "e_work env = None" "smap_get (parameters s) ''user'' = u" "smap_has (parameters s) ''user''"
    "e_exec1 env (rolsuper_sql u) = Inr r" "e_commit env = None"
  shows "lookup_rolsuper env s = (s\<lparr>parameters := smap_put (parameters s) ''rolsuper'' (cstr r)\<rparr>, Ret ())"
  using assms by (simp add: lookup_rolsuper_def begin_work_def smap_touch_def)

lemma set_role_plugin:
  assumes j: "json_wf (query_json s)" "query_json s = statement ''VariableSetStmt'' v r1 r2 r3"
      "node_at [Key ''name''] v = Some (JStr ''role'')" "node_at role_args v = Some (JStr u)"
    and s: "completed s"
    and env: "e_conn env" "e_work env = None" "e_exec1 env (rolsuper_sql u) = Inr r" "e_commit env = None"
  shows "UpdateParametersPlugIn env s
    = (s\<lparr>parameters := smap_put (smap_put (parameters s) ''user'' u) ''rolsuper'' (cstr r)\<rparr>, Ret NoError)"
proof -
  let ?n = "first_statement ''VariableSetStmt''"
  have n: "node_at ?n (query_json s) = Some v" by (simp add: j(2))
  have t: "touch_json (?n @ [Key ''name'']) s = (s, Ret (JStr ''role''))" "touch_json (?n @ role_args) s = (s, Ret (JStr u))"
    by (rule touch_there [OF j(1)], use j(3,4) in \<open>simp add: node_at_append n\<close>)+
  have find: "FindNode (query_json s) ''VariableSetStmt'' = Some ?n" unfolding j(2) by (rule FindNode_VariableSetStmt)
  let ?s = "s\<lparr>parameters := smap_put (parameters s) ''user'' u\<rparr>"
  have "lookup_rolsuper env ?s = (?s\<lparr>parameters := smap_put (parameters ?s) ''rolsuper'' (cstr r)\<rparr>, Ret ())"
    by (rule lookup_answer) (use env in simp_all)
  with find t s show ?thesis by (simp add: UpdateParametersPlugIn_def completed_def role_args_def)
qed

lemma reset_role_plugin:
  assumes j: "json_wf (query_json s)" "query_json s = statement ''VariableSetStmt'' (JObj vs) r1 r2 r3"
      "map_of vs ''name'' = Some (JStr ''role'')" "map_of vs ''args'' = None"
    and s: "completed s"
  shows "\<exists>j'. UpdateParametersPlugIn env s = (set_json j' s, Throw type_error)"
proof -
  let ?n = "first_statement ''VariableSetStmt''"
  have n: "node_at ?n (query_json s) = Some (JObj vs)" by (simp add: j(2))
  have t: "touch_json (?n @ [Key ''name'']) s = (s, Ret (JStr ''role''))"
    by (rule touch_there [OF j(1)]) (use j(3) in \<open>simp add: node_at_append n\<close>)
  have find: "FindNode (query_json s) ''VariableSetStmt'' = Some ?n" unfolding j(2) by (rule FindNode_VariableSetStmt)
  have "\<exists>v'. read_at role_args (JObj vs) = Ret (JNull, v')"
    using j(4) by (simp add: role_args_def read_at_def)
  then obtain v' where "read_at role_args (JObj vs) = Ret (JNull, v')" ..
  from read_below [OF n this] have "touch_json (?n @ role_args) s = (set_json (put_at ?n v' (query_json s)) s, Ret JNull)"
    by (simp add: touch_json_def)
  with find t s show ?thesis
    by (intro exI [of _ "put_at ?n v' (query_json s)"])
       (simp add: UpdateParametersPlugIn_def completed_def role_args_def set_json_def set_query_def)
qed

lemma respond_error_exact:
  assumes "Error_contains e ''S''" "Error_contains e ''C''" "Error_contains e ''M''"
  shows "\<exists>b. respond_error e s = Ret (Some PREPARE_TO_FORWARD_RESPONSE, set_response b s) \<and> SetError (c_response (ctx s)) e = Ret b"
proof -
  from SetError_returns [OF assms] obtain b where b: "SetError (c_response (ctx s)) e = Ret b" by blast
  with SetError_print [OF b] show ?thesis by (simp add: respond_error_def)
qed

lemma internal_error_fields [simp]:
  "Error_contains (internal_error x) ''S''" "Error_contains (internal_error x) ''C''" "Error_contains (internal_error x) ''M''"
  unfolding internal_error_def Error_contains_init by simp_all

lemma update_schema_plugin:
  assumes c: "create_table t els (query_json s)" "completed s" "st s = Some tr"
    and f: "\<And>v. node_at (first_statement ''CreateStmt'' @ [Key ''if_not_exists'']) (query_json s) = Some v \<Longrightarrow> \<exists>b. v = JBool b"
  shows "UpdateSchemaPlugIn env s = (s\<lparr>st := Some (AddRelName tr t)\<rparr>, Ret NoError)"
proof -
  let ?n = "first_statement ''CreateStmt''"
  from c(1) obtain cs rel elts r1 r2 r3 where j: "json_wf (query_json s)" "query_json s = statement ''CreateStmt'' (JObj cs) r1 r2 r3"
    "map_of cs ''relation'' = Some (JObj rel)" "map_of rel ''relname'' = Some (JStr t)" unfolding create_table_def by blast
  have find: "FindNode (query_json s) ''CreateStmt'' = Some ?n" unfolding j(2) by (rule FindNode_CreateStmt)
  have n: "node_at ?n (query_json s) = Some (JObj cs)" by (simp add: j(2))
  have t: "touch_json (?n @ [Key ''relation'', Key ''relname'']) s = (s, Ret (JStr t))"
    by (rule touch_there [OF j(1)]) (use j(3,4) in \<open>simp add: node_at_append n\<close>)
  have r: "read_at ?n (query_json s) = Ret (JObj cs, query_json s)" by (rule read_existing [OF j(1) n])
  have flag: "contains (JObj cs) ''if_not_exists'' \<Longrightarrow> \<exists>b. touch_json (?n @ [Key ''if_not_exists'']) s = (s, Ret (JBool b))"
  proof -
    assume "contains (JObj cs) ''if_not_exists''"
    then obtain v where v: "node_at (?n @ [Key ''if_not_exists'']) (query_json s) = Some v" by (auto simp: node_at_append n)
    with f obtain b where "v = JBool b" by blast
    with touch_there [OF j(1) v] show ?thesis by blast
  qed
  show ?thesis
  proof (cases "contains (JObj cs) ''if_not_exists''")
    case True
    with flag obtain b where "touch_json (?n @ [Key ''if_not_exists'']) s = (s, Ret (JBool b))" by blast
    with True find t r c(2,3) show ?thesis by (simp add: UpdateSchemaPlugIn_def completed_def)
  next
    case False
    with find t r c(2,3) show ?thesis by (simp add: UpdateSchemaPlugIn_def completed_def)
  qed
qed

section \<open>Properties\<close>


text \<open>C23. Dropping one controlled table first tries, in a transaction of the proxy, the same statement with the
  table of its bindings added; when that works the client's statement is sent on as DROP \<open>\<dots>\<close> CASCADE, and
  when it fails with an SQL error the statement is sent on as it was.\<close>
theorem drop_table_cascades:
  assumes "json_wf (query_json s)" "query_json s = statement ''DropStmt'' (JObj ds) r1 r2 r3" "drop_one t ds obj"
    "Query_bool (c_query (ctx s))" "st s = Some tr" "Exist tr t" "e_conn env" "e_work env = None"
    "e_pg_deparse env (statement ''DropStmt'' (JObj (obj_put ''objects'' (JArr [obj, drop_object (t @ ''__access_bindings__'')]) ds)) r1 r2 r3) = Some tsql"
    "e_pg_deparse env (statement ''DropStmt'' (JObj (obj_put ''behavior'' (JStr ''DROP_CASCADE'') ds)) r1 r2 r3) = Some sql"
  shows "(e_exec env (cstr tsql) = None \<longrightarrow>
      (\<exists>s'. DropTablePlugIn env s = (s', Ret NoError) \<and> request_of s' = SetQuery (request_of s) (cstr sql)))
    \<and> (\<forall>m. e_exec env (cstr tsql) = Some (SqlError m) \<longrightarrow> DropTablePlugIn env s = (s, Ret NoError))"
  using drop_table_steps [OF assms] by blast

text \<open>C24. When SET ROLE has succeeded, the session takes the new role as its user and asks the database whether
  that role is a superuser: the answer decides about access control from the next request on.\<close>
theorem set_role_updates:
  assumes "json_wf (query_json s)" "query_json s = statement ''VariableSetStmt'' v r1 r2 r3"
    "node_at [Key ''name''] v = Some (JStr ''role'')" "node_at role_args v = Some (JStr u)" "completed s"
    "e_conn env" "e_work env = None" "e_exec1 env (rolsuper_sql u) = Inr r" "e_commit env = None"
    "''CreateStmt'' \<notin> set (keys_of (query_json s))"
  shows "\<exists>s'. ApplyPostResponsePlugins env s = Ret (Some PREPARE_TO_FORWARD_RESPONSE, s')
    \<and> smap_get (parameters s') ''user'' = u \<and> smap_get (parameters s') ''rolsuper'' = cstr r"
  using set_role_plugin [OF assms(1-9)] assms(5,10)
  by (simp add: ApplyPostResponsePlugins_def post_response_plugins_def update_schema_none)

text \<open>C25. After RESET ROLE, which has no arguments in its tree, the plug-in throws before it changes anything: the
  session keeps the answer it had, so a superuser who set a role and reset it stays restricted, a user
  allowed to reset from a superuser role stays unrestricted, and the client is sent an error although the
  statement was executed.\<close>
theorem reset_role_keeps_privileges:
  assumes "json_wf (query_json s)" "query_json s = statement ''VariableSetStmt'' (JObj vs) r1 r2 r3"
    "map_of vs ''name'' = Some (JStr ''role'')" "map_of vs ''args'' = None" "completed s"
  shows "\<exists>s' b. ApplyPostResponsePlugins env s = Ret (Some PREPARE_TO_FORWARD_RESPONSE, s')
    \<and> parameters s' = parameters s
    \<and> SetError (c_response (ctx s)) (internal_error type_error) = Ret b \<and> c_response (ctx s') = b"
proof -
  from reset_role_plugin [OF assms] obtain j where r: "UpdateParametersPlugIn env s = (set_json j s, Throw type_error)" by blast
  from respond_error_exact [of "internal_error type_error" "set_json j s"] obtain b
    where b: "respond_error (internal_error type_error) (set_json j s) = Ret (Some PREPARE_TO_FORWARD_RESPONSE, set_response b (set_json j s))"
      "SetError (c_response (ctx (set_json j s))) (internal_error type_error) = Ret b" by auto
  have "ApplyPostResponsePlugins env s = Ret (Some PREPARE_TO_FORWARD_RESPONSE, set_response b (set_json j s))"
    using r b(1) by (simp add: ApplyPostResponsePlugins_def post_response_plugins_def)
  moreover have "c_response (ctx (set_json j s)) = c_response (ctx s)" "parameters (set_json j s) = parameters s"
    by (simp_all add: set_json_def set_query_def)
  ultimately show ?thesis using b(2) by (intro exI [of _ "set_response b (set_json j s)"] exI [of _ b]) (simp add: set_response_def)
qed


section \<open>Concrete statements\<close>

definition with_query :: "json \<Rightarrow> smap \<Rightarrow> Session" where
  "with_query j ps = set_response (sample_buffer ''C'') (set_query \<lparr>q_valid = True, q_json = j\<rparr> (sample_session ps Buffer_new))"

lemma with_query_simps [simp]:
  "query_json (with_query j ps) = j" "Query_bool (c_query (ctx (with_query j ps)))" "completed (with_query j ps)"
  "st (with_query j ps) = Some [''docs'']" "parameters (with_query j ps) = ps"
  by (simp_all add: with_query_def query_json_def set_response_def set_query_def Query_bool_def completed_def
      sample_session_def set_request_def Session_new_def) (simp add: sample_buffer_def)

definition sample_create :: json where
  "sample_create = statement ''CreateStmt'' (JObj
     [(''relation'', JObj [(''inh'', JBool True), (''relname'', JStr ''notes'')]),
      (''tableElts'', JArr
        [JObj [(''ColumnDef'', JObj [(''colname'', JStr ''id''),
           (''constraints'', JArr [JObj [(''Constraint'', JObj [(''contype'', JStr ''CONSTR_PRIMARY''), (''location'', JNum 45)])]])])],
         JObj [(''ColumnDef'', JObj [(''colname'', JStr ''body'')])]])]) [] [] []"

lemma sample_create_ok: "create_table ''notes'' [Column ''id'' [''CONSTR_PRIMARY''], Column ''body'' []] sample_create"
proof -
  have "json_wf sample_create" by code_simp
  then show ?thesis unfolding create_table_def
    by (simp only: sample_create_def simp_thms) (fastforce simp: constraint_of_def)
qed



definition sample_drop :: "(string \<times> json) list" where
  "sample_drop = [(''behavior'', JStr ''DROP_RESTRICT''),
     (''objects'', JArr [drop_object ''docs'']), (''removeType'', JStr ''OBJECT_TABLE'')]"

lemma drop_table_cascades_witness:
  "\<exists>s'. DropTablePlugIn sample_env (with_query (statement ''DropStmt'' (JObj sample_drop) [] [] []) []) = (s', Ret NoError)
    \<and> request_of s' = SetQuery (request_of (with_query (statement ''DropStmt'' (JObj sample_drop) [] [] []) [])) (cstr ''SELECT 2'')"
proof -
  have "json_wf (statement ''DropStmt'' (JObj sample_drop) [] [] [])" by code_simp
  moreover have "drop_one ''docs'' sample_drop (drop_object ''docs'')" by code_simp
  moreover have "Exist [''docs''] ''docs''" by code_simp
  moreover have "e_conn sample_env" "e_work sample_env = None" "e_exec sample_env q = None" for q by (simp_all add: sample_env_def)
  ultimately show ?thesis
    using drop_table_cascades [of "with_query (statement ''DropStmt'' (JObj sample_drop) [] [] []) []" sample_drop "[]" "[]" "[]"
        "''docs''" "drop_object ''docs''" "[''docs'']" sample_env "''SELECT 2''" "''SELECT 2''"] by simp
qed

definition sample_set :: "(string \<times> json) list \<Rightarrow> json" where
  "sample_set args = JObj (args @ [(''kind'', JStr ''VAR_SET_VALUE''), (''name'', JStr ''role'')])"

definition sample_args :: "(string \<times> json) list" where
  "sample_args = [(''args'', JArr [JObj [(''A_Const'', JObj [(''val'', str_node ''joe'')])]])]"

lemma set_role_updates_witness:
  "\<exists>s'. ApplyPostResponsePlugins sample_env (with_query (statement ''VariableSetStmt'' (sample_set sample_args) [] [] []) [(''rolsuper'', ''t'')])
      = Ret (Some PREPARE_TO_FORWARD_RESPONSE, s')
    \<and> smap_get (parameters s') ''user'' = ''joe'' \<and> smap_get (parameters s') ''rolsuper'' = cstr ''f''"
  by (rule set_role_updates [where v = "sample_set sample_args" and ?r1.0 = "[]" and ?r2.0 = "[]" and ?r3.0 = "[]" and r = "''f''"];
      (unfold with_query_simps)?; (simp add: sample_env_def; fail)?; code_simp)

lemma reset_role_keeps_privileges_witness:
  "\<exists>s' b. ApplyPostResponsePlugins sample_env (with_query (statement ''VariableSetStmt'' (sample_set []) [] [] []) [(''rolsuper'', ''t'')])
      = Ret (Some PREPARE_TO_FORWARD_RESPONSE, s')
    \<and> parameters s' = [(''rolsuper'', ''t'')] \<and> c_response (ctx s') = b"
proof -
  have "json_wf (statement ''VariableSetStmt'' (sample_set []) [] [] [])" by code_simp
  then show ?thesis
    using reset_role_keeps_privileges [of "with_query (statement ''VariableSetStmt'' (sample_set []) [] [] []) [(''rolsuper'', ''t'')]"
        "[(''kind'', JStr ''VAR_SET_VALUE''), (''name'', JStr ''role'')]" "[]" "[]" "[]" sample_env]
    by (auto simp: sample_set_def)
qed

end
