(* ===== verification/QueryExchange.thy ===== *)
theory QueryExchange
  imports Mediation PlugInProps
begin

text \<open>
  Whole exchanges of an idle session: a simple query of an ordinary user comes in as bytes and leaves as
  the bytes of its guarded text, its response comes back unchanged; a request that a plug-in refuses is
  answered by the proxy itself, and the server never hears of it.
\<close>

section \<open>The wire form of a query\<close>

lemma read_query_received:
  assumes "read_query d = Some text"
  shows "d \<noteq> []" "hd d = CHR ''Q''" "NUL \<in> set (drop 5 d)" "cstr (drop 5 d) = text"
  using assms by (cases d; auto split: if_splits)+

lemma cstr_prefix: "NUL \<in> set xs \<Longrightarrow> cstr (xs @ ys) = cstr xs"
  unfolding cstr_def by (rule takeWhile_append1) auto

lemma received_query:
  assumes "content b = d" "read_query d = Some text"
  shows "byte_at (buf b) 0 = Ret (CHR ''Q'')" "cstr_at (buf b) 5 = Ret text"
proof -
  note r = read_query_received [OF assms(2)]
  show "byte_at (buf b) 0 = Ret (CHR ''Q'')" using first_byte [OF assms(1) r(1)] r(2) by (simp add: byte_at_def)
  have "5 < length d" using r(3) by (metis drop_all empty_iff list.set(1) not_less)
  moreover have "buf b = d @ drop (data_size b) (buf b)" using assms(1) by (metis append_take_drop_id content_def)
  ultimately have "drop 5 (buf b) = drop 5 d @ drop (data_size b) (buf b)"
    by (metis append_eq_append_conv_if drop_append less_or_eq_imp_le drop0 diff_is_0_eq)
  with r(3,4) cstr_prefix [of "drop 5 d"] show "cstr_at (buf b) 5 = Ret text" by (simp add: cstr_at_def)
qed

lemma query_bytes:
  assumes "NUL \<notin> set sql" "length sql + 6 < 2 ^ 31"
  defines "w \<equiv> buf (SetQuery Buffer_new sql)"
  shows "read_query w = Some sql" "length w = length sql + 6"
    "SendTo (SetQuery Buffer_new sql) (SendOk (length w)) = (int (length w), w)"
proof -
  show "read_query w = Some sql" unfolding w_def by (rule read_query_SetQuery) (use assms in simp_all)
  show l: "length w = length sql + 6" using assms(1) by (simp add: w_def SetQuery_def Let_def)
  show "SendTo (SetQuery Buffer_new sql) (SendOk (length w)) = (int (length w), w)"
    by (rule SendTo_all) (use assms(2) l in \<open>simp_all add: w_def SetQuery_def Let_def content_def\<close>)
qed

section \<open>A query of an ordinary user\<close>

definition idle :: "Session \<Rightarrow> bool" where
  \<comment> \<open>an initiated session between two exchanges\<close>
  "idle s \<longleftrightarrow> ctx s = Context_new\<lparr>c_initiated := True\<rparr>"

lemma idle_received:
  assumes "idle s" "pieces (e_sock e2) d" "d \<noteq> []" "length d < 2 ^ 31"
  obtains b s2 where "take_actions session_action [e1, e2] (SetInitialState PREPARE_TO_RECEIVE_REQUEST) s
      = Ret (SetInitialState APPLY_PRE_REQUEST_PLUGINS, s2)"
    "request_of s2 = b" "content b = d" "ctx s2 = (ctx s)\<lparr>c_request := b, c_ev := c_ev (ctx s2)\<rparr>"
    "parameters s2 = parameters s" "st s2 = st s" "buf_big b"
proof -
  define s1 where "s1 = wait_for (cl_socket s) EPOLLIN s"
  have s1: "request_of s1 = Buffer_new" "c_initiated (ctx s1)"
    using assms(1) by (simp_all add: idle_def s1_def wait_for_def request_of_def Context_new_def)
  obtain b where b: "ReceiveRequest e2 s1 = Ret (Some APPLY_PRE_REQUEST_PLUGINS, stop_waiting (set_request b s1))" "content b = d" "buf_big b"
    using request_received [of s1 e2 d] s1 assms by auto
  define s2 where "s2 = stop_waiting (set_request b s1)"
  have a: "session_action e1 PREPARE_TO_RECEIVE_REQUEST s = Ret (Some RECEIVE_REQUEST, s1)"
    "session_action e2 RECEIVE_REQUEST s1 = Ret (Some APPLY_PRE_REQUEST_PLUGINS, s2)"
    using b by (simp_all add: session_action_def PrepareToReceiveRequest_def s1_def s2_def)
  have "take_actions session_action [e1, e2] (SetInitialState PREPARE_TO_RECEIVE_REQUEST) s
      = Ret (SetInitialState APPLY_PRE_REQUEST_PLUGINS, s2)"
    by (rule run_next a)+
  moreover have "ctx s2 = (ctx s)\<lparr>c_request := b, c_ev := c_ev (ctx s2)\<rparr>"
    using assms(1) by (simp add: s2_def s1_def stop_waiting_def set_request_def wait_for_def idle_def Context_new_def)
  moreover have "request_of s2 = b" "parameters s2 = parameters s" "st s2 = st s"
    by (simp_all add: s2_def s1_def stop_waiting_def set_request_def wait_for_def request_of_def)
  ultimately show thesis using that b(2,3) by blast
qed


lemma query_sent:
  assumes idle: "idle s"
    and d: "pieces (e_sock e2) d" "read_query d = Some text" "length d < 2 ^ 31"
    and pre: "\<And>s2. query_request text s2 \<Longrightarrow> parameters s2 = parameters s \<Longrightarrow> st s2 = st s \<Longrightarrow>
      \<exists>s3. ApplyPreRequestPlugins e3 s2 = Ret (Some PREPARE_TO_FORWARD_REQUEST, s3)
        \<and> request_of s3 = SetQuery Buffer_new sql \<and> quiet s3 \<and> frame s2 s3"
  obtains s4 where "take_actions session_action [e1, e2, e3, e4] (SetInitialState PREPARE_TO_RECEIVE_REQUEST) s
      = Ret (SetInitialState FORWARD_REQUEST, s4)"
    "request_of s4 = SetQuery Buffer_new sql" "quiet s4" "c_response (ctx s4) = Buffer_new" "c_initiated (ctx s4)"
proof -
  from idle_received [OF idle(1) d(1) read_query_received(1) [OF d(2)] d(3), of e1] obtain b s2
    where s2: "take_actions session_action [e1, e2] (SetInitialState PREPARE_TO_RECEIVE_REQUEST) s
        = Ret (SetInitialState APPLY_PRE_REQUEST_PLUGINS, s2)"
      "request_of s2 = b" "content b = d" "ctx s2 = (ctx s)\<lparr>c_request := b, c_ev := c_ev (ctx s2)\<rparr>"
      "parameters s2 = parameters s" "st s2 = st s" by metis
  have "query_request text s2" unfolding query_request_def s2(2) using received_query [OF s2(3) d(2)] by blast
  from pre [OF this s2(5,6)] obtain s3
    where s3: "ApplyPreRequestPlugins e3 s2 = Ret (Some PREPARE_TO_FORWARD_REQUEST, s3)"
      "request_of s3 = SetQuery Buffer_new sql" "quiet s3" "frame s2 s3" by blast
  define s4 where "s4 = wait_for (sv_socket s3) EPOLLOUT s3"
  have a: "session_action e3 APPLY_PRE_REQUEST_PLUGINS s2 = Ret (Some PREPARE_TO_FORWARD_REQUEST, s3)"
    "session_action e4 PREPARE_TO_FORWARD_REQUEST s3 = Ret (Some FORWARD_REQUEST, s4)"
    using s3(1) by (simp_all add: session_action_def PrepareToForwardRequest_def s4_def)
  have "take_actions session_action [e3, e4] (SetInitialState APPLY_PRE_REQUEST_PLUGINS) s2
      = Ret (SetInitialState FORWARD_REQUEST, s4)"
    by (rule run_next a)+
  with s2(1) have "take_actions session_action ([e1, e2] @ [e3, e4]) (SetInitialState PREPARE_TO_RECEIVE_REQUEST) s
      = Ret (SetInitialState FORWARD_REQUEST, s4)"
    unfolding take_actions_append by simp
  moreover have "request_of s4 = SetQuery Buffer_new sql" "quiet s4"
    using s3(2) quiet_same [OF s3(3)] by (simp_all add: s4_def wait_for_def request_of_def)
  moreover have "c_response (ctx s2) = Buffer_new" "c_initiated (ctx s2)"
    using idle(1) by (subst s2(4); simp add: idle_def Context_new_def)+
  then have "c_response (ctx s4) = Buffer_new" "c_initiated (ctx s4)"
    using s3(4) by (simp_all add: s4_def wait_for_def frame_def)
  ultimately show thesis using that by simp
qed

definition exchanged :: "env list \<Rightarrow> env list \<Rightarrow> env list \<Rightarrow> string \<Rightarrow> string \<Rightarrow> Session \<Rightarrow> bool" where
  \<comment> \<open>with these inputs up to the request, up to the response and up to the end, an idle session sends the
     server these bytes and the client those, and is idle again\<close>
  "exchanged xs ys zs w r s \<longleftrightarrow> (\<exists>s4 s9 s11.
      take_actions session_action xs (SetInitialState PREPARE_TO_RECEIVE_REQUEST) s = Ret (SetInitialState FORWARD_REQUEST, s4)
    \<and> SendTo (request_of s4) (e_send (hd ys)) = (int (length w), w)
    \<and> take_actions session_action ys (SetInitialState FORWARD_REQUEST) s4 = Ret (SetInitialState FORWARD_RESPONSE, s9)
    \<and> SendTo (c_response (ctx s9)) (e_send (hd zs)) = (int (length r), r)
    \<and> take_actions session_action zs (SetInitialState FORWARD_RESPONSE) s9 = Ret (SetInitialState PREPARE_TO_RECEIVE_REQUEST, s11)
    \<and> idle s11)"

lemma query_exchanged:
  assumes "idle s" "pieces (e_sock e2) d" "read_query d = Some text" "length d < 2 ^ 31"
    "\<And>s2. query_request text s2 \<Longrightarrow> parameters s2 = parameters s \<Longrightarrow> st s2 = st s \<Longrightarrow>
      \<exists>s3. ApplyPreRequestPlugins e3 s2 = Ret (Some PREPARE_TO_FORWARD_REQUEST, s3)
        \<and> request_of s3 = SetQuery Buffer_new sql \<and> quiet s3 \<and> frame s2 s3"
    and sql: "NUL \<notin> set sql" "length sql + 6 < 2 ^ 31" "e_send e5 = SendOk (length sql + 6)"
    and r: "gathers [] es r" "length r < 2 ^ 31" "e_send e10 = SendOk (length r)"
  shows "\<exists>w. exchanged [e1, e2, e3, e4] ([e5, e6] @ es @ [e8, e9]) [e10, e11] w r s \<and> read_query w = Some sql"
proof -
  let ?w = "buf (SetQuery Buffer_new sql)"
  note w = query_bytes [OF sql(1,2)]
  from query_sent [OF assms(1-5)] obtain s4
    where s4: "take_actions session_action [e1, e2, e3, e4] (SetInitialState PREPARE_TO_RECEIVE_REQUEST) s
        = Ret (SetInitialState FORWARD_REQUEST, s4)"
      "request_of s4 = SetQuery Buffer_new sql" "quiet s4" "c_response (ctx s4) = Buffer_new" "c_initiated (ctx s4)" by blast
  have send: "SendTo (request_of s4) (e_send e5) = (int (length ?w), ?w)"
    using w(3) by (simp only: s4(2) sql(3) w(2))
  have "0 < int (length ?w)" using w(2) by simp
  from response_half [OF send this s4(3-5) r(1,2)] obtain s9
    where s9: "take_actions session_action ([e5, e6] @ es @ [e8, e9]) (SetInitialState FORWARD_REQUEST) s4
        = Ret (SetInitialState FORWARD_RESPONSE, s9)"
      "SendTo (c_response (ctx s9)) (SendOk (length r)) = (int (length r), r)" "c_initiated (ctx s9)" by blast
  have r0: "0 < int (length r)" using gathers_ready [OF r(1)] by (auto simp: ready_message_def ends_ready_def)
  from s9(2) r(3) have res: "SendTo (c_response (ctx s9)) (e_send e10) = (int (length r), r)" by simp
  have "idle (stop_waiting s9\<lparr>ctx := Context_Reset (ctx (stop_waiting s9))\<rparr>)"
    using s9(3) by (simp add: idle_def Context_Reset_def stop_waiting_def)
  with s4(1) send s9(1) res last_half [OF res r0] have "exchanged [e1, e2, e3, e4] ([e5, e6] @ es @ [e8, e9]) [e10, e11] ?w r s"
    unfolding exchanged_def append_Cons list.sel by blast
  with w(1) show ?thesis by blast
qed


section \<open>A request that is refused\<close>

definition answer_fields :: "Error \<Rightarrow> (char \<times> string) list" where
  \<comment> \<open>what the client reads of an error\<close>
  "answer_fields e =
     error_fields (the (err_field e ''S'')) (the (err_field e ''C'')) (the (err_field e ''M''))
       (err_field e ''F'') (err_field e ''R'') (err_field e ''L'') (err_field e ''P'')"

fun refusal :: "Error run \<Rightarrow> Error \<Rightarrow> bool" where
  \<comment> \<open>how the plug-ins end when they refuse a request, and the error it is answered with\<close>
  "refusal (Ret e) err \<longleftrightarrow> err = e \<and> Error_bool e \<and> Error_contains e ''S'' \<and> Error_contains e ''C'' \<and> Error_contains e ''M''"
| "refusal (Throw x) err \<longleftrightarrow> err = internal_error x"
| "refusal (Crash c) err \<longleftrightarrow> False"

lemma SetError_fields:
  assumes "Error_contains e ''S''" "Error_contains e ''C''" "Error_contains e ''M''"
    "5 + length (enc_fields (answer_fields e)) < 2 ^ 32"
  shows "\<exists>b'. SetError b e = Ret b' \<and> read_error (buf b') = Some (answer_fields e, ready_for_query_msg)
    \<and> content b' = buf b' \<and> data_size b' = length (buf b') \<and> length (buf b') = length (enc_fields (answer_fields e)) + 12"
proof -
  have nul: "\<forall>v. err_field e k = Some v \<longrightarrow> NUL \<notin> set v" for k
    by (auto simp: err_field_def cstr_def dest: set_takeWhileD)
  obtain s c m where f: "err_field e ''S'' = Some s" "err_field e ''C'' = Some c" "err_field e ''M'' = Some m"
    using assms(1-3) by (auto simp: err_field_def)
  from read_error_SetErrorFields [of s c m "err_field e ''F''" "err_field e ''R''" "err_field e ''L''" "err_field e ''P''" b]
    nul f assms(4) obtain b' where b': "SetError b e = Ret b'" "read_error (buf b') = Some (answer_fields e, ready_for_query_msg)"
    by (fastforce simp: SetError_def answer_fields_def)
  have "by_hand b'" using SetError_returns [OF assms(1-3), of b] b'(1) by simp
  moreover have "length (buf b') = length (enc_fields (answer_fields e)) + 12"
    using SetErrorFields_Ret [of b s c m "err_field e ''F''" "err_field e ''R''" "err_field e ''L''" "err_field e ''P''"] b'(1) f
    by (auto simp: SetError_def answer_fields_def ready_for_query_msg_def)
  ultimately show ?thesis using b' by (auto simp: by_hand_def content_def)
qed

lemma refusal_fields:
  "refusal r err \<Longrightarrow> Error_contains err ''S'' \<and> Error_contains err ''C'' \<and> Error_contains err ''M''"
  by (cases r) auto

lemma refusal_act:
  assumes "apply_pre pre_request_plugins env s = (s1, r)" "refusal r err"
  shows "ApplyPreRequestPlugins env s = respond_error err s1"
  using assms by (cases r) (auto simp: ApplyPreRequestPlugins_def)

lemma idle_inv: "idle s \<Longrightarrow> sess_inv (Some PREPARE_TO_RECEIVE_REQUEST) s"
  by (simp add: idle_def sess_inv.simps inv_defs Context_new_def)

interpretation idle_session: machine session_action env_ok PREPARE_TO_RECEIVE_REQUEST idle sess_inv
  by unfold_locales (use idle_inv action_inv in blast)+

lemma refused_half:
  assumes "readable (request_of s)" "env_ok e3" "c_initiated (ctx s)"
    and r: "apply_pre pre_request_plugins e3 s = (s1, r)" "refusal r err"
    and len: "length (enc_fields (answer_fields err)) + 12 < 2 ^ 31"
  obtains s4 w where "take_actions session_action [e3, e4] (SetInitialState APPLY_PRE_REQUEST_PLUGINS) s
      = Ret (SetInitialState FORWARD_RESPONSE, s4)"
    "length w = length (enc_fields (answer_fields err)) + 12" "read_error w = Some (answer_fields err, ready_for_query_msg)"
    "SendTo (c_response (ctx s4)) (SendOk (length w)) = (int (length w), w)" "c_initiated (ctx s4)"
proof -
  note f = refusal_fields [OF r(2)]
  from respond_error_exact [of err s1] f obtain b
    where b: "respond_error err s1 = Ret (Some PREPARE_TO_FORWARD_RESPONSE, set_response b s1)"
      "SetError (c_response (ctx s1)) err = Ret b" by blast
  with SetError_fields [of err "c_response (ctx s1)"] f len
  have w: "read_error (buf b) = Some (answer_fields err, ready_for_query_msg)"
    "content b = buf b" "data_size b = length (buf b)" "length (buf b) = length (enc_fields (answer_fields err)) + 12"
    by auto
  define s4 where "s4 = wait_for (cl_socket (set_response b s1)) EPOLLOUT (set_response b s1)"
  have a: "session_action e3 APPLY_PRE_REQUEST_PLUGINS s = Ret (Some PREPARE_TO_FORWARD_RESPONSE, set_response b s1)"
    "session_action e4 PREPARE_TO_FORWARD_RESPONSE (set_response b s1) = Ret (Some FORWARD_RESPONSE, s4)"
    using refusal_act [OF r] b(1) by (simp_all add: session_action_def PrepareToForwardResponse_def s4_def)
  have run: "take_actions session_action [e3, e4] (SetInitialState APPLY_PRE_REQUEST_PLUGINS) s
      = Ret (SetInitialState FORWARD_RESPONSE, s4)"
    by (rule run_next a)+
  have "frame s s1" using fine_act fine_pre_request [OF assms(2,1)] unfolding r(1) by blast
  then have "c_initiated (ctx s4)" using assms(3) by (simp add: s4_def wait_for_def set_response_def frame_def)
  moreover have "c_response (ctx s4) = b" by (simp add: s4_def wait_for_def set_response_def)
  then have "SendTo (c_response (ctx s4)) (SendOk (length (buf b))) = (int (length (buf b)), buf b)"
    using SendTo_all [OF w(2,3)] w(4) len by simp
  ultimately show thesis using that run w(1,4) by blast
qed

text \<open>C9. A request the plug-ins refuse, by throwing or by an error with severity, code and message, is not sent to
  the server: two actions later the session sends its client an error response, from which the client
  reads the fields of that error and that the proxy is ready, and then it is idle again.\<close>
theorem refused_request_answered:
  assumes "idle s" "env_ok e1" "env_ok e2" "env_ok e3"
    "take_actions session_action [e1, e2] (SetInitialState PREPARE_TO_RECEIVE_REQUEST) s
      = Ret (SetInitialState APPLY_PRE_REQUEST_PLUGINS, s2)"
    "apply_pre pre_request_plugins e3 s2 = (s3, r)" "refusal r err"
    "length (enc_fields (answer_fields err)) + 12 < 2 ^ 31"
    "e_send e5 = SendOk (length (enc_fields (answer_fields err)) + 12)"
  shows "\<exists>s4 s6 w.
      take_actions session_action [e3, e4] (SetInitialState APPLY_PRE_REQUEST_PLUGINS) s2
        = Ret (SetInitialState FORWARD_RESPONSE, s4)
    \<and> SendTo (c_response (ctx s4)) (e_send e5) = (int (length w), w)
    \<and> read_error w = Some (answer_fields err, ready_for_query_msg)
    \<and> take_actions session_action [e5, e6] (SetInitialState FORWARD_RESPONSE) s4
        = Ret (SetInitialState PREPARE_TO_RECEIVE_REQUEST, s6)
    \<and> idle s6"
proof -
  have "\<forall>e \<in> set [e1, e2]. env_ok e" using assms(2,3) by simp
  from idle_session.reached_inv [OF this assms(1,5)] have "sess_inv (Some APPLY_PRE_REQUEST_PLUGINS) s2"
    by (simp add: SetInitialState_def)
  then have "readable (request_of s2)" "c_initiated (ctx s2)" by (auto simp: sess_inv.simps inv_defs)
  from refused_half [OF this(1) assms(4) this(2) assms(6-8)] obtain s4 w
    where s4: "take_actions session_action [e3, e4] (SetInitialState APPLY_PRE_REQUEST_PLUGINS) s2
        = Ret (SetInitialState FORWARD_RESPONSE, s4)"
      "length w = length (enc_fields (answer_fields err)) + 12" "read_error w = Some (answer_fields err, ready_for_query_msg)"
      "SendTo (c_response (ctx s4)) (SendOk (length w)) = (int (length w), w)" "c_initiated (ctx s4)" by blast
  have send: "SendTo (c_response (ctx s4)) (e_send e5) = (int (length w), w)" using s4(2,4) assms(9) by simp
  have pos: "0 < int (length w)" using s4(2) by simp
  have "idle (stop_waiting s4\<lparr>ctx := Context_Reset (ctx (stop_waiting s4))\<rparr>)"
    using s4(5) by (simp add: idle_def Context_Reset_def stop_waiting_def)
  with s4(1,3) send last_half [OF send pos] show ?thesis by blast
qed

section \<open>Concrete exchanges\<close>

definition sample_user :: Session where
  \<comment> \<open>idle, of a user who is no superuser, with one controlled relation\<close>
  "sample_user = sample_idle\<lparr>st := Some [''docs'']\<rparr>"

definition sample_query :: string where
  "sample_query = buf (SetQuery Buffer_new ''SELECT 1'')"

lemma sample_user_simps [simp]:
  "idle sample_user" "smap_get (parameters sample_user) k = []" "st sample_user = Some [''docs'']"
  by (simp_all add: sample_user_def sample_idle_def idle_def Session_new_def)

lemma sample_query_simps [simp]:
  "read_query sample_query = Some ''SELECT 1''" "length sample_query = 14" "sample_query \<noteq> []"
  using query_bytes [of "''SELECT 1''"] by (auto simp: sample_query_def)

definition sample_answer :: string where
  \<comment> \<open>a row description of one column, and ReadyForQuery\<close>
  "sample_answer = row_message [(''n'', replicate 18 NUL)] @ [CHR ''Z'', NUL, NUL, NUL, CHR 0x05, CHR ''I'']"

lemma sample_answer_ok: "ready_message sample_answer" "length sample_answer = 33"
proof -
  have "list_all field_ok [(''n'', replicate 18 NUL)]" by (simp add: field_ok_def)
  then have "response_start sample_answer"
    unfolding response_start_def sample_answer_def
    by (intro disjI2 disjI1 exI [of _ "[(''n'', replicate 18 NUL)]"]) auto
  then show "ready_message sample_answer" unfolding ready_message_def ends_ready_def by (auto simp: sample_answer_def)
  show "length sample_answer = 33" by (simp add: sample_answer_def row_message_def row_field_def be16_def)
qed

lemma sample_answer_not_Nil [simp]: "sample_answer \<noteq> []"
  using sample_answer_ok(2) by auto


lemma refused_request_answered_witness:
  "\<exists>s2 s4 s6 w.
      take_actions session_action [sample_env, sample_env\<lparr>e_sock := [Bytes sample_query]\<rparr>]
        (SetInitialState PREPARE_TO_RECEIVE_REQUEST) sample_user = Ret (SetInitialState APPLY_PRE_REQUEST_PLUGINS, s2)
    \<and> take_actions session_action [sample_env\<lparr>e_expand := \<lambda>_. Throw type_error\<rparr>, sample_env] (SetInitialState APPLY_PRE_REQUEST_PLUGINS) s2
        = Ret (SetInitialState FORWARD_RESPONSE, s4)
    \<and> SendTo (c_response (ctx s4)) (SendOk (length (enc_fields (answer_fields (internal_error type_error))) + 12)) = (int (length w), w)
    \<and> read_error w = Some (answer_fields (internal_error type_error), ready_for_query_msg)
    \<and> answer_fields (internal_error type_error) = [(CHR ''C'', ''XX000''), (CHR ''M'', what type_error), (CHR ''S'', ''ERROR''), (CHR ''V'', ''ERROR'')]
    \<and> take_actions session_action
        [sample_env\<lparr>e_send := SendOk (length (enc_fields (answer_fields (internal_error type_error))) + 12)\<rparr>, sample_env]
        (SetInitialState FORWARD_RESPONSE) s4 = Ret (SetInitialState PREPARE_TO_RECEIVE_REQUEST, s6) \<and> idle s6"
proof -
  let ?e2 = "sample_env\<lparr>e_sock := [Bytes sample_query]\<rparr>" and ?e3 = "sample_env\<lparr>e_expand := \<lambda>_. Throw type_error\<rparr>"
    and ?n = "length (enc_fields (answer_fields (internal_error type_error))) + 12"
  have fields: "answer_fields (internal_error type_error) = [(CHR ''C'', ''XX000''), (CHR ''M'', what type_error), (CHR ''S'', ''ERROR''), (CHR ''V'', ''ERROR'')]"
    by code_simp
  have n: "?n < 2 ^ 31" unfolding fields by (simp add: what_def type_error_def)
  have d: "pieces (e_sock ?e2) sample_query" "length sample_query < 2 ^ 31" by simp_all
  from idle_received [OF sample_user_simps(1) d(1) sample_query_simps(3) d(2), of sample_env] obtain b s2
    where s2: "take_actions session_action [sample_env, ?e2] (SetInitialState PREPARE_TO_RECEIVE_REQUEST) sample_user
        = Ret (SetInitialState APPLY_PRE_REQUEST_PLUGINS, s2)"
      "request_of s2 = b" "content b = sample_query" "parameters s2 = parameters sample_user" "st s2 = st sample_user" .
  have q: "query_request ''SELECT 1'' s2"
    unfolding query_request_def s2(2) using received_query [OF s2(3)] by simp
  have "Acl_json (\<lambda>_. Throw type_error) (Some [''docs'']) (sample_select (range_var None ''docs'')) = Throw type_error"
    by code_simp
  then obtain s3 where s3: "apply_pre pre_request_plugins ?e3 s2 = (s3, Throw type_error)"
    using pre_request_steps [OF q, of ?e3 "''SELECT 1''"] s2(4,5)
    by (simp add: sample_translate Parse_def AclQueryPlugIn_def Let_def Query_bool_def Acl_def)
  have ok: "env_ok sample_env" "env_ok ?e2" "env_ok ?e3" by (simp_all add: env_ok_def sample_env_def)
  have "refusal (Throw type_error) (internal_error type_error)" "e_send (sample_env\<lparr>e_send := SendOk ?n\<rparr>) = SendOk ?n" by simp_all
  from refused_request_answered [OF sample_user_simps(1) ok s2(1) s3 this(1) n this(2), of sample_env sample_env] s2(1) fields
  show ?thesis unfolding \<open>e_send _ = _\<close> by blast
qed

end
