(* ===== verification/AccessWord.thy ===== *)
theory AccessWord
  imports Commands
begin

text \<open>
  Every command but the removal of comments is recognised by a keyword, white space, the word ACCESS,
  white space and another keyword. This theory says where in a text that can begin: nowhere in a text
  in which ACCESS does not stand between white space, and only at the start of a statement whose rest is
  such a text.
\<close>

section \<open>Texts without the word\<close>

fun step_access :: "nat \<Rightarrow> char \<Rightarrow> nat" where
  \<comment> \<open>how much of the word the current token has spelled; 7 when it is another token\<close>
  "step_access a x = (if a < 6 \<and> tolower x = ''access'' ! a then Suc a else 7)"

fun calm :: "nat \<Rightarrow> string \<Rightarrow> bool" where
  \<comment> \<open>no token that white space follows is the word ACCESS\<close>
  "calm a [] = True"
| "calm a (x # s) = (if is_space x then a \<noteq> 6 \<and> calm 0 s else calm (step_access a x) s)"

declare step_access.simps [simp del] calm.simps(2) [simp del]

definition no_space :: "string \<Rightarrow> bool" where
  "no_space w \<longleftrightarrow> list_all (\<lambda>x. \<not> is_space x) w"

lemma calm_space: "is_space x \<Longrightarrow> calm a (x # s) \<longleftrightarrow> a \<noteq> 6 \<and> calm 0 s"
  by (simp add: calm.simps(2))

lemma calm_other: "\<not> is_space x \<Longrightarrow> calm a (x # s) = calm (step_access a x) s"
  by (simp add: calm.simps(2))

lemma calm_run: "no_space w \<Longrightarrow> calm a (w @ s) = calm (foldl step_access a w) s"
  by (induction w arbitrary: a) (auto simp: no_space_def calm_other)

lemma run_7 [simp]: "foldl step_access 7 w = 7"
  by (induction w) (simp_all add: step_access.simps)

lemma step_access_alive: "step_access a x \<noteq> 7 \<Longrightarrow> a < 6 \<and> tolower x = ''access'' ! a \<and> step_access a x = Suc a"
  by (auto simp: step_access.simps split: if_splits)

lemma run_spells: "foldl step_access 0 w \<noteq> 7 \<Longrightarrow>
    foldl step_access 0 w \<le> 6 \<and> lower w = take (foldl step_access 0 w) ''access''"
proof (induction w rule: rev_induct)
  case (snoc x w)
  let ?b = "foldl step_access 0 w"
  from snoc.prems have b: "?b < 6" "tolower x = ''access'' ! ?b" "step_access ?b x = Suc ?b"
    using step_access_alive [of ?b x] by simp_all
  with snoc.IH have "lower w = take ?b ''access''" by simp
  then have "lower (w @ [x]) = take ?b ''access'' @ [''access'' ! ?b]" using b(2) by (simp add: lower_def)
  also have "\<dots> = take (Suc ?b) ''access''" using b(1) by (intro take_Suc_conv_app_nth [symmetric]) simp
  finally show ?case using b(1,3) by simp
qed (simp add: lower_def)

lemma calm_dead: "no_space w \<Longrightarrow> calm 7 (w @ s) = calm 7 s"
  by (simp add: calm_run)

lemma word_no_space: "word w \<Longrightarrow> no_space w"
  using word_not_space by (auto simp: no_space_def word_def list_all_iff)

lemma calm_token:
  assumes "no_space w" "\<not> kw w ''ACCESS''" "\<And>b. b \<noteq> 6 \<Longrightarrow> calm b s"
  shows "calm 0 (w @ s)"
proof -
  have l: "lower ''ACCESS'' = ''access''" by code_simp
  have "foldl step_access 0 w \<noteq> 6"
    using run_spells [of w] assms(2) by (auto simp: kw_def l)
  then show ?thesis using assms(1,3) by (simp add: calm_run)
qed

lemma calm_sign: "\<not> is_space x \<Longrightarrow> tolower x \<notin> set ''access'' \<Longrightarrow> calm a (x # s) = calm 7 s"
proof -
  assume "\<not> is_space x" "tolower x \<notin> set ''access''"
  moreover have "a < 6 \<Longrightarrow> ''access'' ! a \<in> set ''access''" by (rule nth_mem) simp
  ultimately show ?thesis by (metis calm_other step_access.simps)
qed

lemma calm_spaces: "spaces u \<Longrightarrow> a \<noteq> 6 \<Longrightarrow> calm a (u @ s) = calm 0 s"
proof -
  have "list_all is_space u \<Longrightarrow> calm 0 (u @ s) = calm 0 s" for u
    by (induction u) (auto simp: calm_space)
  moreover assume "spaces u" "a \<noteq> 6"
  ultimately show ?thesis by (cases u) (auto simp: spaces_def calm_space)
qed

lemma calm_suffix: "calm a (p @ s) \<Longrightarrow> \<exists>b. calm b s"
  by (induction p arbitrary: a) (auto simp: calm.simps(2) split: if_splits)

lemma kw_access_run:
  assumes "kw k ''ACCESS''"
  shows "no_space k \<and> foldl step_access 0 k = 6"
proof -
  have l: "lower ''ACCESS'' = ''access''" by code_simp
  with assms have k: "map tolower k = ''access''" by (simp add: kw_def lower_def)
  then obtain a b c d e f where s: "k = [a, b, c, d, e, f]" by (auto simp: map_eq_Cons_conv)
  have "\<not> is_space x" if "tolower x \<in> set ''access''" for x
  proof
    assume x: "is_space x"
    then have "tolower x = x" by (rule tolower_space)
    with that x show False by (auto simp: is_space_def code_def)
  qed
  with k s show ?thesis by (simp add: no_space_def step_access.simps)
qed

lemma calm_flanked:
  assumes "is_space x" "kw k ''ACCESS''" "is_space y"
  shows "\<not> calm a (p @ x # k @ y # r)"
proof
  assume "calm a (p @ x # k @ y # r)"
  from calm_suffix [OF this] assms(1) have "calm 0 (k @ y # r)" by (auto simp: calm_space)
  with kw_access_run [OF assms(2)] assms(3) show False by (simp add: calm_run calm_space)
qed

lemma calm_closed: "calm a q \<Longrightarrow> \<not> is_space x \<Longrightarrow> tolower x \<notin> set ''access'' \<Longrightarrow> calm 7 s \<Longrightarrow> calm a (q @ x # s)"
proof (induction q arbitrary: a)
  case Nil
  then show ?case by (simp add: calm_sign)
next
  case (Cons y q)
  then show ?case by (cases "is_space y") (simp_all add: calm_space calm_other)
qed

section \<open>Texts in which a pattern does not begin\<close>

definition ends :: "string \<Rightarrow> bool" where
  \<comment> \<open>what can follow a statement: nothing, or a semicolon and more\<close>
  "ends r \<longleftrightarrow> r = [] \<or> hd r = CHR '';''"

definition inert :: "rx \<Rightarrow> string \<Rightarrow> bool" where
  \<comment> \<open>no match begins in the text, whatever the statements behind it are\<close>
  "inert re u \<longleftrightarrow> (\<forall>p s r. u = p @ s \<longrightarrow> ends r \<longrightarrow> mat re [] (s @ r) = [])"

definition command_rx :: "string \<Rightarrow> string \<Rightarrow> rx \<Rightarrow> rx" where
  \<comment> \<open>the patterns of the commands: a keyword, the word ACCESS, a keyword and the rest\<close>
  "command_rx k1 k3 re =
     Seq (ILit k1) (Seq ws (Seq (ILit ''ACCESS'') (Seq ws (Seq (ILit k3) re))))"

lemma mat_ILitE:
  assumes "(c', z) \<in> set (mat (ILit w) c s)"
  obtains k where "s = k @ z" "kw k w"
proof -
  from assms have "lower (take (length w) s) = lower w" "z = drop (length w) s" by (auto split: if_splits)
  then show thesis using that [of "take (length w) s"] by (simp add: kw_def)
qed

lemma mat_Star_Cls: "(c', z) \<in> set (mat (Star (Cls k)) c s) \<Longrightarrow> \<exists>u. s = u @ z \<and> list_all (in_cc k) u"
proof (induction s arbitrary: c)
  case (Cons x s)
  show ?case
  proof (cases "z = x # s")
    case False
    with Cons.prems have "in_cc k x" "(c', z) \<in> set (mat (Star (Cls k)) c s)"
      by (auto simp: mat.simps(7) [of _ _ "x # s"] split: if_splits)
    with Cons.IH obtain u where "s = u @ z" "list_all (in_cc k) u" by blast
    with \<open>in_cc k x\<close> show ?thesis by (intro exI [of _ "x # u"]) simp
  qed (intro exI [of _ "[]"], simp)
qed (simp add: mat.simps(7))

lemma mat_wsE:
  assumes "(c', z) \<in> set (mat ws c s)"
  obtains u where "s = u @ z" "spaces u"
proof -
  from assms obtain x s1 where s: "s = x # s1" "is_space x" "(c', z) \<in> set (mat (Star (Cls CSpace)) c s1)"
    unfolding ws_def by (auto split: list.splits if_splits)
  from mat_Star_Cls [OF s(3)] obtain u where "s1 = u @ z" "list_all is_space u"
    by (auto simp: in_cc.simps [abs_def])
  with s that [of "x # u"] show thesis by (simp add: spaces_def)
qed

lemma command_match:
  assumes "mat (command_rx a b re) c s \<noteq> []"
  obtains k1 s1 k2 s2 k3 z where "s = k1 @ s1 @ k2 @ s2 @ k3 @ z" "kw k1 a" "spaces s1" "kw k2 ''ACCESS''"
    "spaces s2" "kw k3 b" "\<exists>c. mat re c z \<noteq> []"
proof -
  from assms obtain x xs where "mat (command_rx a b re) c s = x # xs" by (cases "mat (command_rx a b re) c s") auto
  then have "x \<in> set (mat (command_rx a b re) c s)" by simp
  then obtain c1 z1 c2 z2 c3 z3 c4 z4 c5 z5 where
    "(c1, z1) \<in> set (mat (ILit a) c s)" "(c2, z2) \<in> set (mat ws c1 z1)"
    "(c3, z3) \<in> set (mat (ILit ''ACCESS'') c2 z2)" "(c4, z4) \<in> set (mat ws c3 z3)"
    "(c5, z5) \<in> set (mat (ILit b) c4 z4)" "x \<in> set (mat re c5 z5)"
    unfolding command_rx_def mat.simps(4) by (auto simp del: mat.simps)
  then obtain k1 s1 k2 s2 k3 where "s = k1 @ z1" "kw k1 a" "z1 = s1 @ z2" "spaces s1" "z2 = k2 @ z3"
    "kw k2 ''ACCESS''" "z3 = s2 @ z4" "spaces s2" "z4 = k3 @ z5" "kw k3 b" "\<exists>c. mat re c z5 \<noteq> []"
    by (elim mat_ILitE mat_wsE) (metis list.set(1) empty_iff)
  then show thesis by (intro that [of k1 s1 k2 s2 k3 z5]) simp_all
qed


lemma spaces_no_semicolon: "spaces u \<Longrightarrow> CHR '';'' \<notin> set u"
  by (auto simp: spaces_def list_all_iff)

lemma spaces_last: "spaces u \<Longrightarrow> \<exists>v x. u = v @ [x] \<and> is_space x"
  by (cases u rule: rev_cases) (auto simp: spaces_def)

lemma kw_no_semicolon: "kw k w \<Longrightarrow> word w \<Longrightarrow> CHR '';'' \<notin> set k"
proof -
  assume "kw k w" "word w"
  then have "word k" using word_lower [of k] word_lower [of w] by (simp add: kw_def)
  then show ?thesis by (auto simp: word_def list_all_iff)
qed

lemma kw_word: "kw k w \<Longrightarrow> word w \<Longrightarrow> word k"
  using word_lower [of k] word_lower [of w] by (simp add: kw_def)

lemma append_overlap: "a @ b = c @ d \<Longrightarrow> \<exists>e. a = c @ e \<and> e @ b = d \<or> a @ e = c \<and> b = e @ d"
  unfolding append_eq_append_conv2 by blast

lemma before_end:
  \<comment> \<open>a part without a semicolon that begins before the end of the statement ends before it\<close>
  assumes "s @ r = x @ z" "ends r" "CHR '';'' \<notin> set x"
  obtains z1 where "s = x @ z1" "z = z1 @ r"
proof -
  from append_overlap [OF assms(1)] obtain e where "s = x @ e \<and> e @ r = z \<or> s @ e = x \<and> r = e @ z" by blast
  then show thesis
  proof
    assume e: "s @ e = x \<and> r = e @ z"
    have "e = []" using e assms(2,3) by (cases e) (auto simp: ends_def)
    with e that [of "[]"] show thesis by simp
  qed (use that in blast)
qed

lemma calm_inert:
  assumes "calm a u" "word k1"
  shows "inert (command_rx k1 k3 re) u"
  unfolding inert_def
proof (intro allI impI, rule ccontr)
  fix p s r assume u: "u = p @ s" "ends r" "mat (command_rx k1 k3 re) [] (s @ r) \<noteq> []"
  from u(3) obtain j1 s1 j2 s2 j3 z where m: "s @ r = j1 @ s1 @ j2 @ s2 @ j3 @ z" "kw j1 k1" "spaces s1"
    "kw j2 ''ACCESS''" "spaces s2" by (rule command_match)
  have "CHR '';'' \<notin> set (j1 @ s1 @ j2 @ s2)"
    using m kw_no_semicolon [OF m(2) assms(2)] kw_no_semicolon [OF m(4)] spaces_no_semicolon by auto
  with before_end [of s r "j1 @ s1 @ j2 @ s2" "j3 @ z"] m(1) u(2)
  obtain z1 where s: "s = (j1 @ s1 @ j2 @ s2) @ z1" by auto
  from spaces_last [OF m(3)] obtain v x where v: "s1 = v @ [x]" "is_space x" by blast
  from m(5) obtain y w where y: "s2 = y # w" "is_space y" by (cases s2) (auto simp: spaces_def)
  from calm_flanked [OF v(2) m(4) y(2), of a "p @ j1 @ v" "w @ z1"] assms(1) show False
    by (simp add: u(1) s v y)
qed

section \<open>Where a statement can match\<close>

lemma no_space_prefix:
  \<comment> \<open>two texts that agree, each a token and a space\<close>
  "no_space a \<Longrightarrow> no_space b \<Longrightarrow> is_space x \<Longrightarrow> is_space y \<Longrightarrow> a @ x # c = b @ y # d \<Longrightarrow> a = b \<and> x # c = y # d"
proof (induction a arbitrary: b)
  case Nil
  then show ?case by (cases b) (auto simp: no_space_def)
next
  case (Cons h a)
  then show ?case by (cases b) (auto simp: no_space_def)
qed

lemma statement_head:
  assumes eq: "p @ k1 @ s1 @ k2 @ s2 @ z1 = j0 @ t1 @ j2 @ t2 @ z2"
    and k: "spaces s1" "kw k2 ''ACCESS''" "spaces s2"
    and j: "spaces t1" "kw j2 ''ACCESS''" "spaces t2" "calm 0 (j0 @ t1)" "calm 0 z2"
  shows "p @ k1 @ s1 = j0 @ t1 \<and> s2 @ z1 = t2 @ z2"
proof -
  have nk: "no_space k2" "no_space j2" using kw_access_run k j by blast+
  from k(3) obtain y s2' where y: "s2 = y # s2'" "is_space y" by (cases s2) (auto simp: spaces_def)
  from j(3) obtain w t2' where w: "t2 = w # t2'" "is_space w" by (cases t2) (auto simp: spaces_def)
  from spaces_last [OF k(1)] obtain v x where v: "s1 = v @ [x]" "is_space x" by blast
  from spaces_last [OF j(1)] obtain v' x' where v': "t1 = v' @ [x']" "is_space x'" by blast
  from eq have "(p @ k1 @ s1) @ k2 @ s2 @ z1 = (j0 @ t1) @ j2 @ t2 @ z2" by simp
  from append_overlap [OF this] obtain d where d: "p @ k1 @ s1 = (j0 @ t1) @ d \<and> d @ k2 @ s2 @ z1 = j2 @ t2 @ z2
      \<or> (p @ k1 @ s1) @ d = j0 @ t1 \<and> k2 @ s2 @ z1 = d @ j2 @ t2 @ z2"
    by blast
  have "p @ k1 @ s1 = j0 @ t1 \<and> k2 @ s2 @ z1 = j2 @ t2 @ z2" if "d = []" using d that by auto
  with d consider "d = []" "p @ k1 @ s1 = j0 @ t1" "k2 @ s2 @ z1 = j2 @ t2 @ z2"
    | "d \<noteq> []" "p @ k1 @ s1 = (j0 @ t1) @ d" "d @ k2 @ s2 @ z1 = j2 @ t2 @ z2"
    | "d \<noteq> []" "(p @ k1 @ s1) @ d = j0 @ t1" "k2 @ s2 @ z1 = d @ j2 @ t2 @ z2"
    by blast
  then show ?thesis
  proof cases
    case 1
    from no_space_prefix [OF nk y(2) w(2), of "s2' @ z1" "t2' @ z2"] 1 y w show ?thesis by simp
  next
    case 2
    then obtain d' e where d: "d = d' @ [e]" by (cases d rule: rev_cases) auto
    with 2(2) v have e: "is_space e" by simp
    from 2(3) d have "(d' @ [e]) @ k2 @ s2 @ z1 = j2 @ t2 @ z2" by simp
    from append_overlap [OF this] obtain g where "d' @ [e] = j2 @ g \<and> g @ k2 @ s2 @ z1 = t2 @ z2
        \<or> (d' @ [e]) @ g = j2 \<and> k2 @ s2 @ z1 = g @ t2 @ z2"
      by blast
    then show ?thesis
    proof
      assume g: "d' @ [e] = j2 @ g \<and> g @ k2 @ s2 @ z1 = t2 @ z2"
      have "g \<noteq> []" using g nk(2) e by (auto simp: no_space_def)
      with g obtain g' where "g = g' @ [e]" by (cases g rule: rev_cases) auto
      with g y have "t2 @ z2 = g' @ e # k2 @ y # s2' @ z1" by simp
      moreover have "calm 0 (t2 @ z2)" using j(3,5) by (simp add: calm_spaces)
      ultimately show ?thesis using calm_flanked [OF e k(2) y(2)] by metis
    next
      assume "(d' @ [e]) @ g = j2 \<and> k2 @ s2 @ z1 = g @ t2 @ z2"
      then show ?thesis using nk(2) e by (auto simp: no_space_def)
    qed
  next
    case 3
    then obtain d' e where d: "d = d' @ [e]" by (cases d rule: rev_cases) auto
    with 3(2) v' have e: "is_space e" by (metis append.assoc last_appendR last_snoc snoc_eq_iff_butlast)
    from 3(3) d have "k2 @ s2 @ z1 = (d' @ [e]) @ j2 @ t2 @ z2" by simp
    from append_overlap [OF this] obtain g where "k2 = (d' @ [e]) @ g \<or> k2 @ g = d' @ [e] \<and> s2 @ z1 = g @ j2 @ t2 @ z2"
      by blast
    then show ?thesis
    proof
      assume "k2 = (d' @ [e]) @ g"
      then show ?thesis using nk(1) e by (simp add: no_space_def)
    next
      assume g: "k2 @ g = d' @ [e] \<and> s2 @ z1 = g @ j2 @ t2 @ z2"
      have "g \<noteq> []"
      proof
        assume "g = []"
        with g have "k2 = d' @ [e]" by simp
        with nk(1) e show False by (simp add: no_space_def)
      qed
      with g y obtain g' where g': "g = y # g'" by (cases g) auto
      have "j0 @ t1 = (p @ k1 @ v) @ x # k2 @ y # g'" using 3(2) d g g' v by simp
      with calm_flanked [OF v(2) k(2) y(2)] j(4) show ?thesis by metis
    qed
  qed
qed

lemma same_keyword:
  assumes "p @ k @ s = u @ j @ t" "word k" "spaces s" "list_all is_space u" "word j" "spaces t"
  shows "\<exists>p'. j = p' @ k"
proof -
  have sp: "list_all is_space (rev s)" "list_all is_space (rev t)" using assms by (simp_all add: spaces_def)
  have drop: "dropWhile is_space (rev s @ rev w @ x) = rev w @ x"
    if "list_all is_space (rev s)" "word w" for s w x
    using that word_not_space by (cases w rule: rev_cases) (auto simp: dropWhile_append list_all_iff word_def)
  from arg_cong [OF assms(1), of rev] have "rev s @ rev k @ rev p = rev t @ rev j @ rev u" by simp
  from arg_cong [OF this, of "dropWhile is_space"] have "rev k @ rev p = rev j @ rev u"
    by (simp only: drop [OF sp(1) assms(2)] drop [OF sp(2) assms(5)])
  then have "p @ k = u @ j" by (metis rev_append rev_rev_ident)
  from append_overlap [OF this] obtain d where "p = u @ d \<and> d @ k = j \<or> p @ d = u \<and> k = d @ j" by blast
  then show ?thesis
  proof
    assume d: "p @ d = u \<and> k = d @ j"
    have "d = []" using d assms(2,4) word_not_space by (cases d) (auto simp: word_def)
    with d show ?thesis by simp
  qed blast
qed

lemma other_inert:
  assumes u: "u = t0 @ j1 @ t1 @ j2 @ t2 @ j3 @ w" "list_all is_space t0" "kw j1 b1" "spaces t1"
      "kw j2 ''ACCESS''" "spaces t2" "kw j3 b3" "calm 0 (j3 @ w)"
    and words: "word a1" "word a3" "word b1" "word b3" "\<not> kw b1 ''ACCESS''"
    and other: "(\<forall>p. lower b1 \<noteq> p @ lower a1) \<or> tolower (hd a3) \<noteq> tolower (hd b3)
      \<or> a3 = b3 \<and> (\<forall>c r. ends r \<longrightarrow> mat re c (w @ r) = [])"
  shows "inert (command_rx a1 a3 re) u"
  unfolding inert_def
proof (intro allI impI, rule ccontr)
  fix p s r assume s: "u = p @ s" "ends r" "mat (command_rx a1 a3 re) [] (s @ r) \<noteq> []"
  from s(3) obtain k1 s1 k2 s2 k3 z where m: "s @ r = k1 @ s1 @ k2 @ s2 @ k3 @ z" "kw k1 a1" "spaces s1"
    "kw k2 ''ACCESS''" "spaces s2" "kw k3 a3" "\<exists>c. mat re c z \<noteq> []" by (rule command_match)
  have "CHR '';'' \<notin> set (k1 @ s1 @ k2 @ s2 @ k3)"
    using m words kw_no_semicolon [OF m(2)] kw_no_semicolon [OF m(4)] kw_no_semicolon [OF m(6)]
      spaces_no_semicolon by auto
  with before_end [of s r "k1 @ s1 @ k2 @ s2 @ k3" z] m(1) s(2)
  obtain z1 where z1: "s = (k1 @ s1 @ k2 @ s2 @ k3) @ z1" "z = z1 @ r" by auto
  have j1: "word j1" "\<not> kw j1 ''ACCESS''" and k1: "word k1" and k3: "word k3" and j3: "word j3"
    using kw_word u m words by (auto simp: kw_def)
  have "calm 0 (t0 @ j1 @ t1)"
  proof -
    have "calm 0 (j1 @ t1)"
      by (rule calm_token) (use j1 u(4) calm_spaces [of t1 _ "[]"] in \<open>simp_all add: word_no_space\<close>)
    then show ?thesis using u(2) calm_spaces [of t0 0] by (cases "t0 = []") (simp_all add: spaces_def)
  qed
  with statement_head [of p k1 s1 k2 s2 "k3 @ z1" "t0 @ j1" t1 j2 t2 "j3 @ w"] s(1) u m(3-5) z1(1)
  have *: "p @ k1 @ s1 = t0 @ j1 @ t1" "s2 @ k3 @ z1 = t2 @ j3 @ w" by auto
  from same_keyword [OF *(1) k1 m(3) u(2) j1(1) u(4)] obtain p' where "j1 = p' @ k1" by blast
  then have "lower b1 = lower p' @ lower a1" using u(3) m(2) by (simp add: kw_def lower_append)
  moreover have "k3 @ z1 = j3 @ w"
  proof -
    have d: "dropWhile is_space (s @ k @ x) = k @ x" if "spaces s" "word k" for s k x
      using that word_not_space by (cases k) (auto simp: dropWhile_append spaces_def list_all_iff word_def)
    from arg_cong [OF *(2), of "dropWhile is_space"] show ?thesis by (simp only: d [OF m(5) k3] d [OF u(6) j3])
  qed
  moreover have hd_kw: "tolower (hd k) = tolower (hd a)" if "kw k a" "word k" "word a" for k a
    using that by (cases k; cases a) (auto simp: kw_def lower_def word_def)
  have "tolower (hd a3) = tolower (hd b3)"
    using hd_kw [OF m(6) k3] hd_kw [OF u(7) j3] words k3 j3 \<open>k3 @ z1 = j3 @ w\<close>
    by (cases k3; cases j3) (auto simp: word_def)
  ultimately have r: "a3 = b3" "\<forall>c r. ends r \<longrightarrow> mat re c (w @ r) = []" using other by blast+
  have "length k3 = length j3" using r(1) m(6) u(7) by (metis kw_def length_lower)
  with \<open>k3 @ z1 = j3 @ w\<close> have "z1 = w" by simp
  with r(2) m(7) z1(2) s(2) show False by auto
qed

end
