(* ===== verification/CommandLanguage.thy ===== *)
theory CommandLanguage
  imports AccessWord
begin

text \<open>
  The language of the access-control commands, apart from the way the program translates it: the
  commands, the SQL each stands for, and the texts that say it. The patterns of
  \<open>query/proxy-command.cpp\<close> report, on every text of a command, a match from which the translator of
  that command builds exactly this SQL.
\<close>

section \<open>Commands\<close>

type_synonym names = "(string \<times> string) list"

datatype arg = Name string | Param string

datatype role_filter = AnyRole | WithOne string | WithAll string names | WithSome string names

datatype command =
    Enable string
  | CreatePermission string string string
  | CreateRole string string names
  | CreateInheritance string string names string string names
  | ListPermission "string option"
  | ListBinding string string
  | ListRole role_filter
  | ListInheritance "(bool \<times> string) option"
  | Bind string string string string
  | Unbind arg arg arg string

fun arg_text :: "arg \<Rightarrow> string" where
  "arg_text (Name w) = w"
| "arg_text (Param d) = CHR ''$'' # d"

fun arg_sql :: "arg \<Rightarrow> string" where
  "arg_sql (Name w) = quoted w"
| "arg_sql (Param d) = CHR ''$'' # d"

fun sql_filter :: "role_filter \<Rightarrow> string" where
  "sql_filter AnyRole = []"
| "sql_filter (WithOne p) = '' WHERE _permissions @> ARRAY['' @ quoted (lower p) @ '']''"
| "sql_filter (WithAll p ps) =
     '' WHERE _permissions @> ARRAY['' @ quoted_names (lower p) (lower_names ps) @ '']''"
| "sql_filter (WithSome p ps) =
     '' WHERE _permissions && ARRAY['' @ quoted_names (lower p) (lower_names ps) @ '']''"

fun sql :: "command \<Rightarrow> string" where
  \<comment> \<open>what a command stands for\<close>
  "sql (Enable t) = sql_enable t"
| "sql (CreatePermission n t op) =
     ''INSERT INTO __access_permissions__ (_name, _relation, _operation)'' @
     [TAB] @ ''VALUES (LOWER('' @ quoted n @ ''), '' @ quoted t @ '', UPPER('' @ quoted op @ ''))''"
| "sql (CreateRole n p ps) = sql_create_role (lower n) (quoted_names (lower p) (lower_names ps))"
| "sql (CreateInheritance f fc fcs t tc tcs) =
     sql_inheritance f t (join_conds True (zip (columns fc fcs) (columns tc tcs)))"
| "sql (ListPermission None) = ''SELECT * FROM __access_permissions__''"
| "sql (ListPermission (Some t)) =
     ''SELECT * FROM __access_permissions__'' @ '' WHERE _relation = '' @ quoted t @ ''::REGCLASS''"
| "sql (ListBinding t q) =
     (''SELECT *'' @ ''   FROM '') @ t @ (''__access_bindings__'' @ ''   WHERE _id = ('') @ q @ '')''"
| "sql (ListRole fil) = ''SELECT * FROM __access_roles__'' @ sql_filter fil"
| "sql (ListInheritance None) = ''SELECT * FROM __access_inheritances__''"
| "sql (ListInheritance (Some (src, t))) =
     ''SELECT * FROM __access_inheritances__'' @ (if src then '' WHERE _src = '' else '' WHERE _dst = '')
     @ quoted t @ ''::REGCLASS''"
| "sql (Bind n who t q) = sql_bind n who t q"
| "sql (Unbind n who t q) =
     (''DELETE FROM __access_binding_refs__ r'' @ '' USING '') @ arg_text t
     @ (''__access_bindings__ b'' @ '' WHERE b._id = ('') @ q @ ('')'' @ '' AND b._role = '') @ arg_sql n
     @ '' AND b._principal = '' @ arg_sql who @ ('' AND b._inheritance = 0'' @ '' AND b._ref = r._id'')"

fun mismatched :: "command \<Rightarrow> bool" where
  \<comment> \<open>an inheritance whose column lists differ in length\<close>
  "mismatched (CreateInheritance f fc fcs t tc tcs) = (length fcs \<noteq> length tcs)"
| "mismatched _ = False"

fun order :: "command \<Rightarrow> nat" where
  \<comment> \<open>the position of a command's translator in the chain\<close>
  "order (Enable _) = 0"
| "order (CreatePermission _ _ _) = 1"
| "order (CreateRole _ _ _) = 2"
| "order (CreateInheritance _ _ _ _ _ _) = 3"
| "order (ListPermission _) = 4"
| "order (ListBinding _ _) = 5"
| "order (ListRole _) = 6"
| "order (ListInheritance _) = 7"
| "order (Bind _ _ _ _) = 8"
| "order (Unbind _ _ _ _) = 9"

definition verbs :: "string list" where
  "verbs = [''ENABLE'', ''CREATE'', ''CREATE'', ''CREATE'', ''LIST'', ''LIST'', ''LIST'', ''LIST'', ''BIND'', ''UNBIND'']"

definition nouns :: "string list" where
  "nouns = [''CONTROL'', ''PERMISSION'', ''ROLE'', ''INHERITANCE'', ''PERMISSION'', ''ROLE'', ''ROLE'',
            ''INHERITANCE'', ''ROLE'', ''ROLE'']"

section \<open>Texts of a command\<close>

definition blank :: "string \<Rightarrow> bool" where
  "blank s \<longleftrightarrow> list_all is_space s"

definition name :: "string \<Rightarrow> bool" where
  \<comment> \<open>an identifier other than the word ACCESS\<close>
  "name w \<longleftrightarrow> word w \<and> \<not> kw w ''ACCESS''"

definition all_names :: "names \<Rightarrow> bool" where
  "all_names vs \<longleftrightarrow> list_all (\<lambda>(sp, w). blank sp \<and> name w) vs"

definition principal :: "string \<Rightarrow> bool" where
  "principal w \<longleftrightarrow> w \<noteq> [] \<and> list_all (in_cc (CWordOr ''@'')) w \<and> \<not> kw w ''ACCESS''"

fun ok_arg :: "(string \<Rightarrow> bool) \<Rightarrow> arg \<Rightarrow> bool" where
  "ok_arg ok (Name w) = ok w"
| "ok_arg ok (Param d) = (d \<noteq> [] \<and> list_all is_digit d)"

definition subquery :: "string \<Rightarrow> bool" where
  \<comment> \<open>an argument in parentheses\<close>
  "subquery q \<longleftrightarrow> q \<noteq> [] \<and> list_all (\<lambda>x. x \<noteq> CHR '';'') q \<and> calm 7 q"

inductive heads :: "string \<Rightarrow> string \<Rightarrow> string \<Rightarrow> bool" where
  heads_intro: "kw k1 a \<Longrightarrow> spaces s1 \<Longrightarrow> kw k2 ''ACCESS'' \<Longrightarrow> spaces s2 \<Longrightarrow> kw k3 b \<Longrightarrow> heads a b (k1 @ s1 @ k2 @ s2 @ k3)"

inductive filters :: "role_filter \<Rightarrow> string \<Rightarrow> bool" where
  f_any: "filters AnyRole []"
| f_one: "spaces s1 \<Longrightarrow> kw k ''WITH'' \<Longrightarrow> spaces s2 \<Longrightarrow> name p \<Longrightarrow> filters (WithOne p) (s1 @ k @ s2 @ p)"
| f_all: "spaces s1 \<Longrightarrow> kw k ''WITH'' \<Longrightarrow> spaces s2 \<Longrightarrow> kw k' ''ALL'' \<Longrightarrow> blank s3 \<Longrightarrow> name p \<Longrightarrow> all_names ps \<Longrightarrow>
     filters (WithAll p ps) (s1 @ k @ s2 @ k' @ s3 @ ''('' @ p @ names_tail ps @ '')'')"
| f_some: "spaces s1 \<Longrightarrow> kw k ''WITH'' \<Longrightarrow> spaces s2 \<Longrightarrow> kw k' ''ANY'' \<Longrightarrow> blank s3 \<Longrightarrow> name p \<Longrightarrow> all_names ps \<Longrightarrow>
     filters (WithSome p ps) (s1 @ k @ s2 @ k' @ s3 @ ''('' @ p @ names_tail ps @ '')'')"

inductive body :: "command \<Rightarrow> string \<Rightarrow> bool" where
  b_enable: "spaces s \<Longrightarrow> name t \<Longrightarrow> body (Enable t) (s @ t)"
| b_permission: "spaces s1 \<Longrightarrow> name n \<Longrightarrow> spaces s2 \<Longrightarrow> kw k1 ''ON'' \<Longrightarrow> spaces s3 \<Longrightarrow> name t \<Longrightarrow> spaces s4 \<Longrightarrow>
     kw k2 ''FOR'' \<Longrightarrow> spaces s5 \<Longrightarrow> name op \<Longrightarrow>
     body (CreatePermission n t op) (s1 @ n @ s2 @ k1 @ s3 @ t @ s4 @ k2 @ s5 @ op)"
| b_role: "spaces s1 \<Longrightarrow> name n \<Longrightarrow> spaces s2 \<Longrightarrow> kw k ''WITH'' \<Longrightarrow> spaces s3 \<Longrightarrow> name p \<Longrightarrow> all_names ps \<Longrightarrow>
     body (CreateRole n p ps) (s1 @ n @ s2 @ k @ s3 @ p @ names_tail ps)"
| b_inheritance: "spaces s1 \<Longrightarrow> kw k1 ''FROM'' \<Longrightarrow> spaces s2 \<Longrightarrow> name f \<Longrightarrow> blank s3 \<Longrightarrow> name fc \<Longrightarrow> all_names fcs \<Longrightarrow>
     spaces s4 \<Longrightarrow> kw k2 ''TO'' \<Longrightarrow> spaces s5 \<Longrightarrow> name t \<Longrightarrow> blank s6 \<Longrightarrow> name tc \<Longrightarrow> all_names tcs \<Longrightarrow>
     body (CreateInheritance f fc fcs t tc tcs)
       (s1 @ k1 @ s2 @ f @ s3 @ ''('' @ fc @ names_tail fcs @ '')'' @ s4 @ k2 @ s5 @ t @ s6 @ ''('' @ tc @ names_tail tcs @ '')'')"
| b_permissions: "body (ListPermission None) []"
| b_permissions_on: "spaces s1 \<Longrightarrow> kw k ''ON'' \<Longrightarrow> spaces s2 \<Longrightarrow> name t \<Longrightarrow> body (ListPermission (Some t)) (s1 @ k @ s2 @ t)"
| b_bindings: "spaces s1 \<Longrightarrow> kw k1 ''BINDING'' \<Longrightarrow> spaces s2 \<Longrightarrow> kw k2 ''ON'' \<Longrightarrow> spaces s3 \<Longrightarrow> name t \<Longrightarrow> blank s4 \<Longrightarrow>
     subquery q \<Longrightarrow> body (ListBinding t q) (s1 @ k1 @ s2 @ k2 @ s3 @ t @ s4 @ ''('' @ q @ '')'')"
| b_roles: "filters fil w \<Longrightarrow> body (ListRole fil) w"
| b_inheritances: "body (ListInheritance None) []"
| b_inheritances_of: "spaces s1 \<Longrightarrow> kw k (if src then ''FROM'' else ''TO'') \<Longrightarrow> spaces s2 \<Longrightarrow> name t \<Longrightarrow>
     body (ListInheritance (Some (src, t))) (s1 @ k @ s2 @ t)"
| b_bind: "spaces s1 \<Longrightarrow> name n \<Longrightarrow> spaces s2 \<Longrightarrow> kw k1 ''TO'' \<Longrightarrow> spaces s3 \<Longrightarrow> principal who \<Longrightarrow> spaces s4 \<Longrightarrow>
     kw k2 ''ON'' \<Longrightarrow> spaces s5 \<Longrightarrow> name t \<Longrightarrow> blank s6 \<Longrightarrow> subquery q \<Longrightarrow>
     body (Bind n who t q) (s1 @ n @ s2 @ k1 @ s3 @ who @ s4 @ k2 @ s5 @ t @ s6 @ ''('' @ q @ '')'')"
| b_unbind: "spaces s1 \<Longrightarrow> ok_arg name n \<Longrightarrow> spaces s2 \<Longrightarrow> kw k1 ''FROM'' \<Longrightarrow> spaces s3 \<Longrightarrow> ok_arg principal who \<Longrightarrow>
     spaces s4 \<Longrightarrow> kw k2 ''ON'' \<Longrightarrow> spaces s5 \<Longrightarrow> ok_arg name t \<Longrightarrow> blank s6 \<Longrightarrow> subquery q \<Longrightarrow>
     body (Unbind n who t q)
       (s1 @ arg_text n @ s2 @ k1 @ s3 @ arg_text who @ s4 @ k2 @ s5 @ arg_text t @ s6 @ ''('' @ q @ '')'')"

inductive says :: "command \<Rightarrow> string \<Rightarrow> bool" where
  \<comment> \<open>the text says the command\<close>
  says_intro: "heads (verbs ! order c) (nouns ! order c) h \<Longrightarrow> body c w \<Longrightarrow> says c (h @ w)"

end
