(* ===== verification/CommandHits.thy ===== *)
theory CommandHits
  imports CommandLanguage
begin

text \<open>
  The translator of a command finds it: on every text of the command, at the end of a statement, its
  pattern reports a match that ends with the text, and what the translator writes for the sub-matches
  is the SQL of the command, or the error of a mismatched inheritance.
\<close>

section \<open>The translators as passes\<close>

definition patterns :: "rx list" where
  "patterns = [re_enable, re_create_permission, re_create_role, re_create_inheritance, re_list_permission,
     re_list_binding, re_list_role, re_list_inheritance, re_bind_role, re_unbind_role]"

definition list_permission_text :: "caps \<Rightarrow> string" where
  "list_permission_text c = ''SELECT * FROM __access_permissions__'' @
     (if matched c 2 then '' WHERE _relation = '' @ quoted (sub c 2) @ ''::REGCLASS'' else [])"

definition list_role_text :: "caps \<Rightarrow> string" where
  "list_role_text c = ''SELECT * FROM __access_roles__'' @
     (if matched c 3 then '' WHERE _permissions @> ARRAY['' @ quote_words (lower (sub c 4)) @ '']''
      else if matched c 6 then '' WHERE _permissions && ARRAY['' @ quote_words (lower (sub c 7)) @ '']''
      else if matched c 2 then '' WHERE _permissions @> ARRAY['' @ quoted (lower (sub c 2)) @ '']''
      else [])"

definition unbind_text :: "caps \<Rightarrow> string" where
  "unbind_text c = ''DELETE FROM __access_binding_refs__ r''
     @ '' USING '' @ sub c 7 @ ''__access_bindings__ b''
     @ '' WHERE b._id = ('' @ sub c 10 @ '')''
     @ (if matched c 2 then '' AND b._role = '' @ quoted (sub c 2)
        else if matched c 3 then '' AND b._role = '' @ sub c 3 else [])
     @ (if matched c 5 then '' AND b._principal = '' @ quoted (sub c 5)
        else if matched c 6 then '' AND b._principal = '' @ sub c 6 else [])
     @ '' AND b._inheritance = 0''
     @ '' AND b._ref = r._id''"

definition writers :: "string \<Rightarrow> (caps \<Rightarrow> Error + string) list" where
  \<comment> \<open>what each translator writes for the sub-matches of a match\<close>
  "writers file =
     [\<lambda>c. Inr (format c tpl_enable), \<lambda>c. Inr (format c tpl_create_permission),
      \<lambda>c. Inr (sql_create_role (lower (sub c 1)) (quote_words (lower (sub c 2)))),
      \<lambda>c. inheritance_match file \<lparr>m_prefix = [], m_caps = c, m_str = [], m_suffix = []\<rparr>,
      \<lambda>c. Inr (list_permission_text c), \<lambda>c. Inr (format c tpl_list_binding), \<lambda>c. Inr (list_role_text c),
      \<lambda>c. list_inheritance_match file \<lparr>m_prefix = [], m_caps = c, m_str = [], m_suffix = []\<rparr>,
      \<lambda>c. Inr (format c tpl_bind_role), \<lambda>c. Inr (unbind_text c)]"

definition pass :: "string \<Rightarrow> nat \<Rightarrow> string \<Rightarrow> translated" where
  "pass file k s = finish (rewrite_all (patterns ! k) (\<lambda>m. (writers file ! k) (m_caps m)) s)"

fun passes :: "string \<Rightarrow> string \<Rightarrow> nat list \<Rightarrow> string \<Rightarrow> translated" where
  "passes file query [] s = (s, NoError)"
| "passes file query (k # ks) s = and_then query (pass file k s) (passes file query ks)"

lemma rewrite_all_type:
  "rewrite_all re (\<lambda>m. Inr (g m) :: unit + string) s = Inr t \<Longrightarrow> rewrite_all re (\<lambda>m. Inr (g m) :: Error + string) s = Inr t"
proof (induction re "\<lambda>m. Inr (g m) :: unit + string" s arbitrary: t rule: rewrite_all.induct)
  case (1 re s)
  show ?case
  proof (cases "regex_search re s")
    case None
    with "1.prems" show ?thesis by (simp add: rewrite_all_none)
  next
    case (Some m)
    from rewrite_all_Inr [of "\<lambda>m. Inr (g m) :: unit + string" re "m_suffix m"] obtain u
      where u: "rewrite_all re (\<lambda>m. Inr (g m) :: unit + string) (m_suffix m) = Inr u" by blast
    show ?thesis
    proof (cases "length (m_suffix m) < length s")
      case True
      from "1.hyps" [OF Some refl True u] True Some u "1.prems" show ?thesis
        by (simp add: rewrite_all.simps [of re _ s])
    next
      case False
      with Some "1.prems" have "t = s" by (simp add: rewrite_all.simps [of re _ s])
      with Some False show ?thesis by (subst rewrite_all.simps) simp
    qed
  qed
qed

lemma regex_replace_pass:
  "(regex_replace s re tpl, NoError) = finish (rewrite_all re (\<lambda>m. Inr (format (m_caps m) tpl)) s)"
proof -
  from rewrite_all_Inr [of "\<lambda>m. Inr (format (m_caps m) tpl) :: unit + string" re s] obtain t
    where t: "rewrite_all re (\<lambda>m. Inr (format (m_caps m) tpl) :: unit + string) s = Inr t" by blast
  from rewrite_all_type [OF this] t show ?thesis by (simp add: regex_replace_def)
qed

lemma inheritance_match_caps:
  "inheritance_match file m = inheritance_match file \<lparr>m_prefix = [], m_caps = m_caps m, m_str = [], m_suffix = []\<rparr>"
  by (simp add: inheritance_match_def)

lemma list_inheritance_match_caps:
  "list_inheritance_match file m
     = list_inheritance_match file \<lparr>m_prefix = [], m_caps = m_caps m, m_str = [], m_suffix = []\<rparr>"
  by (simp add: list_inheritance_match_def)

lemma translators_pass:
  "TranslateEnableAccessControl s = pass f 0 s" "TranslateCreateAccessPermission s = pass f 1 s"
  "TranslateCreateAccessRole s = pass f 2 s" "TranslateCreateAccessInheritance f s = pass f 3 s"
  "TranslateListAccessPermission s = pass f 4 s" "TranslateListAccessRoleBinding s = pass f 5 s"
  "TranslateListAccessRole s = pass f 6 s" "TranslateListAccessInheritance f s = pass f 7 s"
  "TranslateBindAccessRole s = pass f 8 s" "TranslateUnbindAccessRole s = pass f 9 s"
proof -
  have i: "inheritance_match f =
      (\<lambda>m. inheritance_match f \<lparr>m_prefix = [], m_caps = m_caps m, m_str = [], m_suffix = []\<rparr>)"
    "list_inheritance_match f =
      (\<lambda>m. list_inheritance_match f \<lparr>m_prefix = [], m_caps = m_caps m, m_str = [], m_suffix = []\<rparr>)"
    by (rule ext, rule inheritance_match_caps list_inheritance_match_caps)+
  show "TranslateEnableAccessControl s = pass f 0 s" "TranslateCreateAccessPermission s = pass f 1 s"
    "TranslateListAccessRoleBinding s = pass f 5 s" "TranslateBindAccessRole s = pass f 8 s"
    by (simp_all add: pass_def patterns_def writers_def TranslateEnableAccessControl_def
        TranslateCreateAccessPermission_def TranslateListAccessRoleBinding_def TranslateBindAccessRole_def
        regex_replace_pass)
  show "TranslateCreateAccessRole s = pass f 2 s" "TranslateListAccessPermission s = pass f 4 s"
    "TranslateListAccessRole s = pass f 6 s" "TranslateUnbindAccessRole s = pass f 9 s"
    by (simp_all add: pass_def patterns_def writers_def TranslateCreateAccessRole_def Let_def
        TranslateListAccessPermission_def TranslateListAccessRole_def TranslateUnbindAccessRole_def
        list_permission_text_def list_role_text_def unbind_text_def)
  show "TranslateCreateAccessInheritance f s = pass f 3 s" "TranslateListAccessInheritance f s = pass f 7 s"
    by (simp_all add: pass_def patterns_def writers_def TranslateCreateAccessInheritance_def
        TranslateListAccessInheritance_def i [symmetric])
qed

lemma Translate_passes:
  "Translate file query = passes file (cstr query) [0, 1, 2, 3, 4, 5, 6, 7, 8, 9] (fst (RemoveComments (cstr query)))"
proof -
  have "RemoveComments q = (fst (RemoveComments q), NoError)" for q by (simp add: RemoveComments_def)
  then have "and_then q (RemoveComments q) f = f (fst (RemoveComments q))" for q f
    by (metis and_then_NoError snd_conv)
  then show ?thesis
    unfolding Translate_def Let_def passes.simps by (simp only: translators_pass [where f = "file"])
qed


section \<open>The end of a statement\<close>

definition closing :: "string \<Rightarrow> bool" where
  \<comment> \<open>white space and then the end of the statement\<close>
  "closing r \<longleftrightarrow> ends (dropWhile is_space r)"

lemma closing_split: "closing r \<Longrightarrow> \<exists>u v. r = u @ v \<and> blank u \<and> ends v"
  unfolding closing_def blank_def
  by (intro exI [of _ "takeWhile is_space r"] exI [of _ "dropWhile is_space r"])
     (simp add: list_all_iff, metis set_takeWhileD)

lemma closing_join: "blank u \<Longrightarrow> ends v \<Longrightarrow> closing (u @ v)"
proof -
  assume "blank u" and v: "ends v"
  then have "dropWhile is_space (u @ v) = dropWhile is_space v" by (simp add: blank_def list_all_iff)
  moreover have "dropWhile is_space v = v" using v by (cases v) (auto simp: ends_def)
  ultimately show ?thesis using v by (simp add: closing_def)
qed

lemma closing_starts:
  assumes "closing r"
  shows "\<not> starts is_word r" "\<not> starts (\<lambda>x. x = CHR '','') r" "\<not> starts (\<lambda>x. x = CHR ''('') r"
proof -
  have sp: "\<not> is_space (CHR '','')" "\<not> is_space (CHR ''('')" by code_simp+
  show "\<not> starts is_word r" "\<not> starts (\<lambda>x. x = CHR '','') r" "\<not> starts (\<lambda>x. x = CHR ''('') r"
    using assms sp word_not_space by (cases r; auto simp: closing_def ends_def split: if_splits)+
qed

lemma ws_dead:
  \<comment> \<open>white space and a keyword do not match where the first word is another\<close>
  assumes "spaces s" "word k" "word a" "tolower (hd k) \<noteq> tolower (hd a)"
  shows "mat (Seq ws (Seq (ILit a) re)) c (s @ k @ z) = []"
proof (rule ccontr)
  assume "mat (Seq ws (Seq (ILit a) re)) c (s @ k @ z) \<noteq> []"
  then obtain x xs where "mat (Seq ws (Seq (ILit a) re)) c (s @ k @ z) = x # xs" by (meson list.exhaust)
  then have "x \<in> set (mat (Seq ws (Seq (ILit a) re)) c (s @ k @ z))" by simp
  then obtain c1 z1 c2 z2 where "(c1, z1) \<in> set (mat ws c (s @ k @ z))" "(c2, z2) \<in> set (mat (ILit a) c1 z1)"
    by (auto simp del: mat.simps(2) simp: ws_def [symmetric])
  then obtain u k' where u: "s @ k @ z = u @ k' @ z2" "spaces u" "kw k' a" by (elim mat_ILitE mat_wsE) auto
  have d: "dropWhile is_space (s @ k @ x) = k @ x" if "spaces s" "word k" for s k x
    using that word_not_space by (cases k) (auto simp: dropWhile_append spaces_def list_all_iff word_def)
  have k': "word k'" using kw_word u(3) assms(3) by blast
  from arg_cong [OF u(1), of "dropWhile is_space"] have "k @ z = k' @ z2"
    by (simp only: d [OF assms(1,2)] d [OF u(2) k'])
  then have "hd k = hd k'" using assms(2) k' by (cases k; cases k') (auto simp: word_def)
  moreover have "tolower (hd k') = tolower (hd a)"
    using u(3) k' assms(3) by (cases k'; cases a) (auto simp: kw_def lower_def word_def)
  ultimately show False using assms(4) by simp
qed

lemma ws_closing:
  \<comment> \<open>nor at the end of a statement\<close>
  assumes "closing r" "\<And>c s. \<not> starts is_word s \<Longrightarrow> mat re c s = []"
  shows "mat (Seq ws re) c r = []"
proof -
  have "mat re c1 z = []" if "(c1, z) \<in> set (mat ws c r)" for c1 z
  proof -
    from that obtain u where "r = u @ z" "spaces u" by (rule mat_wsE)
    with assms(1) have "closing z" by (simp add: closing_def spaces_def list_all_iff)
    then show ?thesis using closing_starts assms(2) by blast
  qed
  then show ?thesis by (simp add: concat_eq_Nil_conv) auto
qed

lemma mat_ILit_stop: "word a \<Longrightarrow> \<not> starts is_word s \<Longrightarrow> mat (ILit a) c s = []"
proof (rule ccontr)
  assume a: "word a" "\<not> starts is_word s" "mat (ILit a) c s \<noteq> []"
  then have "kw (take (length a) s) a" by (auto simp: kw_def split: if_splits)
  with kw_starts_word [OF this a(1)] a(2) show False by (cases s; cases a) auto
qed


section \<open>The pattern of each command\<close>

lemma command_patterns:
  "re_enable = command_rx ''ENABLE'' ''CONTROL'' (Seq ws (Grp 1 wd))"
  "re_create_permission = command_rx ''CREATE'' ''PERMISSION'' (seqs [ws, Grp 1 wd, ws, ILit ''ON'', ws, Grp 2 wd,
     ws, ILit ''FOR'', ws, Grp 3 wd])"
  "re_create_role = command_rx ''CREATE'' ''ROLE'' (seqs [ws, Grp 1 wd, ws, ILit ''WITH'', ws, Grp 2 (word_list 3)])"
  "re_create_inheritance = command_rx ''CREATE'' ''INHERITANCE'' (seqs [ws, ILit ''FROM'', ws, Grp 1 wd, ws0,
     Lit ''('', Grp 2 (word_list 3), Lit '')'', ws, ILit ''TO'', ws, Grp 4 wd, ws0, Lit ''('', Grp 5 (word_list 6), Lit '')''])"
  "re_list_permission = command_rx ''LIST'' ''PERMISSION'' (Opt (Grp 1 (seqs [ws, ILit ''ON'', ws, Grp 2 wd])))"
  "re_list_binding = command_rx ''LIST'' ''ROLE'' (seqs [ws, ILit ''BINDING'', ws, ILit ''ON'', ws, Grp 1 wd, ws0, query_arg 2])"
  "re_list_role = command_rx ''LIST'' ''ROLE'' (Opt (Grp 1 (seqs [ws, ILit ''WITH'', ws,
       Grp 2 (Alt (seqs [Grp 3 (ILit ''ALL''), ws0, Lit ''('', Grp 4 (word_list 5), Lit '')''])
             (Alt (seqs [Grp 6 (ILit ''ANY''), ws0, Lit ''('', Grp 7 (word_list 8), Lit '')''])
                  (Grp 9 wd)))])))"
  "re_list_inheritance = command_rx ''LIST'' ''INHERITANCE''
     (Opt (Grp 1 (seqs [ws, Grp 2 (Alt (ILit ''FROM'') (ILit ''TO'')), ws, Grp 3 wd])))"
  "re_bind_role = command_rx ''BIND'' ''ROLE'' (seqs [ws, Grp 1 wd, ws, ILit ''TO'', ws,
     Grp 2 (Plus (Cls (CWordOr ''@''))), ws, ILit ''ON'', ws, Grp 3 wd, ws0, query_arg 4])"
  "re_unbind_role = command_rx ''UNBIND'' ''ROLE'' (seqs [ws, word_or_num 1 CWord, ws, ILit ''FROM'', ws,
     word_or_num 4 (CWordOr ''@''), ws, ILit ''ON'', ws, word_or_num 7 CWord, ws0, query_arg 10])"
  by (simp_all add: command_rx_def re_enable_def re_create_permission_def re_create_role_def re_create_inheritance_def
      re_list_permission_def re_list_binding_def re_list_role_def re_list_inheritance_def re_bind_role_def re_unbind_role_def)

lemma leads_heads:
  assumes "heads a b h" "word b" "leads re c z c' r"
  shows "leads (command_rx a b re) c (h @ z) c' r"
  using assms(1)
proof (cases rule: heads.cases)
  case (heads_intro k1 s1 k2 s2 k3)
  have "visible k2" "visible k3" using heads_intro assms(2) by (blast intro: visible_rules)+
  with heads_intro show ?thesis unfolding command_rx_def append.assoc heads_intro(1) by (intro leads_steps assms(3))
qed

lemma name_word: "name w \<Longrightarrow> word w"
  by (simp add: name_def)

lemma all_names_ok: "all_names vs \<Longrightarrow> names_ok vs"
  by (auto simp: all_names_def names_ok_def blank_def name_def list_all_iff)

lemma starts_blank: "blank u \<Longrightarrow> \<not> starts is_word (u @ ''('' @ x)"
  by (simp only: blank_def open_paren_stops not_False_eq_True)

lemma closing_subquery:
  assumes "subquery q" "closing r"
  shows "leads (query_arg n) c (''('' @ q @ '')'' @ r) ((n, q) # c) r"
proof -
  from closing_split [OF assms(2)] obtain u v where r: "r = u @ v" "blank u" "ends v" by blast
  have sp: "\<not> is_space (CHR '';'')" "\<not> is_space (CHR '')'')" by simp_all
  have "list_all (\<lambda>x. x \<noteq> CHR '';'' \<and> x \<noteq> CHR '')'') u"
    using r(2) sp by (auto simp: blank_def list_all_iff)
  with assms(1) r show ?thesis unfolding r(1) by (intro leads_query_arg) (auto simp: subquery_def ends_def)
qed

lemma hit_enable:
  assumes "heads ''ENABLE'' ''CONTROL'' h" "spaces s" "name t" "closing r"
  shows "leads re_enable [] (h @ (s @ t) @ r) [(1, t)] r"
  using assms(1) unfolding append.assoc
  by (cases rule: heads.cases, simp only: append.assoc)
     (intro leads_enable assms name_word closing_starts)

lemma hit_permission:
  assumes "heads ''CREATE'' ''PERMISSION'' h" "spaces s1" "name n" "spaces s2" "kw k1 ''ON''" "spaces s3" "name t"
    "spaces s4" "kw k2 ''FOR''" "spaces s5" "name op" "closing r"
  shows "leads re_create_permission [] (h @ (s1 @ n @ s2 @ k1 @ s3 @ t @ s4 @ k2 @ s5 @ op) @ r) [(3, op), (2, t), (1, n)] r"
  using assms(1) unfolding append.assoc
  by (cases rule: heads.cases, simp only: append.assoc)
     (intro leads_create_permission assms name_word closing_starts)

lemma hit_role:
  assumes "heads ''CREATE'' ''ROLE'' h" "spaces s1" "name n" "spaces s2" "kw k ''WITH''" "spaces s3" "name p"
    "all_names ps" "closing r"
  shows "leads re_create_role [] (h @ (s1 @ n @ s2 @ k @ s3 @ p @ names_tail ps) @ r)
    ((2, p @ names_tail ps) # names_caps 3 ps [(1, n)]) r"
  using assms(1) unfolding append.assoc
  by (cases rule: heads.cases, simp only: append.assoc)
     (intro leads_create_role assms name_word all_names_ok closing_starts)

lemma hit_inheritance:
  assumes "heads ''CREATE'' ''INHERITANCE'' h" "spaces s1" "kw k1 ''FROM''" "spaces s2" "name f" "blank s3" "name fc"
    "all_names fcs" "spaces s4" "kw k2 ''TO''" "spaces s5" "name t" "blank s6" "name tc" "all_names tcs"
  shows "leads re_create_inheritance []
    (h @ (s1 @ k1 @ s2 @ f @ s3 @ ''('' @ fc @ names_tail fcs @ '')'' @ s4 @ k2 @ s5 @ t @ s6 @ ''('' @ tc @ names_tail tcs @ '')'') @ r)
    ((5, tc @ names_tail tcs) # names_caps 6 tcs ((4, t) # (2, fc @ names_tail fcs) # names_caps 3 fcs [(1, f)])) r"
  using assms(1) unfolding append.assoc
  by (cases rule: heads.cases, simp only: append.assoc)
     (intro leads_create_inheritance assms assms(6,13) [unfolded blank_def] name_word all_names_ok)

lemma hit_bind:
  assumes "heads ''BIND'' ''ROLE'' h" "spaces s1" "name n" "spaces s2" "kw k1 ''TO''" "spaces s3" "principal who"
    "spaces s4" "kw k2 ''ON''" "spaces s5" "name t" "blank s6" "subquery q" "closing r"
  shows "leads re_bind_role []
    (h @ (s1 @ n @ s2 @ k1 @ s3 @ who @ s4 @ k2 @ s5 @ t @ s6 @ ''('' @ q @ '')'') @ r) [(4, q), (3, t), (2, who), (1, n)] r"
proof -
  from closing_split [OF assms(14)] obtain u v where r: "r = u @ v" "blank u" "ends v" by blast
  have sp: "\<not> is_space (CHR '';'')" "\<not> is_space (CHR '')'')" by simp_all
  have u: "list_all (\<lambda>x. x \<noteq> CHR '';'' \<and> x \<noteq> CHR '')'') u"
    using r(2) sp by (auto simp: blank_def list_all_iff)
  have q: "q \<noteq> []" "list_all (\<lambda>x. x \<noteq> CHR '';'') q" using assms(13) by (simp_all add: subquery_def)
  have w: "who \<noteq> []" "list_all (in_cc (CWordOr ''@'')) who" using assms(7) by (simp_all add: principal_def)
  show ?thesis
    using assms(1) unfolding append.assoc r(1)
    by (cases rule: heads.cases, simp only: append.assoc)
       (intro leads_bind_role assms assms(12) [unfolded blank_def] name_word u r(3) [unfolded ends_def] q w)
qed

lemma hit_bindings:
  assumes "heads ''LIST'' ''ROLE'' h" "spaces s1" "kw k1 ''BINDING''" "spaces s2" "kw k2 ''ON''" "spaces s3" "name t"
    "blank s4" "subquery q" "closing r"
  shows "leads re_list_binding [] (h @ (s1 @ k1 @ s2 @ k2 @ s3 @ t @ s4 @ ''('' @ q @ '')'') @ r) [(2, q), (1, t)] r"
proof -
  have v: "visible k1" "visible k2" "visible t" using assms by (blast intro: visible_rules name_word)+
  show ?thesis unfolding append.assoc seqs.simps command_patterns
    by (intro leads_heads assms words_of_keywords leads_ws_then leads_kw_then leads_word_then leads_ws0_then v
        name_word starts_blank close_paren_stops closing_subquery assms(8) [unfolded blank_def])
qed


section \<open>Optional parts and alternatives\<close>

lemma Opt_closing:
  assumes "closing r" "word a"
  shows "leads (Opt (Grp n (Seq ws (Seq (ILit a) re)))) c r c r"
  by (intro leads_Opt_skip mat_Grp_stop ws_closing assms mat_Seq_stop mat_ILit_stop)

lemma Opt_Grp: "leads re c (u @ r) c' r \<Longrightarrow> leads (Opt (Grp n re)) c (u @ r) ((n, u) # c') r"
  by (intro leads_Opt leads_Grp)

lemma hit_permissions:
  assumes "heads ''LIST'' ''PERMISSION'' h" "closing r"
  shows "leads re_list_permission [] (h @ [] @ r) [] r"
  unfolding command_patterns append_Nil seqs.simps
  by (intro leads_heads assms words_of_keywords Opt_closing)

lemma hit_permissions_on:
  assumes "heads ''LIST'' ''PERMISSION'' h" "spaces s1" "kw k ''ON''" "spaces s2" "name t" "closing r"
  shows "leads re_list_permission [] (h @ (s1 @ k @ s2 @ t) @ r) [(1, s1 @ k @ s2 @ t), (2, t)] r"
proof -
  have v: "visible k" "visible t" using assms by (blast intro: visible_rules name_word)+
  have "leads (seqs [ws, ILit ''ON'', ws, Grp 2 wd]) [] (s1 @ k @ s2 @ t @ r) [(2, t)] r"
    unfolding seqs.simps by (intro leads_ws_then leads_kw_then leads_word_last v assms name_word closing_starts)
  then show ?thesis unfolding command_patterns
    by (intro leads_heads assms words_of_keywords Opt_Grp) (simp only: append.assoc)
qed

lemma Alt_closing: "word a \<Longrightarrow> word b \<Longrightarrow> \<not> starts is_word s \<Longrightarrow> mat (Grp n (Alt (ILit a) (ILit b))) c s = []"
  by (intro mat_Grp_stop) (simp add: mat_ILit_stop del: mat.simps(2))

lemma hit_inheritances:
  assumes "heads ''LIST'' ''INHERITANCE'' h" "closing r"
  shows "leads re_list_inheritance [] (h @ [] @ r) [] r"
  unfolding command_patterns append_Nil seqs.simps
  by (intro leads_heads assms words_of_keywords leads_Opt_skip mat_Grp_stop [of _ _ _ 1] ws_closing mat_Seq_stop Alt_closing)

lemma kw_other: "kw k a \<Longrightarrow> word a \<Longrightarrow> word b \<Longrightarrow> tolower (hd a) \<noteq> tolower (hd b) \<Longrightarrow> mat (ILit b) c (k @ s) = []"
proof (rule ccontr)
  assume k: "kw k a" "word a" "word b" "tolower (hd a) \<noteq> tolower (hd b)" "mat (ILit b) c (k @ s) \<noteq> []"
  then have "kw (take (length b) (k @ s)) b" by (auto simp: kw_def split: if_splits)
  with k show False by (cases k; cases a; cases b) (auto simp: kw_def lower_def word_def)
qed

lemma hit_inheritances_of:
  assumes "heads ''LIST'' ''INHERITANCE'' h" "spaces s1" "kw k (if src then ''FROM'' else ''TO'')" "spaces s2" "name t"
    "closing r"
  shows "leads re_list_inheritance [] (h @ (s1 @ k @ s2 @ t) @ r) [(1, s1 @ k @ s2 @ t), (3, t), (2, k)] r"
proof -
  have "word (if src then ''FROM'' else ''TO'')" by simp
  then have v: "visible k" "visible t" using assms by (blast intro: visible_rules name_word)+
  have "leads (Alt (ILit ''FROM'') (ILit ''TO'')) [] (k @ x) [] x" for x
  proof (cases src)
    case True
    then show ?thesis using assms(3) by (intro leads_Alt1 leads_ILit) simp
  next
    case False
    have ft: "tolower (hd ''TO'') \<noteq> tolower (hd ''FROM'')" by code_simp
    have "kw k ''TO''" using assms(3) False by simp
    then show ?thesis
      by (intro leads_Alt2 leads_ILit kw_other [where a = "''TO''"] words_of_keywords ft)
  qed
  from leads_Grp [OF this] have "leads (Grp 2 (Alt (ILit ''FROM'') (ILit ''TO''))) [] (k @ x) [(2, k)] x" for x .
  note dir = leads_Seq [OF this]
  have "leads (seqs [ws, Grp 2 (Alt (ILit ''FROM'') (ILit ''TO'')), ws, Grp 3 wd]) [] (s1 @ k @ s2 @ t @ r) [(3, t), (2, k)] r"
    unfolding seqs.simps by (intro leads_ws_then dir leads_word_last v assms name_word closing_starts)
  then show ?thesis unfolding command_patterns
    by (intro leads_heads assms words_of_keywords Opt_Grp) (simp only: append.assoc)
qed


definition filter_caps :: "role_filter \<Rightarrow> caps \<Rightarrow> bool" where
  \<comment> \<open>the sub-matches the filter of a list of roles leaves\<close>
  "filter_caps fil c \<longleftrightarrow> list_role_text c = ''SELECT * FROM __access_roles__'' @ sql_filter fil"

lemma call_dead:
  \<comment> \<open>a name at the end of a statement is not the call of a filter\<close>
  assumes "word p" "closing r" "word a"
  shows "mat (Seq (Grp n (ILit a)) (Seq ws0 (Seq (Lit ''('') re))) c (p @ r) = []"
proof (rule ccontr)
  assume "mat (Seq (Grp n (ILit a)) (Seq ws0 (Seq (Lit ''('') re))) c (p @ r) \<noteq> []"
  then obtain y ys where "mat (Seq (Grp n (ILit a)) (Seq ws0 (Seq (Lit ''('') re))) c (p @ r) = y # ys" by (meson list.exhaust)
  then have "y \<in> set (mat (Seq (Grp n (ILit a)) (Seq ws0 (Seq (Lit ''('') re))) c (p @ r))" by simp
  then obtain c1 z1 c2 z2 z3 where m: "(c1, z1) \<in> set (mat (ILit a) c (p @ r))"
    "(c2, z2) \<in> set (mat (Star (Cls CSpace)) ((n, take (length (p @ r) - length z1) (p @ r)) # c1) z1)"
    "z2 = ''('' @ z3"
    by (auto simp del: mat.simps(2) simp: ws0_def [symmetric] split: if_splits)
       (metis append_Cons append_Nil append_take_drop_id)
  from m(1) obtain k where k: "p @ r = k @ z1" "kw k a" by (rule mat_ILitE)
  from mat_Star_Cls [OF m(2)] obtain u where u: "z1 = u @ ''('' @ z3" "list_all is_space u"
    using m(3) by (auto simp: in_cc.simps [abs_def])
  have "word k" using kw_word k(2) assms(3) by blast
  have par: "\<not> is_word (CHR ''('')" "\<not> is_space (CHR ''('')" by simp_all
  from append_overlap [OF k(1)] obtain e where "p = k @ e \<and> e @ r = z1 \<or> p @ e = k \<and> r = e @ z1" by blast
  then show False
  proof
    assume e: "p = k @ e \<and> e @ r = z1"
    show False
    proof (cases e)
      case Nil
      with e u have "r = u @ ''('' @ z3" by simp
      with u(2) par assms(2) show False by (simp add: closing_def list_all_iff ends_def)
    next
      case (Cons x e')
      with e assms(1) have "is_word x" by (simp add: word_def)
      with Cons e u par word_not_space show False by (cases u) auto
    qed
  next
    assume e: "p @ e = k \<and> r = e @ z1"
    show False
    proof (cases e)
      case Nil
      with e u have "r = u @ ''('' @ z3" by simp
      with u(2) par assms(2) show False by (simp add: closing_def list_all_iff ends_def)
    next
      case (Cons x e')
      with e \<open>word k\<close> have "is_word x" by (auto simp: word_def)
      with Cons e closing_starts(1) [OF assms(2)] show False by simp
    qed
  qed
qed

lemma call_leads:
  assumes "kw k a" "blank s" "name p" "all_names ps"
  shows "leads (seqs [Grp n (ILit a), ws0, Lit ''('', Grp m (word_list i), Lit '')'']) c
    ((k @ s @ ''('' @ p @ names_tail ps @ '')'') @ r)
    ((m, p @ names_tail ps) # names_caps i ps ((n, k) # c)) r"
proof -
  have "leads (Grp n (ILit a)) c (k @ x) ((n, k) # c) x" for x
    by (intro leads_Grp leads_ILit assms)
  note step = leads_Seq [OF this]
  show ?thesis unfolding append.assoc seqs.simps
    by (intro step leads_ws0_then leads_lit_then leads_names_then leads_Lit close_paren_stops
        assms(2) [unfolded blank_def] name_word all_names_ok assms)
qed

lemma quote_lower_names:
  "name p \<Longrightarrow> all_names ps \<Longrightarrow> quote_words (lower (p @ names_tail ps)) = quoted_names (lower p) (lower_names ps)"
  using name_word [of p] all_names_ok [of ps]
  by (simp add: lower_append lower_names_tail quote_words_names word_lower lower_names_ok)

lemma visible_append: "visible k \<Longrightarrow> visible (k @ s)"
  by (simp add: visible_def)

lemma hit_roles:
  assumes "heads ''LIST'' ''ROLE'' h" "filters fil w" "closing r"
  shows "\<exists>c. leads re_list_role [] (h @ w @ r) c r \<and> filter_caps fil c"
proof -
  let ?all = "seqs [Grp 3 (ILit ''ALL''), ws0, Lit ''('', Grp 4 (word_list 5), Lit '')'']"
  let ?any = "seqs [Grp 6 (ILit ''ANY''), ws0, Lit ''('', Grp 7 (word_list 8), Lit '')'']"
  let ?arg = "Alt ?all (Alt ?any (Grp 9 wd))"
  have with': "leads re_list_role [] (h @ (s1 @ k @ s2 @ x) @ r) ((1, s1 @ k @ s2 @ x) # (2, x) # c) r"
    if "spaces s1" "kw k ''WITH''" "spaces s2" "visible x" "leads ?arg [] (x @ r) c r" for s1 k s2 x c
  proof -
    have v: "visible k" using that by (blast intro: visible_rules)
    have "leads (seqs [ws, ILit ''WITH'', ws, Grp 2 ?arg]) [] (s1 @ k @ s2 @ x @ r) ((2, x) # c) r"
      unfolding seqs.simps by (intro leads_ws_then leads_kw_then leads_Grp v that that(5) [unfolded seqs.simps])
    then show ?thesis unfolding command_patterns
      by (intro leads_heads assms words_of_keywords Opt_Grp) (simp only: append.assoc)
  qed
  from assms(2) show ?thesis
  proof cases
    case f_any
    have "leads re_list_role [] (h @ r) [] r" unfolding command_patterns seqs.simps
      by (rule leads_heads [OF assms(1) _ Opt_closing [OF assms(3)]]) simp_all
    with f_any show ?thesis
      by (intro exI [of _ "[]"]) (simp add: filter_caps_def list_role_text_def matched_def)
  next
    case (f_one s1 k s2 p)
    have p: "word p" using f_one by (simp add: name_def)
    have "leads ?arg [] (p @ r) [(9, p)] r"
      unfolding seqs.simps
      by (intro leads_Alt2 call_dead leads_Grp leads_wd p assms closing_starts words_of_keywords) code_simp+
    from with' [OF f_one(3-5) word_visible [OF p] this] f_one show ?thesis
      by (intro exI) (auto simp: filter_caps_def list_role_text_def matched_def sub_def)
  next
    case (f_all s1 k s2 k' s3 p ps)
    let ?x = "k' @ s3 @ ''('' @ p @ names_tail ps @ '')''"
    have arg: "leads ?arg [] (?x @ r) ((4, p @ names_tail ps) # names_caps 5 ps [(3, k')]) r"
      by (intro leads_Alt1 call_leads f_all)
    have vis: "visible ?x" by (rule visible_append [OF kw_visible [OF f_all(6)]]) code_simp
    let ?c = "(1, s1 @ k @ s2 @ ?x) # (2, ?x) # (4, p @ names_tail ps) # names_caps 5 ps [(3, k')]"
    have "matched ?c 3" "sub ?c 4 = p @ names_tail ps"
      by (simp_all add: matched_def sub_def map_of_names_caps)
    then have "filter_caps fil ?c"
      using quote_lower_names [OF f_all(8,9)] f_all(1,2) unfolding filter_caps_def list_role_text_def by simp
    moreover have "leads re_list_role [] (h @ (s1 @ k @ s2 @ ?x) @ r) ?c r"
      by (intro with' f_all arg vis)
    ultimately show ?thesis using f_all(1,2) by blast
  next
    case (f_some s1 k s2 k' s3 p ps)
    let ?x = "k' @ s3 @ ''('' @ p @ names_tail ps @ '')''"
    have "lower k' = ''any''" using f_some(6) by (simp add: kw_def, code_simp)
    moreover have "lower ''ALL'' = ''all''" by code_simp
    ultimately have "mat (ILit ''ALL'') [] (k' @ x) = []" for x
      using length_lower [of k'] by simp
    then have "mat ?all [] (?x @ r) = []" by (simp del: mat.simps(2))
    then have arg: "leads ?arg [] (?x @ r) ((7, p @ names_tail ps) # names_caps 8 ps [(6, k')]) r"
      by (intro leads_Alt2 leads_Alt1 call_leads f_some)
    have vis: "visible ?x" by (rule visible_append [OF kw_visible [OF f_some(6)]]) code_simp
    let ?c = "(1, s1 @ k @ s2 @ ?x) # (2, ?x) # (7, p @ names_tail ps) # names_caps 8 ps [(6, k')]"
    have "matched ?c 6" "\<not> matched ?c 3" "sub ?c 7 = p @ names_tail ps"
      by (simp_all add: matched_def sub_def map_of_names_caps)
    then have "filter_caps fil ?c"
      using quote_lower_names [OF f_some(8,9)] f_some(1,2) unfolding filter_caps_def list_role_text_def by simp
    moreover have "leads re_list_role [] (h @ (s1 @ k @ s2 @ ?x) @ r) ?c r"
      by (intro with' f_some arg vis)
    ultimately show ?thesis using f_some(1,2) by blast
  qed
qed


section \<open>Names and parameters\<close>

fun arg_caps :: "nat \<Rightarrow> arg \<Rightarrow> caps \<Rightarrow> caps" where
  "arg_caps n (Name w) c = (n, w) # (n + 1, w) # c"
| "arg_caps n (Param d) c = (n, CHR ''$'' # d) # (n + 2, CHR ''$'' # d) # c"

definition class_ok :: "cc \<Rightarrow> (string \<Rightarrow> bool) \<Rightarrow> bool" where
  \<comment> \<open>the names of an argument are runs of a class that white space, parentheses and \<open>$\<close> end\<close>
  "class_ok k ok \<longleftrightarrow> (\<forall>w. ok w \<longrightarrow> w \<noteq> [] \<and> list_all (in_cc k) w)
     \<and> (\<forall>x. in_cc k x \<longrightarrow> \<not> is_space x \<and> x \<noteq> CHR ''('' \<and> x \<noteq> CHR ''$'')"

lemma classes: "class_ok CWord name" "class_ok (CWordOr ''@'') principal"
proof -
  have x: "\<not> is_word (CHR ''$'')" "\<not> is_space (CHR ''@'')" "\<not> is_word (CHR ''('')" by code_simp+
  show "class_ok CWord name" using x word_not_space
    by (auto simp: class_ok_def name_def word_def in_cc.simps [abs_def])
  show "class_ok (CWordOr ''@'') principal" using x word_not_space
    by (auto simp: class_ok_def principal_def)
qed

definition stops :: "string \<Rightarrow> bool" where
  \<comment> \<open>white space or a parenthesis follows\<close>
  "stops s \<longleftrightarrow> s \<noteq> [] \<and> (is_space (hd s) \<or> hd s = CHR ''('')"

lemma stops_intros: "spaces s \<Longrightarrow> stops (s @ x)" "blank s \<Longrightarrow> stops (s @ ''('' @ x)"
  by (cases s; auto simp: stops_def spaces_def blank_def)+

lemma leads_arg:
  assumes "class_ok k ok" "ok_arg ok a" "stops s"
  shows "leads (word_or_num n k) c (arg_text a @ s) (arg_caps n a c) s"
proof (cases a)
  case (Name w)
  have "\<not> starts (in_cc k) s" using assms(1,3) by (auto simp: class_ok_def stops_def starts_def)
  with assms(1,2) Name have "leads (Plus (Cls k)) c (w @ s) c s"
    by (intro leads_Plus_Cls) (auto simp: class_ok_def)
  then show ?thesis unfolding word_or_num_def Name arg_text.simps arg_caps.simps
    by (intro leads_Grp leads_Alt1)
next
  case (Param d)
  have dd: "d \<noteq> []" "list_all (in_cc CDigit) d" using assms(2) Param by (auto simp: in_cc.simps [abs_def])
  have sp: "\<not> is_digit x" if "is_space x \<or> x = CHR ''(''" for x
    using that by (auto simp: is_digit_def is_space_def code_def)
  have "\<not> starts (in_cc CDigit) s" using assms(3) sp by (auto simp: stops_def starts_def)
  from leads_Seq [OF leads_Lit leads_Plus_Cls [OF dd this]]
  have "leads dollar_num c ((''$'' @ d) @ s) c s" unfolding dollar_num_def append.assoc .
  from leads_Grp [OF this] have num: "leads (Grp (n + 2) dollar_num) c ((''$'' @ d) @ s) ((n + 2, ''$'' @ d) # c) s" .
  have "\<not> in_cc k (CHR ''$'')" using assms(1) by (auto simp: class_ok_def)
  then have "mat (Grp (n + 1) (Plus (Cls k))) c ((''$'' @ d) @ s) = []" by simp
  from leads_Grp [OF leads_Alt2 [OF this num]] show ?thesis unfolding word_or_num_def Param by simp
qed

lemma arg_visible: "class_ok k ok \<Longrightarrow> ok_arg ok a \<Longrightarrow> visible (arg_text a)"
proof -
  have "\<not> is_space (CHR ''$'')" by code_simp
  then show "class_ok k ok \<Longrightarrow> ok_arg ok a \<Longrightarrow> visible (arg_text a)"
    by (cases a) (auto simp: visible_def class_ok_def list_all_iff)
qed

lemma hit_unbind:
  assumes "heads ''UNBIND'' ''ROLE'' h" "spaces s1" "ok_arg name n" "spaces s2" "kw k1 ''FROM''" "spaces s3"
    "ok_arg principal who" "spaces s4" "kw k2 ''ON''" "spaces s5" "ok_arg name t" "blank s6" "subquery q" "closing r"
  shows "leads re_unbind_role []
    (h @ (s1 @ arg_text n @ s2 @ k1 @ s3 @ arg_text who @ s4 @ k2 @ s5 @ arg_text t @ s6 @ ''('' @ q @ '')'') @ r)
    ((10, q) # arg_caps 7 t (arg_caps 4 who (arg_caps 1 n []))) r"
proof -
  have v: "visible k1" "visible k2" using assms by (blast intro: visible_rules)+
  have a: "visible (arg_text n)" "visible (arg_text who)" "visible (arg_text t)"
    using assms arg_visible [OF classes(1)] arg_visible [OF classes(2)] by blast+
  note arg = leads_Seq [OF leads_arg [OF classes(1)]] leads_Seq [OF leads_arg [OF classes(2)]]
  show ?thesis unfolding append.assoc seqs.simps command_patterns
    by (intro leads_heads assms words_of_keywords leads_ws_then leads_kw_then leads_ws0_then v a arg
        stops_intros close_paren_stops closing_subquery assms(12) [unfolded blank_def])
qed


section \<open>Every text of a command is found\<close>

definition outcome :: "string \<Rightarrow> command \<Rightarrow> Error + string" where
  "outcome file c = (if mismatched c then Inl (inheritance_error file) else Inr (sql c))"

lemma format_end_append: "CHR ''$'' \<notin> set xs \<Longrightarrow> format c xs = xs"
  by (rule format_end)

lemma format_permission:
  "format [(3, op), (2, t), (1, n)] tpl_create_permission = sql (CreatePermission n t op)"
  unfolding tpl_create_permission_def sql.simps TAB_def by (simp only: format_simps)

lemma format_bindings: "format [(2, q), (1, t)] tpl_list_binding = sql (ListBinding t q)"
  unfolding tpl_list_binding_def sql.simps append.assoc by (simp only: format_simps)

lemma write_inheritance:
  assumes "name fc" "all_names fcs" "name tc" "all_names tcs"
  shows "(writers file ! 3) ((5, tc @ names_tail tcs) # names_caps 6 tcs ((4, t) # (2, fc @ names_tail fcs) # names_caps 3 fcs [(1, f)]))
    = outcome file (CreateInheritance f fc fcs t tc tcs)"
proof -
  let ?c = "(5, tc @ names_tail tcs) # names_caps 6 tcs ((4, t) # (2, fc @ names_tail fcs) # names_caps 3 fcs [(1, f)])"
  have subs: "sub ?c 1 = f" "sub ?c 4 = t" "sub ?c 2 = fc @ names_tail fcs" "sub ?c 5 = tc @ names_tail tcs"
    by (simp_all add: sub_def map_of_names_caps)
  have "writers file ! 3 = (\<lambda>c. inheritance_match file \<lparr>m_prefix = [], m_caps = c, m_str = [], m_suffix = []\<rparr>)"
    by (simp add: writers_def)
  then have "(writers file ! 3) ?c = inheritance_match file \<lparr>m_prefix = [], m_caps = ?c, m_str = [], m_suffix = []\<rparr>"
    by (simp only:)
  also have "\<dots> = outcome file (CreateInheritance f fc fcs t tc tcs)"
    unfolding inheritance_match_def Let_def smatch.simps subs
      pair_columns_names [OF name_word [OF assms(1)] all_names_ok [OF assms(2)] name_word [OF assms(3)] all_names_ok [OF assms(4)]]
      outcome_def by auto
  finally show ?thesis .
qed

lemma write_unbind:
  "unbind_text ((10, q) # arg_caps 7 t (arg_caps 4 who (arg_caps 1 n []))) = sql (Unbind n who t q)"
  by (cases n; cases who; cases t) (simp_all add: unbind_text_def sub_def matched_def)

lemma says_hit:
  assumes "says c u" "closing r"
  shows "\<exists>caps. leads (patterns ! order c) [] (u @ r) caps r \<and> (writers file ! order c) caps = outcome file c"
proof -
  from assms(1) obtain h w where u: "u = h @ w" "body c w" and h: "heads (verbs ! order c) (nouns ! order c) h"
    by (auto elim: says.cases)
  note h' = h [unfolded verbs_def nouns_def]
  from u(2) show ?thesis
  proof cases
    case (b_enable s t)
    then have "leads re_enable [] (h @ (s @ t) @ r) [(1, t)] r" using h' assms(2) by (intro hit_enable) simp_all
    then show ?thesis using b_enable u
      by (intro exI [of _ "[(1, t)]"]) (simp add: patterns_def writers_def outcome_def format_enable del: One_nat_def)
  next
    case (b_permission s1 n s2 k1 s3 t s4 k2 s5 op)
    then have "leads re_create_permission [] (h @ (s1 @ n @ s2 @ k1 @ s3 @ t @ s4 @ k2 @ s5 @ op) @ r) [(3, op), (2, t), (1, n)] r"
      using h' assms(2) by (intro hit_permission) simp_all
    then show ?thesis using b_permission(1,2) u
      by (intro exI [of _ "[(3, op), (2, t), (1, n)]"]) (simp add: patterns_def writers_def outcome_def format_permission del: sql.simps One_nat_def)
  next
    case (b_role s1 n s2 k s3 p ps)
    then have "leads re_create_role [] (h @ (s1 @ n @ s2 @ k @ s3 @ p @ names_tail ps) @ r)
        ((2, p @ names_tail ps) # names_caps 3 ps [(1, n)]) r"
      using h' assms(2) by (intro hit_role) simp_all
    then show ?thesis using b_role(1,2) u quote_lower_names [OF b_role(8,9)]
      by (intro exI [of _ "(2, p @ names_tail ps) # names_caps 3 ps [(1, n)]"]) (simp add: patterns_def writers_def outcome_def sub_def map_of_names_caps del: One_nat_def)
  next
    case (b_inheritance s1 k1 s2 f s3 fc fcs s4 k2 s5 t s6 tc tcs)
    then have "leads re_create_inheritance []
        (h @ (s1 @ k1 @ s2 @ f @ s3 @ ''('' @ fc @ names_tail fcs @ '')'' @ s4 @ k2 @ s5 @ t @ s6 @ ''('' @ tc @ names_tail tcs @ '')'') @ r)
        ((5, tc @ names_tail tcs) # names_caps 6 tcs ((4, t) # (2, fc @ names_tail fcs) # names_caps 3 fcs [(1, f)])) r"
      using h' by (intro hit_inheritance) simp_all
    with write_inheritance [OF b_inheritance(8,9,15,16), of "file" t f] show ?thesis
      using b_inheritance(1,2) u by (intro exI [of _ "(5, tc @ names_tail tcs) # names_caps 6 tcs ((4, t) # (2, fc @ names_tail fcs) # names_caps 3 fcs [(1, f)])"])
         (simp add: patterns_def del: One_nat_def)
  next
    case b_permissions
    then have "leads re_list_permission [] (h @ [] @ r) [] r" using h' assms(2) by (intro hit_permissions) simp_all
    then show ?thesis using b_permissions u
      by (intro exI [of _ "[]"]) (simp add: patterns_def writers_def outcome_def list_permission_text_def matched_def del: One_nat_def)
  next
    case (b_permissions_on s1 k s2 t)
    then have "leads re_list_permission [] (h @ (s1 @ k @ s2 @ t) @ r) [(1, s1 @ k @ s2 @ t), (2, t)] r"
      using h' assms(2) by (intro hit_permissions_on) simp_all
    then show ?thesis using b_permissions_on(1,2) u
      by (intro exI [of _ "[(1, s1 @ k @ s2 @ t), (2, t)]"]) (simp add: patterns_def writers_def outcome_def list_permission_text_def matched_def sub_def del: One_nat_def)
  next
    case (b_bindings s1 k1 s2 k2 s3 t s4 q)
    then have "leads re_list_binding [] (h @ (s1 @ k1 @ s2 @ k2 @ s3 @ t @ s4 @ ''('' @ q @ '')'') @ r) [(2, q), (1, t)] r"
      using h' assms(2) by (intro hit_bindings) simp_all
    then show ?thesis using b_bindings(1,2) u
      by (intro exI [of _ "[(2, q), (1, t)]"]) (simp add: patterns_def writers_def outcome_def format_bindings del: sql.simps One_nat_def)
  next
    case (b_roles fil)
    then have "\<exists>caps. leads re_list_role [] (h @ w @ r) caps r \<and> filter_caps fil caps"
      using h' assms(2) by (intro hit_roles) simp_all
    then show ?thesis using b_roles(1) u
      by (auto simp: patterns_def writers_def outcome_def filter_caps_def)
  next
    case b_inheritances
    then have "leads re_list_inheritance [] (h @ [] @ r) [] r" using h' assms(2) by (intro hit_inheritances) simp_all
    then show ?thesis using b_inheritances u
      by (intro exI [of _ "[]"]) (simp add: patterns_def writers_def outcome_def list_inheritance_match_def matched_def del: One_nat_def)
  next
    case (b_inheritances_of s1 k src s2 t)
    then have l: "leads re_list_inheritance [] (h @ (s1 @ k @ s2 @ t) @ r) [(1, s1 @ k @ s2 @ t), (3, t), (2, k)] r"
      using h' assms(2) by (intro hit_inheritances_of) simp_all
    have "upper k = (if src then ''FROM'' else ''TO'')"
      using b_inheritances_of(4) upper_lower [of k "if src then ''FROM'' else ''TO''"]
      by (cases src) (simp_all add: kw_def, code_simp+)
    then show ?thesis using l b_inheritances_of(1,2) u
      by (intro exI [of _ "[(1, s1 @ k @ s2 @ t), (3, t), (2, k)]"]) (simp add: patterns_def writers_def outcome_def list_inheritance_match_def matched_def sub_def Let_def del: One_nat_def)
  next
    case (b_bind s1 n s2 k1 s3 who s4 k2 s5 t s6 q)
    then have "leads re_bind_role []
        (h @ (s1 @ n @ s2 @ k1 @ s3 @ who @ s4 @ k2 @ s5 @ t @ s6 @ ''('' @ q @ '')'') @ r) [(4, q), (3, t), (2, who), (1, n)] r"
      using h' assms(2) by (intro hit_bind) simp_all
    then show ?thesis using b_bind(1,2) u
      by (intro exI [of _ "[(4, q), (3, t), (2, who), (1, n)]"]) (simp add: patterns_def writers_def outcome_def format_bind del: One_nat_def)
  next
    case (b_unbind s1 n s2 k1 s3 who s4 k2 s5 t s6 q)
    then have "leads re_unbind_role []
        (h @ (s1 @ arg_text n @ s2 @ k1 @ s3 @ arg_text who @ s4 @ k2 @ s5 @ arg_text t @ s6 @ ''('' @ q @ '')'') @ r)
        ((10, q) # arg_caps 7 t (arg_caps 4 who (arg_caps 1 n []))) r"
      using h' assms(2) by (intro hit_unbind) simp_all
    then show ?thesis using b_unbind(1,2) u
      by (intro exI [of _ "(10, q) # arg_caps 7 t (arg_caps 4 who (arg_caps 1 n []))"]) (simp add: patterns_def writers_def outcome_def write_unbind del: sql.simps One_nat_def)
  qed
qed

end
