(* ===== verification/CommandCalm.thy ===== *)
theory CommandCalm
  imports CommandHits
begin

text \<open>
  Where a command can be found: the SQL a command becomes does not say a command, so the passes that
  follow leave it alone, and a pass that is not the command's own does not match in its text.
\<close>

section \<open>Calm pieces of text\<close>

definition safe :: "string \<Rightarrow> bool" where
  \<comment> \<open>calm behind any token but ACCESS\<close>
  "safe s \<longleftrightarrow> (\<forall>a. a \<noteq> 6 \<longrightarrow> calm a s)"

fun runs :: "nat \<Rightarrow> string \<Rightarrow> nat option" where
  \<comment> \<open>the token state behind a calm text\<close>
  "runs a [] = Some a"
| "runs a (x # s) = (if is_space x then (if a = 6 then None else runs 0 s) else runs (step_access a x) s)"

definition sign :: "char \<Rightarrow> bool" where
  "sign x \<longleftrightarrow> \<not> is_space x \<and> tolower x \<notin> set ''access''"

definition opens :: "string \<Rightarrow> bool" where
  \<comment> \<open>the text begins with white space or with a character that is not of the word\<close>
  "opens l \<longleftrightarrow> l \<noteq> [] \<and> (is_space (hd l) \<or> sign (hd l))"

lemma runs_calm: "runs a l = Some b \<Longrightarrow> calm a (l @ s) = calm b s"
  by (induction l arbitrary: a) (auto simp: calm.simps(2) split: if_splits)

lemma safe_calm: "safe s \<Longrightarrow> calm 0 s" "safe s \<Longrightarrow> calm 7 s"
  by (simp_all add: safe_def)

lemma safe_blank: "blank s \<Longrightarrow> safe s"
  unfolding safe_def
proof (intro allI impI)
  fix a :: nat assume "blank s" "a \<noteq> 6"
  then show "calm a s" by (induction s arbitrary: a) (simp_all add: blank_def calm_space)
qed

lemma safe_spaces: "spaces u \<Longrightarrow> calm 0 s \<Longrightarrow> safe (u @ s)"
  by (simp add: safe_def calm_spaces)

lemma safe_blank_then: "blank u \<Longrightarrow> safe s \<Longrightarrow> safe (u @ s)"
  by (cases "u = []") (auto simp: safe_calm blank_def spaces_def intro: safe_spaces)

lemma safe_sign: "sign x \<Longrightarrow> calm 7 s \<Longrightarrow> safe (x # s)"
  by (simp add: safe_def sign_def calm_sign)

lemma signs [simp]: "sign (CHR ''('')" "sign (CHR '')'')" "sign (CHR '','')" "sign (CHR ''$'')" "sign (CHR ''@'')" "sign SQ"
  by code_simp+

lemma calm_name: "name w \<Longrightarrow> safe s \<Longrightarrow> calm 0 (w @ s)"
  unfolding name_def safe_def using calm_token word_no_space by blast

lemma calm_kw: "kw k w \<Longrightarrow> word w \<Longrightarrow> lower w \<noteq> ''access'' \<Longrightarrow> safe s \<Longrightarrow> calm 0 (k @ s)"
proof (rule calm_token)
  have "lower ''ACCESS'' = ''access''" by code_simp
  then show "kw k w \<Longrightarrow> lower w \<noteq> ''access'' \<Longrightarrow> \<not> kw k ''ACCESS''" by (simp add: kw_def)
qed (auto simp: safe_def intro: word_no_space kw_word)

lemma calm_7_word: "word w \<Longrightarrow> calm 7 s \<Longrightarrow> calm 7 (w @ s)"
  using calm_dead word_no_space by blast

lemma name_tail_safe: "all_names vs \<Longrightarrow> safe s \<Longrightarrow> safe (names_tail vs @ s)"
proof (induction vs)
  case (Cons v vs)
  obtain sp w where v: "v = (sp, w)" by fastforce
  with Cons have ok: "blank sp" "name w" and s: "safe (names_tail vs @ s)" by (simp_all add: all_names_def)
  have "calm 7 (sp @ w @ names_tail vs @ s)"
  proof (cases "sp = []")
    case True
    then show ?thesis using s ok calm_7_word safe_calm name_word by simp
  next
    case False
    with ok(1) have "safe (sp @ w @ names_tail vs @ s)"
      by (intro safe_spaces calm_name ok s) (simp add: spaces_def blank_def)
    then show ?thesis by (rule safe_calm)
  qed
  then show ?case unfolding v names_tail_simps append.assoc append_Cons by (intro safe_sign) simp
qed simp

lemma names_in_parens: "word p \<Longrightarrow> all_names ps \<Longrightarrow> calm 7 s \<Longrightarrow> safe (''('' @ p @ names_tail ps @ '')'' @ s)"
proof -
  assume p: "word p" "all_names ps" "calm 7 s"
  then have "safe (names_tail ps @ '')'' @ s)" by (intro name_tail_safe) (simp_all add: safe_sign)
  then show ?thesis using p(1) calm_7_word safe_calm(2) by (simp add: safe_sign)
qed

lemma subquery_in_parens: "subquery q \<Longrightarrow> calm 7 s \<Longrightarrow> safe (''('' @ q @ '')'' @ s)"
  unfolding append_Cons append_Nil subquery_def
  by (intro safe_sign signs calm_closed) (simp_all add: sign_def, code_simp+)

lemma principal_calm:
  assumes "principal w" "safe s"
  shows "calm 0 (w @ s)"
proof (rule calm_token)
  have "\<not> is_space (CHR ''@'')" by code_simp
  then have "\<not> is_space x" if "in_cc (CWordOr ''@'') x" for x using that word_not_space by auto
  then show "no_space w" using assms(1) by (simp add: principal_def no_space_def list_all_iff del: in_cc.simps)
qed (use assms in \<open>simp_all add: principal_def safe_def\<close>)

lemma arg_calm:
  assumes "\<And>w. ok w \<Longrightarrow> calm 0 (w @ s)" "ok_arg ok a" "safe s"
  shows "calm 0 (arg_text a @ s)"
proof (cases a)
  case (Param d)
  with assms(2) have "no_space d" "d \<noteq> []"
    by (auto simp: no_space_def list_all_iff is_digit_def is_space_def)
  have "calm 7 (d @ s)" using \<open>no_space d\<close> safe_calm(2) [OF assms(3)] calm_dead by blast
  from safe_sign [OF _ this, of "CHR ''$''"] Param show ?thesis by (simp add: safe_def)
qed (use assms in simp)

lemma args_calm:
  "ok_arg name a \<Longrightarrow> safe s \<Longrightarrow> calm 0 (arg_text a @ s)"
  "ok_arg principal a \<Longrightarrow> safe s \<Longrightarrow> calm 0 (arg_text a @ s)"
  using arg_calm calm_name principal_calm by blast+

section \<open>The rest of a statement\<close>

lemma keywords_calm [simp]:
  "lower ''ON'' \<noteq> ''access''" "lower ''FOR'' \<noteq> ''access''" "lower ''WITH'' \<noteq> ''access''" "lower ''FROM'' \<noteq> ''access''"
  "lower ''TO'' \<noteq> ''access''" "lower ''BINDING'' \<noteq> ''access''" "lower ''ALL'' \<noteq> ''access''" "lower ''ANY'' \<noteq> ''access''"
  "word ''ALL''" "word ''ANY''"
  by code_simp+

lemma filter_safe: "filters fil w \<Longrightarrow> blank s \<Longrightarrow> safe (w @ s)"
  by (induction rule: filters.induct; simp only: append.assoc append_Nil;
      (rule safe_spaces, assumption | rule calm_kw, assumption | rule calm_name, assumption
       | rule safe_blank_then, assumption | rule safe_blank, assumption | rule names_in_parens | rule safe_calm(2)
       | rule keywords_calm words_of_keywords | rule name_word | assumption)+)

lemma body_safe: "body c w \<Longrightarrow> blank s \<Longrightarrow> safe (w @ s)"
proof (induction rule: body.induct)
  case (b_inheritances_of s1 k src s2 t)
  then have "kw k ''FROM'' \<or> kw k ''TO''" by (cases src) simp_all
  then have "calm 0 (k @ s2 @ t @ s)"
    using b_inheritances_of calm_kw [of k "''FROM''"] calm_kw [of k "''TO''"] safe_spaces calm_name safe_blank
      keywords_calm words_of_keywords by metis
  with b_inheritances_of(1) show ?case unfolding append.assoc by (rule safe_spaces)
next
  case (b_roles fil w)
  then show ?case by (rule filter_safe)
next
  case (b_unbind s1 n s2 k1 s3 who s4 k2 s5 t s6 q)
  show ?case unfolding append.assoc
    by ((rule safe_spaces, rule b_unbind | rule calm_kw, rule b_unbind | rule args_calm, rule b_unbind
      | rule safe_blank_then, rule b_unbind | rule subquery_in_parens
      | rule safe_blank, rule b_unbind | rule safe_calm(2) | rule keywords_calm words_of_keywords b_unbind)+)
qed (simp only: append.assoc append_Nil;
      (rule safe_spaces, assumption | rule calm_kw, assumption | rule calm_name, assumption | rule principal_calm, assumption
       | rule name_tail_safe, assumption | rule safe_blank_then, assumption | rule safe_blank, assumption | rule names_in_parens
       | rule subquery_in_parens, assumption | rule safe_calm(2)
       | rule keywords_calm words_of_keywords | rule name_word | assumption)+)+


section \<open>The SQL of a command\<close>

definition flows :: "nat \<Rightarrow> string \<Rightarrow> bool" where
  \<comment> \<open>a calm text that ends between tokens or in one that is not the word\<close>
  "flows a l \<longleftrightarrow> runs a l = Some 0 \<or> runs a l = Some 7"

definition calmly :: "string \<Rightarrow> bool" where
  "calmly s \<longleftrightarrow> calm 0 s \<and> calm 7 s"

lemma calmly_calm: "calmly s \<Longrightarrow> calm 0 s"
  by (simp add: calmly_def)

lemma calmly_safe: "safe s \<Longrightarrow> calmly s"
  by (simp add: calmly_def safe_calm)

lemma calmly_name: "name w \<Longrightarrow> safe s \<Longrightarrow> calmly (w @ s)"
  by (simp add: calmly_def calm_name calm_7_word name_word safe_calm)

lemma calmly_lit: "flows 0 l \<Longrightarrow> flows 7 l \<Longrightarrow> calmly s \<Longrightarrow> calmly (l @ s)"
  by (auto simp: calmly_def flows_def runs_calm)

lemma opens_calm: "opens l \<Longrightarrow> a \<noteq> 6 \<Longrightarrow> calm a (l @ s) = calm 7 (l @ s)"
  by (cases l) (auto simp: opens_def sign_def calm_space calm_sign)

lemma safe_lit: "opens l \<Longrightarrow> flows 7 l \<Longrightarrow> calmly s \<Longrightarrow> safe (l @ s)"
proof -
  assume l: "opens l" "flows 7 l" "calmly s"
  then have "calm 7 (l @ s)" by (auto simp: calmly_def flows_def runs_calm)
  then show ?thesis unfolding safe_def using opens_calm [OF l(1)] by blast
qed

lemma calmly_subquery: "subquery q \<Longrightarrow> sign x \<Longrightarrow> calm 7 s \<Longrightarrow> runs 7 l = Some 7 \<Longrightarrow> opens l \<Longrightarrow> safe (l @ q @ [x] @ s)"
proof -
  assume q: "subquery q" "sign x" "calm 7 s" and l: "runs 7 l = Some 7" "opens l"
  have "calm 7 (q @ [x] @ s)" using q calm_closed by (simp add: subquery_def sign_def)
  then have "calm 7 (l @ q @ [x] @ s)" using l(1) by (simp only: runs_calm)
  then show ?thesis unfolding safe_def using opens_calm [OF l(2)] by blast
qed

lemma principal_no_space: "principal w \<Longrightarrow> no_space w"
proof -
  have "\<not> is_space (CHR ''@'')" by code_simp
  then have "\<not> is_space x" if "in_cc (CWordOr ''@'') x" for x using that word_not_space by auto
  then show "principal w \<Longrightarrow> no_space w" by (simp add: principal_def no_space_def list_all_iff del: in_cc.simps)
qed

lemma calmly_principal: "principal w \<Longrightarrow> safe s \<Longrightarrow> calmly (w @ s)"
  using calm_dead [OF principal_no_space] by (simp add: calmly_def principal_calm safe_calm)

lemma quoted_append: "quoted w @ s = [SQ] @ w @ [SQ] @ s"
  by (simp add: quoted_def)

lemma lit_facts: "opens [SQ]" "flows 7 [SQ]" "opens '',''" "flows 7 '',''" "opens '' = $1.''" "flows 7 '' = $1.''"
  "opens '' AND ''" "flows 7 '' AND ''" "opens '' WHERE ''" "flows 7 '' WHERE ''"
  by code_simp+

lemma safe_quoted: "calmly (w @ [SQ] @ s) \<Longrightarrow> safe (quoted w @ s)"
  unfolding quoted_append by (intro safe_lit lit_facts)

lemma safe_SQ: "calmly s \<Longrightarrow> safe ([SQ] @ s)"
  by (intro safe_lit lit_facts)

lemma name_lower: "name w \<Longrightarrow> name (lower w)"
proof -
  have t: "tolower (tolower c) = tolower c" for c by (auto simp: tolower_def)
  have "lower (lower w) = lower w" by (simp add: lower_def t)
  then show "name w \<Longrightarrow> name (lower w)" by (simp add: name_def word_lower kw_def)
qed

lemma all_names_lower: "all_names vs \<Longrightarrow> all_names (lower_names vs)"
  by (auto simp: all_names_def lower_names_def list_all_iff name_lower)

lemma safe_quoted_names:
  assumes "name w" "all_names vs" "safe s"
  shows "safe (quoted_names w vs @ s)"
proof -
  have "all_names vs \<Longrightarrow> safe (concat (map (\<lambda>(sp, v). '','' @ sp @ quoted v) vs) @ s)" for vs
  proof (induction vs)
    case (Cons v vs)
    obtain sp x where v: "v = (sp, x)" by fastforce
    let ?r = "concat (map (\<lambda>(sp, v). '','' @ sp @ quoted v) vs) @ s"
    have ok: "blank sp" "name x" "all_names vs" using Cons.prems v by (simp_all add: all_names_def)
    then have "safe (sp @ quoted x @ ?r)"
      by (intro safe_blank_then safe_quoted calmly_name safe_SQ calmly_safe Cons.IH)
    from safe_lit [OF lit_facts(3,4) calmly_safe [OF this]] v show ?case by simp
  qed (use assms(3) in simp)
  then show ?thesis unfolding quoted_names_def append.assoc
    using assms by (intro safe_quoted calmly_name safe_SQ calmly_safe)
qed

definition conds_ok :: "(string \<times> string) list \<Rightarrow> bool" where
  "conds_ok ps \<longleftrightarrow> list_all (\<lambda>(f, t). name f \<and> name t) ps"

lemma safe_conds: "conds_ok ps \<Longrightarrow> safe s \<Longrightarrow> safe (join_conds b ps @ s)"
proof -
  assume s: "safe s"
  have one: "safe (w @ f @ '' = $1.'' @ t @ x)"
    if "opens w" "flows 7 w" "name f" "name t" "safe x" for w f t x
    by (intro safe_lit lit_facts calmly_name that)
  have f: "conds_ok ps \<Longrightarrow> safe (join_conds False ps @ s)" for ps
  proof (induction ps)
    case Nil
    then show ?case using s by (simp add: join_conds_def)
  next
    case (Cons p ps)
    obtain f t where p: "p = (f, t)" by fastforce
    have "safe ('' AND '' @ f @ '' = $1.'' @ t @ join_conds False ps @ s)"
      using Cons p by (intro one lit_facts) (simp_all add: conds_ok_def)
    then show ?case unfolding join_conds_False p by simp
  qed
  assume ps: "conds_ok ps"
  show ?thesis
  proof (cases b)
    case True
    show ?thesis
    proof (cases ps)
      case Nil
      then show ?thesis using s by (simp add: join_conds_def)
    next
      case (Cons p ps')
      obtain f' t where p: "p = (f', t)" by fastforce
      have "safe ('' WHERE '' @ f' @ '' = $1.'' @ t @ join_conds False ps' @ s)"
        using ps Cons p f by (intro one lit_facts) (simp_all add: conds_ok_def)
      then show ?thesis using True unfolding Cons p by (simp add: join_conds_True)
    qed
  qed (use f ps in simp)
qed

text \<open>It is enough to see that no token begins like the word.\<close>

definition other_blanks :: "char list" where
  "other_blanks = [CHR 0x0A, CHR 0x0B, CHR 0x0C, CHR 0x0D]"

fun scan :: "bool \<Rightarrow> string \<Rightarrow> bool" where
  "scan b [] = True"
| "scan b (x # s) = (if x = CHR '' '' \<or> x = CHR 0x09 then scan True s else
      x \<notin> set other_blanks
      \<and> (b \<longrightarrow> x = CHR ''A'' \<or> x = CHR ''a'' \<longrightarrow> s \<noteq> [] \<and> hd s \<noteq> CHR ''C'' \<and> hd s \<noteq> CHR ''c'') \<and> scan False s)"

lemma code_inj: "code x = code y \<Longrightarrow> x = y"
  unfolding code_def by (metis char_of_char)

lemma space_chars: "is_space x \<longleftrightarrow> x \<in> set (CHR '' '' # CHR 0x09 # other_blanks)"
proof
  have codes: "code (CHR '' '') = 32" "code (CHR 0x09) = 9" "code (CHR 0x0A) = 10" "code (CHR 0x0B) = 11"
    "code (CHR 0x0C) = 12" "code (CHR 0x0D) = 13" by (simp_all add: code_def)
  assume "is_space x"
  then have "code x = 32 \<or> code x = 9 \<or> code x = 10 \<or> code x = 11 \<or> code x = 12 \<or> code x = 13"
    by (auto simp: is_space_def)
  then have "code x \<in> code ` set (CHR '' '' # CHR 0x09 # other_blanks)" by (auto simp: other_blanks_def codes)
  then show "x \<in> set (CHR '' '' # CHR 0x09 # other_blanks)" using code_inj by blast
qed (auto simp: is_space_def code_def other_blanks_def)

lemma tolower_iff:
  assumes "97 \<le> code l" "code l \<le> 122" "code u + 32 = code l"
  shows "tolower x = l \<longleftrightarrow> x = l \<or> x = u"
proof -
  have up: "code (tolower x) = code x + 32" if "65 \<le> code x" "code x \<le> 90" for x
    using that by (simp add: tolower_def)
  have id: "tolower x = x" if "\<not> (65 \<le> code x \<and> code x \<le> 90)" for x
    unfolding tolower_def by (rule if_not_P [OF that])
  have u: "tolower u = l" using assms up [of u] by (intro code_inj) simp
  have l: "tolower l = l" using assms by (intro id) simp
  show ?thesis
  proof
    assume t: "tolower x = l"
    show "x = l \<or> x = u"
    proof (cases "65 \<le> code x \<and> code x \<le> 90")
      case True
      with up [of x] t assms(3) have "code x = code u" by simp
      then show ?thesis by (simp add: code_inj)
    next
      case False
      with id [OF False] t show ?thesis by simp
    qed
  qed (use u l in blast)
qed

lemma tolower_ac: "tolower x = CHR ''a'' \<longleftrightarrow> x = CHR ''a'' \<or> x = CHR ''A''"
  "tolower x = CHR ''c'' \<longleftrightarrow> x = CHR ''c'' \<or> x = CHR ''C''"
  by (rule tolower_iff; simp add: code_def)+

lemma scan_runs:
  "scan b l \<Longrightarrow> (if b then a = 0 else a = 7 \<or> a = 1 \<and> l \<noteq> [] \<and> tolower (hd l) \<noteq> CHR ''c'') \<Longrightarrow>
     runs a l = Some 0 \<or> runs a l = Some 7"
proof (induction b l arbitrary: a rule: scan.induct)
  case (2 b x s)
  show ?case
  proof (cases "x = CHR '' '' \<or> x = CHR 0x09")
    case True
    then have "is_space x" by (auto simp: space_chars)
    moreover have "a \<noteq> 6" using 2(4) by (auto split: if_splits)
    ultimately show ?thesis using 2(1) [OF True, of 0] 2(3) True by simp
  next
    case False
    then have sp: "\<not> is_space x" using 2(3) by (simp add: space_chars)
    have n: "runs a (x # s) = runs (step_access a x) s" using sp by simp
    have "step_access a x = 7 \<or> step_access a x = 1 \<and> s \<noteq> [] \<and> tolower (hd s) \<noteq> CHR ''c''"
      using 2(3,4) False by (auto simp: step_access.simps tolower_ac split: if_splits)
    with 2(2) [OF False, of "step_access a x"] 2(3) False n show ?thesis by simp
  qed
qed (auto split: if_splits)

lemma scan_flows: "scan True l \<Longrightarrow> flows 0 l" "scan False l \<Longrightarrow> flows 7 l"
  using scan_runs [of True l 0] scan_runs [of False l 7] by (simp_all add: flows_def)

lemma pieces_scan:
  "scan True [SQ]" "scan True [TAB]" "scan True ''CREATE TABLE ''" "scan True ''__access_bindings__ (''"
  "scan True ''   _id             BIGINT NOT NULL,''" "scan True ''   _role           TEXT NOT NULL,''"
  "scan True ''   _principal      TEXT NOT NULL,''" "scan True ''   _ref            BIGINT NOT NULL,''"
  "scan True ''   _inheritance    BIGINT NOT NULL DEFAULT 0,''"
  "scan True ''   _ts             TIMESTAMP DEFAULT NOW(),''"
  "scan True ''   PRIMARY KEY (_id, _inheritance, _ref),''" "scan True ''   FOREIGN KEY (_id) REFERENCES ''"
  "scan True '' (id) ON DELETE CASCADE,''"
  "scan True ''   FOREIGN KEY (_role) REFERENCES __access_roles__ (_name) ON DELETE RESTRICT,''"
  "scan True ''   FOREIGN KEY (_ref) REFERENCES __access_binding_refs__ (_id) ON DELETE CASCADE,''"
  "scan True ''   FOREIGN KEY (_inheritance) REFERENCES __access_inheritances__ (_id) ON DELETE CASCADE''"
  "scan True '');''" "scan True ''CREATE TRIGGER ''" "scan True ''__upsert__''"
  "scan True ''   AFTER INSERT OR UPDATE ON ''" "scan True ''   FOR EACH ROW''"
  "scan True ''   EXECUTE FUNCTION __set_access_bindings__();''" "scan True ''CREATE VIEW ''"
  "scan True ''__acls__ AS''" "scan True ''   SELECT b._id, b._role, b._principal, r._operation, r._columns''"
  "scan True ''   FROM ''" "scan True ''__access_bindings__ b, __access_roles_expanded__ r''"
  "scan True ''   WHERE r._relation = ''" "scan True ''::REGCLASS AND b._role = r._name;''"
  "scan True ''GRANT ALL PRIVILEGES ON ''" "scan True '', ''" "scan True ''__acls__ TO PUBLIC''"
  "scan True ''WITH r AS''" "scan True ''   (INSERT INTO __access_binding_refs__ (_origin, _origin_id)''"
  "scan True ''       VALUES (''" "scan True '', (''" "scan True ''))''" "scan True ''       RETURNING *)''"
  "scan True ''INSERT INTO ''" "scan True ''__access_bindings__ (_role, _principal, _id, _ref)''"
  "scan True ''   SELECT ''" "scan True '', _origin_id, _id''" "scan True ''   FROM r''"
  "scan True ''INSERT INTO __access_roles__ (_name, _permissions) VALUES (''" "scan True '', ARRAY[''"
  "scan True '']);''" "scan True ''INSERT INTO __access_roles_denorm__ (_name, _permission)''"
  "scan True '' SELECT _name, unnest(_permissions)''" "scan True '' FROM __access_roles__''"
  "scan True '' WHERE _name = ''" "scan True ''INSERT INTO __access_inheritances__ (_src, _dst, _src_query)''"
  "scan True '' VALUES (''" "scan True ''SELECT id FROM ''" "scan True '')''"
  "scan True '' WHERE _permissions @> ARRAY[''" "scan True '']''" "scan True '' WHERE _permissions && ARRAY[''"
  "scan True ''INSERT INTO __access_permissions__ (_name, _relation, _operation)''"
  "scan True ''VALUES (LOWER(''" "scan True ''), ''" "scan True '', UPPER(''"
  "scan True ''SELECT * FROM __access_permissions__''" "scan True '' WHERE _relation = ''"
  "scan True ''::REGCLASS''" "scan True ''SELECT *''" "scan True ''__access_bindings__''"
  "scan True ''   WHERE _id = (''" "scan True ''SELECT * FROM __access_roles__''"
  "scan True ''SELECT * FROM __access_inheritances__''" "scan True '' WHERE _src = ''"
  "scan True '' WHERE _dst = ''" "scan True ''DELETE FROM __access_binding_refs__ r''" "scan True '' USING ''"
  "scan True ''__access_bindings__ b''" "scan True '' WHERE b._id = (''" "scan True '' AND b._role = ''"
  "scan True '' AND b._principal = ''" "scan True '' AND b._inheritance = 0''"
  "scan True '' AND b._ref = r._id''"
  by code_simp+


lemma scan_True: "scan True l \<Longrightarrow> scan False l"
  by (cases l) (simp_all split: if_splits)

lemmas flow_facts = pieces_scan [THEN scan_flows(1)] pieces_scan [THEN scan_True, THEN scan_flows(2)]

lemma more_signs [simp]: "sign (CHR ''_'')" "sign (CHR '':'')" "is_space TAB" "is_space (CHR '' '')" "sign (CHR '']'')"
  by code_simp+

fun clean_filter :: "role_filter \<Rightarrow> bool" where
  "clean_filter AnyRole = True"
| "clean_filter (WithOne p) = name p"
| "clean_filter (WithAll p ps) = (name p \<and> all_names ps)"
| "clean_filter (WithSome p ps) = (name p \<and> all_names ps)"

fun clean :: "command \<Rightarrow> bool" where
  \<comment> \<open>what the texts of a command say of its names\<close>
  "clean (Enable t) = name t"
| "clean (CreatePermission n t op) = (name n \<and> name t \<and> name op)"
| "clean (CreateRole n p ps) = (name n \<and> name p \<and> all_names ps)"
| "clean (CreateInheritance f fc fcs t tc tcs) =
     (name f \<and> name fc \<and> all_names fcs \<and> name t \<and> name tc \<and> all_names tcs)"
| "clean (ListPermission (Some t)) = name t"
| "clean (ListBinding t q) = (name t \<and> subquery q)"
| "clean (ListRole fil) = clean_filter fil"
| "clean (ListInheritance (Some (_, t))) = name t"
| "clean (Bind n who t q) = (name n \<and> principal who \<and> name t \<and> subquery q)"
| "clean (Unbind n who t q) = (ok_arg name n \<and> ok_arg principal who \<and> ok_arg name t \<and> subquery q)"
| "clean _ = True"

lemma body_clean: "body c w \<Longrightarrow> clean c"
  by (induction rule: body.induct) (auto elim!: filters.cases)

lemma calm_lit: "flows 0 l \<Longrightarrow> calmly s \<Longrightarrow> calm 0 (l @ s)"
  by (auto simp: calmly_def flows_def runs_calm)

lemma calmly_quoted: "calmly (w @ [SQ] @ s) \<Longrightarrow> calmly (quoted w @ s)"
  by (rule calmly_safe [OF safe_quoted])

lemma calmly_blank: "blank s \<Longrightarrow> calmly s"
  by (intro calmly_safe safe_blank)

lemma calm_enable: "name t \<Longrightarrow> blank s \<Longrightarrow> calm 0 (sql_enable t @ s)"
proof -
  assume t: "name t" and s: "blank s"
  show ?thesis unfolding sql_enable_def append.assoc
    by ((rule calmly_name [OF t] calmly_quoted | rule safe_SQ | rule calmly_blank [OF s]
        | rule calm_lit, rule flow_facts | rule calmly_lit, rule flow_facts, rule flow_facts
        | rule safe_lit, simp add: opens_def, rule flow_facts)+)
qed


lemma subquery_lits: "runs 7 '', (''  = Some 7" "runs 7 '' WHERE b._id = ('' = Some 7" "runs 7 ''   WHERE _id = ('' = Some 7"
  by code_simp+

lemma safe_subquery:
  assumes "opens l" "runs 7 l = Some 7" "subquery q" "l2 = x # l3" "sign x" "flows 7 l2" "calmly s"
  shows "safe (l @ q @ l2 @ s)"
proof -
  have "calm 7 (l2 @ s)" using assms(6,7) by (auto simp: flows_def calmly_def runs_calm)
  then have "calm 7 (l3 @ s)" using assms(4,5) by (simp add: sign_def calm_sign)
  with calmly_subquery [OF assms(3,5) this assms(2,1)] assms(4) show ?thesis by simp
qed

lemma calm_permission: "name n \<Longrightarrow> name t \<Longrightarrow> name op \<Longrightarrow> blank s \<Longrightarrow> calm 0 (sql (CreatePermission n t op) @ s)"
proof -
  assume n: "name n" "name t" "name op" and s: "blank s"
  show ?thesis unfolding sql.simps append.assoc
    by ((rule calmly_name [OF n(1)] calmly_name [OF n(2)] calmly_name [OF n(3)] calmly_quoted | rule safe_SQ
        | rule calmly_blank [OF s] | rule calm_lit, rule flow_facts | rule calmly_lit, rule flow_facts, rule flow_facts
        | rule safe_lit, simp add: opens_def, rule flow_facts)+)
qed

lemma calm_role: "name n \<Longrightarrow> name p \<Longrightarrow> all_names ps \<Longrightarrow> blank s \<Longrightarrow>
    calm 0 (sql_create_role n (quoted_names p ps) @ s)"
proof -
  assume n: "name n" and p: "name p" "all_names ps" and s: "blank s"
  show ?thesis unfolding sql_create_role_def append.assoc
    by ((rule calmly_name [OF n] calmly_quoted | rule safe_SQ | rule calmly_safe [OF safe_quoted_names [OF p]]
        | rule calmly_blank [OF s] | rule calm_lit, rule flow_facts | rule calmly_lit, rule flow_facts, rule flow_facts
        | rule safe_lit, simp add: opens_def, rule flow_facts)+)
qed

lemma calm_inheritance: "name f \<Longrightarrow> name t \<Longrightarrow> conds_ok ps \<Longrightarrow> blank s \<Longrightarrow>
    calm 0 (sql_inheritance f t (join_conds True ps) @ s)"
proof -
  assume n: "name f" "name t" and p: "conds_ok ps" and s: "blank s"
  show ?thesis unfolding sql_inheritance_def append.assoc
    by ((rule calmly_name [OF n(1)] calmly_name [OF n(2)] calmly_quoted | rule safe_conds [OF p] | rule safe_SQ
        | rule calmly_blank [OF s] | rule calm_lit, rule flow_facts | rule calmly_lit, rule flow_facts, rule flow_facts
        | rule safe_lit, simp add: opens_def, rule flow_facts)+)
qed

lemma columns_conds:
  "name fc \<Longrightarrow> all_names fcs \<Longrightarrow> name tc \<Longrightarrow> all_names tcs \<Longrightarrow> conds_ok (zip (columns fc fcs) (columns tc tcs))"
proof -
  have "name w \<Longrightarrow> all_names vs \<Longrightarrow> list_all name (columns w vs)" for w vs
    by (auto simp: all_names_def list_all_iff columns_def)
  moreover have "list_all name xs \<Longrightarrow> list_all name ys \<Longrightarrow> conds_ok (zip xs ys)" for xs ys
    by (auto simp: conds_ok_def list_all_iff dest: set_zip_leftD set_zip_rightD)
  ultimately show "name fc \<Longrightarrow> all_names fcs \<Longrightarrow> name tc \<Longrightarrow> all_names tcs \<Longrightarrow>
      conds_ok (zip (columns fc fcs) (columns tc tcs))"
    by blast
qed

lemma calm_roles: "clean_filter fil \<Longrightarrow> blank s \<Longrightarrow> calm 0 (sql (ListRole fil) @ s)"
proof -
  assume c: "clean_filter fil" and s: "blank s"
  have f: "calmly (sql_filter fil @ s)"
  proof (cases fil)
    case AnyRole
    then show ?thesis using calmly_blank [OF s] by simp
  next
    case (WithOne p)
    then have p: "name (lower p)" using c by (simp add: name_lower)
    show ?thesis unfolding WithOne sql_filter.simps append.assoc
      by ((rule calmly_name [OF p] calmly_quoted | rule safe_SQ | rule calmly_blank [OF s]
         | rule calmly_lit, rule flow_facts, rule flow_facts)+)
  next
    case (WithAll p ps)
    then have p: "name (lower p)" "all_names (lower_names ps)" using c by (simp_all add: name_lower all_names_lower)
    show ?thesis unfolding WithAll sql_filter.simps append.assoc
      by ((rule calmly_safe [OF safe_quoted_names [OF p]] | rule safe_SQ | rule calmly_blank [OF s]
         | rule calmly_lit, rule flow_facts, rule flow_facts | rule safe_lit, simp add: opens_def, rule flow_facts)+)
  next
    case (WithSome p ps)
    then have p: "name (lower p)" "all_names (lower_names ps)" using c by (simp_all add: name_lower all_names_lower)
    show ?thesis unfolding WithSome sql_filter.simps append.assoc
      by ((rule calmly_safe [OF safe_quoted_names [OF p]] | rule safe_SQ | rule calmly_blank [OF s]
         | rule calmly_lit, rule flow_facts, rule flow_facts | rule safe_lit, simp add: opens_def, rule flow_facts)+)
  qed
  show ?thesis unfolding sql.simps append.assoc by (rule calm_lit [OF _ f]) (rule flow_facts)
qed

lemma calm_bind: "name n \<Longrightarrow> principal who \<Longrightarrow> name t \<Longrightarrow> subquery q \<Longrightarrow> blank s \<Longrightarrow> calm 0 (sql_bind n who t q @ s)"
proof -
  assume n: "name n" "name t" and w: "principal who" and q: "subquery q" and s: "blank s"
  show ?thesis unfolding sql_bind_def append.assoc
    by ((rule calmly_name [OF n(1)] calmly_name [OF n(2)] calmly_principal [OF w] calmly_quoted | rule safe_SQ
        | rule safe_subquery [OF _ _ q refl], simp add: opens_def, rule subquery_lits, simp, rule flow_facts
        | rule calmly_safe [OF safe_subquery [OF _ _ q refl]], simp add: opens_def, rule subquery_lits, simp, rule flow_facts
        | rule calmly_blank [OF s] | rule calm_lit, rule flow_facts | rule calmly_lit, rule flow_facts, rule flow_facts
        | rule safe_lit, simp add: opens_def, rule flow_facts)+)
qed

lemma calmly_digits: "d \<noteq> [] \<Longrightarrow> list_all is_digit d \<Longrightarrow> safe s \<Longrightarrow> safe (CHR ''$'' # d @ s)"
proof -
  assume d: "d \<noteq> []" "list_all is_digit d" and s: "safe s"
  then have "no_space d" by (auto simp: no_space_def list_all_iff is_digit_def is_space_def)
  with s show ?thesis by (intro safe_sign) (simp_all add: calm_dead safe_calm)
qed

lemma calmly_arg:
  "ok_arg name a \<Longrightarrow> safe s \<Longrightarrow> calmly (arg_text a @ s)"
  "ok_arg name a \<Longrightarrow> safe s \<Longrightarrow> calmly (arg_sql a @ s)"
  "ok_arg principal a \<Longrightarrow> safe s \<Longrightarrow> calmly (arg_sql a @ s)"
  by (cases a; simp add: calmly_name calmly_safe [OF calmly_digits] calmly_principal;
      intro calmly_quoted calmly_name calmly_principal safe_SQ calmly_safe; assumption)+

lemma calm_unbind: "ok_arg name n \<Longrightarrow> ok_arg principal who \<Longrightarrow> ok_arg name t \<Longrightarrow> subquery q \<Longrightarrow> blank s \<Longrightarrow>
    calm 0 (sql (Unbind n who t q) @ s)"
proof -
  assume n: "ok_arg name n" "ok_arg name t" and w: "ok_arg principal who" and q: "subquery q" and s: "blank s"
  show ?thesis unfolding sql.simps append.assoc
    by ((rule calmly_arg(2) [OF n(1)] calmly_arg(1) [OF n(2)] calmly_arg(3) [OF w]
        | rule safe_subquery [OF _ _ q refl], simp add: opens_def, rule subquery_lits, simp, rule flow_facts
        | rule calmly_safe [OF safe_subquery [OF _ _ q refl]], simp add: opens_def, rule subquery_lits, simp, rule flow_facts
        | rule calmly_blank [OF s] | rule calm_lit, rule flow_facts | rule calmly_lit, rule flow_facts, rule flow_facts
        | rule safe_lit, simp add: opens_def, rule flow_facts)+)
qed

lemma calm_bindings: "name t \<Longrightarrow> subquery q \<Longrightarrow> blank s \<Longrightarrow> calm 0 (sql (ListBinding t q) @ s)"
proof -
  assume n: "name t" and q: "subquery q" and s: "blank s"
  show ?thesis unfolding sql.simps append.assoc
    by ((rule calmly_name [OF n]
        | rule safe_subquery [OF _ _ q refl], simp add: opens_def, rule subquery_lits, simp, rule flow_facts
        | rule calmly_safe [OF safe_subquery [OF _ _ q refl]], simp add: opens_def, rule subquery_lits, simp, rule flow_facts
        | rule calmly_blank [OF s] | rule calm_lit, rule flow_facts | rule calmly_lit, rule flow_facts, rule flow_facts
        | rule safe_lit, simp add: opens_def, rule flow_facts)+)
qed

lemma calm_sql: "clean c \<Longrightarrow> blank s \<Longrightarrow> calm 0 (sql c @ s)"
proof (cases c)
  case (CreateInheritance f fc fcs t tc tcs)
  then show "clean c \<Longrightarrow> blank s \<Longrightarrow> ?thesis" using columns_conds calm_inheritance by simp
next
  case (ListPermission t)
  assume c: "clean c" and s: "blank s"
  show ?thesis
  proof (cases t)
    case None
    show ?thesis unfolding ListPermission None sql.simps by (rule calm_lit [OF _ calmly_blank [OF s]]) (rule flow_facts)
  next
    case (Some x)
    then have x: "name x" using c ListPermission by simp
    show ?thesis unfolding ListPermission Some sql.simps append.assoc
      by ((rule calmly_name [OF x] calmly_quoted | rule safe_SQ | rule calmly_blank [OF s]
        | rule calm_lit, rule flow_facts | rule calmly_lit, rule flow_facts, rule flow_facts)+)
  qed
next
  case (ListInheritance d)
  assume c: "clean c" and s: "blank s"
  show ?thesis
  proof (cases d)
    case None
    show ?thesis unfolding ListInheritance None sql.simps by (rule calm_lit [OF _ calmly_blank [OF s]]) (rule flow_facts)
  next
    case (Some p)
    obtain b x where p: "p = (b, x)" by fastforce
    then have x: "name x" using c ListInheritance Some by simp
    have w: "flows 0 (if b then '' WHERE _src = '' else '' WHERE _dst = '')"
      "flows 7 (if b then '' WHERE _src = '' else '' WHERE _dst = '')" by (cases b; simp only: if_True if_False; rule flow_facts)+
    show ?thesis unfolding ListInheritance Some p sql.simps append.assoc
      by ((rule calmly_name [OF x] calmly_quoted | rule safe_SQ | rule calmly_blank [OF s] | rule calmly_lit [OF w]
        | rule calm_lit, rule flow_facts | rule calmly_lit, rule flow_facts, rule flow_facts)+)
  qed
qed (use calm_enable calm_permission calm_role calm_bindings calm_roles calm_bind calm_unbind in
     \<open>simp_all del: sql.simps add: sql.simps(1,3,11) name_lower all_names_lower\<close>)


section \<open>Where a pass does not match\<close>

lemma verbs_nouns: "k < 10 \<Longrightarrow> word (verbs ! k) \<and> word (nouns ! k) \<and> \<not> kw (verbs ! k) ''ACCESS''"
proof -
  have "list_all (\<lambda>w. word w \<and> \<not> kw w ''ACCESS'') verbs" "list_all word nouns" by code_simp+
  moreover have "length verbs = 10" "length nouns = 10" by (simp_all add: verbs_def nouns_def)
  ultimately show "k < 10 \<Longrightarrow> word (verbs ! k) \<and> word (nouns ! k) \<and> \<not> kw (verbs ! k) ''ACCESS''"
    by (simp add: list_all_length)
qed

definition rests :: "rx list" where
  \<comment> \<open>the patterns behind their keywords\<close>
  "rests = [Seq ws (Grp 1 wd),
     seqs [ws, Grp 1 wd, ws, ILit ''ON'', ws, Grp 2 wd, ws, ILit ''FOR'', ws, Grp 3 wd],
     seqs [ws, Grp 1 wd, ws, ILit ''WITH'', ws, Grp 2 (word_list 3)],
     seqs [ws, ILit ''FROM'', ws, Grp 1 wd, ws0,
       Lit ''('', Grp 2 (word_list 3), Lit '')'', ws, ILit ''TO'', ws, Grp 4 wd, ws0, Lit ''('', Grp 5 (word_list 6), Lit '')''],
     Opt (Grp 1 (seqs [ws, ILit ''ON'', ws, Grp 2 wd])),
     seqs [ws, ILit ''BINDING'', ws, ILit ''ON'', ws, Grp 1 wd, ws0, query_arg 2],
     Opt (Grp 1 (seqs [ws, ILit ''WITH'', ws,
       Grp 2 (Alt (seqs [Grp 3 (ILit ''ALL''), ws0, Lit ''('', Grp 4 (word_list 5), Lit '')''])
             (Alt (seqs [Grp 6 (ILit ''ANY''), ws0, Lit ''('', Grp 7 (word_list 8), Lit '')''])
                  (Grp 9 wd)))])),
     Opt (Grp 1 (seqs [ws, Grp 2 (Alt (ILit ''FROM'') (ILit ''TO'')), ws, Grp 3 wd])),
     seqs [ws, Grp 1 wd, ws, ILit ''TO'', ws, Grp 2 (Plus (Cls (CWordOr ''@''))), ws, ILit ''ON'', ws, Grp 3 wd, ws0, query_arg 4],
     seqs [ws, word_or_num 1 CWord, ws, ILit ''FROM'', ws, word_or_num 4 (CWordOr ''@''), ws, ILit ''ON'', ws,
       word_or_num 7 CWord, ws0, query_arg 10]]"

lemma patterns_rests: "k < 10 \<Longrightarrow> patterns ! k = command_rx (verbs ! k) (nouns ! k) (rests ! k)"
proof -
  have "patterns = map (\<lambda>k. command_rx (verbs ! k) (nouns ! k) (rests ! k)) [0, 1, 2, 3, 4, 5, 6, 7, 8, 9]"
    unfolding patterns_def command_patterns by (simp add: verbs_def nouns_def rests_def)
  also have "[0, 1, 2, 3, 4, 5, 6, 7, 8, 9] = [0..<10]" by (simp add: upt_rec)
  finally have p: "patterns = map (\<lambda>k. command_rx (verbs ! k) (nouns ! k) (rests ! k)) [0..<10]" .
  show "k < 10 \<Longrightarrow> patterns ! k = command_rx (verbs ! k) (nouns ! k) (rests ! k)"
    by (subst p) simp
qed

lemma order_bound: "order c < 10"
  by (cases c) simp_all

lemma letters:
  "map (\<lambda>w. tolower (last w)) verbs = ''eeeettttdd''" "map (\<lambda>w. tolower (hd w)) nouns = ''cpriprrirr''"
  by code_simp+

lemma different_letters:
  "list_all (\<lambda>j. list_all (\<lambda>k. (k = 5 \<and> j = 6) \<or> (k = 8 \<and> j = 9)
      \<or> ''eeeettttdd'' ! k \<noteq> ''eeeettttdd'' ! j \<or> ''cpriprrirr'' ! k \<noteq> ''cpriprrirr'' ! j) [0..<j]) [0..<10]"
  by code_simp

lemma different_keywords:
  assumes "k < j" "j < 10" "\<not> (k = 5 \<and> j = 6)" "\<not> (k = 8 \<and> j = 9)"
  shows "(\<forall>p. lower (verbs ! j) \<noteq> p @ lower (verbs ! k)) \<or> tolower (hd (nouns ! k)) \<noteq> tolower (hd (nouns ! j))"
proof -
  have n: "length verbs = 10" "length nouns = 10" by (simp_all add: verbs_def nouns_def)
  have l: "''eeeettttdd'' ! i = tolower (last (verbs ! i))" "''cpriprrirr'' ! i = tolower (hd (nouns ! i))" if "i < 10" for i
    using that n unfolding letters [symmetric] by simp_all
  have "''eeeettttdd'' ! k \<noteq> ''eeeettttdd'' ! j \<or> ''cpriprrirr'' ! k \<noteq> ''cpriprrirr'' ! j"
  proof -
    have "j \<in> set [0..<10]" "k \<in> set [0..<j]" using assms by simp_all
    from different_letters [unfolded list_all_iff, rule_format, OF this] assms(3,4) show ?thesis by blast
  qed
  then have "tolower (last (verbs ! k)) \<noteq> tolower (last (verbs ! j)) \<or> tolower (hd (nouns ! k)) \<noteq> tolower (hd (nouns ! j))"
    using assms l [of k] l [of j] by simp
  moreover have "tolower (last (verbs ! j)) = tolower (last (verbs ! k))"
    if "lower (verbs ! j) = p @ lower (verbs ! k)" for p
  proof -
    have "verbs ! k \<noteq> []" "verbs ! j \<noteq> []" using verbs_nouns assms by (auto simp: word_def)
    moreover have "last (lower (verbs ! j)) = last (lower (verbs ! k))" using that calculation by simp
    ultimately show ?thesis by (simp add: lower_def last_map)
  qed
  ultimately show ?thesis by metis
qed


lemma kw_hd: "kw k a \<Longrightarrow> word a \<Longrightarrow> word k \<and> tolower (hd k) = tolower (hd a)"
proof -
  assume k: "kw k a" "word a"
  then have "word k" by (rule kw_word)
  with k show ?thesis by (cases k; cases a) (auto simp: kw_def lower_def word_def)
qed

lemma roles_not_bindings:
  assumes "filters fil w" "blank post" "ends r"
  shows "mat (rests ! 5) c ((w @ post) @ r) = []"
proof -
  have r: "rests ! 5 = Seq ws (Seq (ILit ''BINDING'') (seqs [ws, ILit ''ON'', ws, Grp 1 wd, ws0, query_arg 2]))"
    by (simp add: rests_def)
  have b: "tolower (hd ''WITH'') \<noteq> tolower (hd ''BINDING'')" by code_simp
  show ?thesis
  proof (cases "w = []")
    case True
    then show ?thesis unfolding r using closing_join [OF assms(2,3)]
      by (simp only: append_Nil) (intro ws_closing mat_Seq_stop mat_ILit_stop words_of_keywords)
  next
    case False
    with assms(1) obtain s1 k x where w: "w = s1 @ k @ x" "spaces s1" "kw k ''WITH''"
      by (auto elim!: filters.cases)
    from kw_hd [OF w(3)] b have "word k" "tolower (hd k) \<noteq> tolower (hd ''BINDING'')" by simp_all
    then show ?thesis unfolding r w(1) append.assoc by (intro ws_dead w(2) words_of_keywords)
  qed
qed

lemma unbind_not_bind:
  assumes "spaces s1" "ok_arg name n" "spaces s2" "kw k ''FROM''"
  shows "mat (rests ! 8) c (s1 @ arg_text n @ s2 @ k @ z) = []"
proof (rule ccontr)
  let ?x = "seqs [ws, Grp 2 (Plus (Cls (CWordOr ''@''))), ws, ILit ''ON'', ws, Grp 3 wd, ws0, query_arg 4]"
  have r: "rests ! 8 = Seq ws (Seq (Grp 1 wd) (Seq ws (Seq (ILit ''TO'') ?x)))" by (simp add: rests_def)
  have t: "tolower (hd ''FROM'') \<noteq> tolower (hd ''TO'')" by code_simp
  assume "mat (rests ! 8) c (s1 @ arg_text n @ s2 @ k @ z) \<noteq> []"
  then obtain c1 z1 where m: "(c1, z1) \<in> set (mat ws c (s1 @ arg_text n @ s2 @ k @ z))"
    "mat (Seq (Grp 1 wd) (Seq ws (Seq (ILit ''TO'') ?x))) c1 z1 \<noteq> []"
    unfolding r mat.simps(4) [of ws] by (auto simp del: mat.simps)
  from m(2) have "starts is_word z1" using mat_Seq_stop [OF mat_Grp_stop [OF mat_wd_stop]] by blast
  from m(1) obtain u where u: "s1 @ arg_text n @ s2 @ k @ z = u @ z1" "spaces u" by (rule mat_wsE)
  have "visible (arg_text n)" by (rule arg_visible [OF classes(1) assms(2)])
  then have d1: "dropWhile is_space (s1 @ arg_text n @ s2 @ k @ z) = arg_text n @ s2 @ k @ z"
    using assms(1) by (cases "arg_text n") (auto simp: visible_def spaces_def list_all_iff dropWhile_append)
  have d2: "dropWhile is_space (u @ z1) = z1"
    using u(2) \<open>starts is_word z1\<close> word_not_space
    by (cases z1) (auto simp: spaces_def list_all_iff dropWhile_append)
  from arg_cong [OF u(1), of "dropWhile is_space"] have z1: "z1 = arg_text n @ s2 @ k @ z" unfolding d1 d2 by simp
  have "\<not> is_word (CHR ''$'')" by code_simp
  with \<open>starts is_word z1\<close> z1 assms(2) obtain w where w: "arg_text n = w" "name w" by (cases n) auto
  have "mat (Seq ws (Seq (ILit ''TO'') ?x)) c2 z2 = []" if "(c2, z2) \<in> set (mat (Grp 1 wd) c1 z1)" for c2 z2
  proof (rule ccontr)
    assume ne: "mat (Seq ws (Seq (ILit ''TO'') ?x)) c2 z2 \<noteq> []"
    then obtain c3 z3 where "(c3, z3) \<in> set (mat ws c2 z2)"
      unfolding mat.simps(4) [of ws] by (auto simp del: mat.simps)
    then obtain v where v: "z2 = v @ z3" "spaces v" by (rule mat_wsE)
    from that obtain c4 where "(c4, z2) \<in> set (mat wd c1 z1)" by auto
    then obtain x where x: "z1 = x @ z2" "list_all is_word x"
      unfolding wd_def by (auto split: list.splits if_splits dest!: mat_Star_Cls simp: in_cc.simps [abs_def])
    have nx: "no_space x" using x(2) word_not_space by (auto simp: no_space_def list_all_iff)
    obtain a v' where av: "v = a # v'" "is_space a" using v(2) by (cases v) (auto simp: spaces_def)
    obtain b s' where bs: "s2 = b # s'" "is_space b" using assms(3) by (cases s2) (auto simp: spaces_def)
    have "w @ b # s' @ k @ z = x @ a # v' @ z3" using z1 x(1) v(1) w(1) av bs by simp
    from no_space_prefix [OF _ nx bs(2) av(2) this] w(2) have "x = w" "z2 = s2 @ k @ z"
      using v(1) av bs by (auto simp: word_no_space name_word)
    moreover have "word k" "tolower (hd k) \<noteq> tolower (hd ''TO'')" using kw_hd [OF assms(4)] t by simp_all
    ultimately show False using ne ws_dead [OF assms(3)] by (metis words_of_keywords(12))
  qed
  then have "mat (Seq (Grp 1 wd) (Seq ws (Seq (ILit ''TO'') ?x))) c1 z1 = []"
    unfolding mat.simps(4) [of "Grp 1 wd"] by (auto simp del: mat.simps)
  with m(2) show False by simp
qed

lemma says_other:
  assumes "says c u" "k < order c" "blank pre" "blank post"
  shows "inert (patterns ! k) (pre @ u @ post)"
proof -
  let ?j = "order c"
  from assms(1) obtain h w where u: "u = h @ w" "body c w" and h: "heads (verbs ! ?j) (nouns ! ?j) h"
    by (auto elim: says.cases)
  from h obtain j1 t1 j2 t2 j3 where hh: "h = j1 @ t1 @ j2 @ t2 @ j3" "kw j1 (verbs ! ?j)" "spaces t1"
    "kw j2 ''ACCESS''" "spaces t2" "kw j3 (nouns ! ?j)" by (cases rule: heads.cases)
  have k: "k < 10" using assms(2) order_bound [of c] by simp
  have eq: "pre @ u @ post = pre @ j1 @ t1 @ j2 @ t2 @ j3 @ (w @ post)" using u(1) hh(1) by simp
  have noun: "lower (nouns ! ?j) \<noteq> ''access''"
  proof -
    have "list_all (\<lambda>w. lower w \<noteq> ''access'') nouns" "length nouns = 10" by code_simp+
    then show ?thesis using order_bound [of c] by (simp add: list_all_length)
  qed
  have calm: "calm 0 (j3 @ w @ post)"
    by (rule calm_kw [OF hh(6) _ noun body_safe [OF u(2) assms(4)]]) (use verbs_nouns [OF order_bound] in blast)
  have other: "(\<forall>p. lower (verbs ! ?j) \<noteq> p @ lower (verbs ! k)) \<or> tolower (hd (nouns ! k)) \<noteq> tolower (hd (nouns ! ?j))
      \<or> nouns ! k = nouns ! ?j \<and> (\<forall>c r. ends r \<longrightarrow> mat (rests ! k) c ((w @ post) @ r) = [])"
  proof -
    consider "k = 5 \<and> ?j = 6" | "k = 8 \<and> ?j = 9" | "\<not> (k = 5 \<and> ?j = 6)" "\<not> (k = 8 \<and> ?j = 9)" by blast
    then show ?thesis
    proof cases
      case 1
      then obtain fil where "c = ListRole fil" by (cases c) auto
      with u(2) have "filters fil w" by (auto elim: body.cases)
      with roles_not_bindings assms(4) 1 show ?thesis by (simp add: nouns_def)
    next
      case 2
      then obtain n who t q where "c = Unbind n who t q" by (cases c) auto
      with u(2) obtain s1 s2 k1 z where "w = s1 @ arg_text n @ s2 @ k1 @ z" "spaces s1" "ok_arg name n" "spaces s2"
        "kw k1 ''FROM''" by (auto elim!: body.cases)
      with unbind_not_bind [of s1 n s2 k1 _ "z @ post @ _"] 2 show ?thesis by (simp add: nouns_def)
    next
      case 3
      from different_keywords [OF assms(2) order_bound 3] show ?thesis by blast
    qed
  qed
  show ?thesis unfolding patterns_rests [OF k]
    by (rule other_inert [OF eq _ hh(2-6) calm _ _ _ _ _ other])
       (use assms(3) verbs_nouns [OF k] verbs_nouns [OF order_bound [of c]] in \<open>simp_all add: blank_def\<close>)
qed

lemma calm_pattern: "k < 10 \<Longrightarrow> calm a u \<Longrightarrow> inert (patterns ! k) u"
  using calm_inert verbs_nouns patterns_rests by metis

lemma says_sql_inert:
  assumes "says c u" "k < 10" "blank pre" "blank post"
  shows "inert (patterns ! k) (pre @ sql c @ post)"
proof -
  from assms(1) have "clean c" by (auto elim!: says.cases dest: body_clean)
  from calm_sql [OF this assms(4)] have "calm 0 (pre @ sql c @ post)"
    using assms(3) by (cases "pre = []") (simp_all add: calm_spaces spaces_def blank_def)
  then show ?thesis by (rule calm_pattern [OF assms(2)])
qed

end
