(* ===== verification/CommandScript.thy ===== *)
theory CommandScript
  imports CommandCalm
begin

text \<open>
  A query is statements between semicolons. The translation, eleven passes of rewriting over the whole
  text, is the translation of its statements one by one: each command is replaced by its SQL where it
  stands, everything else is left as it is, and a mismatched inheritance fails the query.
\<close>

section \<open>Rewriting a script\<close>

fun script :: "string list \<Rightarrow> string" where
  "script [] = []"
| "script [u] = u"
| "script (u # us) = u @ '';'' @ script us"

fun collect :: "('e + string) list \<Rightarrow> 'e + string list" where
  \<comment> \<open>all the results, or the first error\<close>
  "collect [] = Inr []"
| "collect (Inl e # os) = Inl e"
| "collect (Inr v # os) = (case collect os of Inl e \<Rightarrow> Inl e | Inr vs \<Rightarrow> Inr (v # vs))"

definition dead :: "rx \<Rightarrow> string \<Rightarrow> string \<Rightarrow> bool" where
  \<comment> \<open>no match begins in the text before the rest\<close>
  "dead re u r \<longleftrightarrow> (\<forall>p s. u = p @ s \<longrightarrow> s \<noteq> [] \<longrightarrow> mat re [] (s @ r) = [])"

inductive treats :: "rx \<Rightarrow> (caps \<Rightarrow> 'e + string) \<Rightarrow> string \<Rightarrow> 'e + string \<Rightarrow> bool" for re w where
  \<comment> \<open>what one pass does to one statement\<close>
  treats_inert: "inert re u \<Longrightarrow> treats re w u (Inr u)"
| treats_hit: "(\<And>r. dead re pre r) \<Longrightarrow> inert re post \<Longrightarrow>
     (\<And>r. ends r \<Longrightarrow> \<exists>c. leads re [] (u @ post @ r) c (post @ r) \<and> w c = out) \<Longrightarrow>
     treats re w (pre @ u @ post) (case out of Inl e \<Rightarrow> Inl e | Inr t \<Rightarrow> Inr (pre @ t @ post))"

lemma inert_dead: "inert re u \<Longrightarrow> ends r \<Longrightarrow> dead re u r"
  unfolding inert_def dead_def by blast

lemma search_dead:
  assumes "dead re u r"
  shows "regex_search re (u @ r) = map_option (\<lambda>m. m\<lparr>m_prefix := u @ m_prefix m\<rparr>) (regex_search re r)"
proof -
  have "u = p @ s \<Longrightarrow> regex_search re (s @ r) = map_option (\<lambda>m. m\<lparr>m_prefix := s @ m_prefix m\<rparr>) (regex_search re r)" for p s
  proof (induction s arbitrary: p)
    case Nil
    then show ?case by (cases "regex_search re r") simp_all
  next
    case (Cons x s)
    have "mat re [] ((x # s) @ r) = []" using assms Cons.prems unfolding dead_def by blast
    moreover have "regex_search re (s @ r) = map_option (\<lambda>m. m\<lparr>m_prefix := s @ m_prefix m\<rparr>) (regex_search re r)"
      using Cons.IH [of "p @ [x]"] Cons.prems by simp
    ultimately show ?case
      by (cases "regex_search re r") (simp_all add: regex_search_skip)
  qed
  from this [of "[]" u] show ?thesis by simp
qed

lemma rewrite_dead:
  assumes "consumes re" "dead re u r"
  shows "rewrite_all re (\<lambda>m. w (m_caps m)) (u @ r) =
    (case rewrite_all re (\<lambda>m. w (m_caps m)) r of Inl e \<Rightarrow> Inl e | Inr t \<Rightarrow> Inr (u @ t))"
proof (cases "regex_search re r")
  case None
  with search_dead [OF assms(2)] show ?thesis by (simp add: rewrite_all_none)
next
  case (Some m)
  with search_dead [OF assms(2)] have s: "regex_search re (u @ r) = Some (m\<lparr>m_prefix := u @ m_prefix m\<rparr>)" by simp
  show ?thesis
  proof (cases "w (m_caps m)")
    case (Inl e)
    with Some s show ?thesis by (simp add: rewrite_all_error)
  next
    case (Inr t)
    with rewrite_all_step [OF assms(1) Some, of "\<lambda>m. w (m_caps m)" t]
      rewrite_all_step [OF assms(1) s, of "\<lambda>m. w (m_caps m)" t] show ?thesis
      by (auto split: sum.splits)
  qed
qed

lemma rewrite_statement:
  assumes "consumes re" "treats re w u o'" "ends r"
  shows "rewrite_all re (\<lambda>m. w (m_caps m)) (u @ r) =
    (case o' of Inl e \<Rightarrow> Inl e | Inr v \<Rightarrow>
       (case rewrite_all re (\<lambda>m. w (m_caps m)) r of Inl e \<Rightarrow> Inl e | Inr t \<Rightarrow> Inr (v @ t)))"
  using assms(2)
proof cases
  case treats_inert
  with rewrite_dead [OF assms(1) inert_dead [OF _ assms(3)]] show ?thesis by simp
next
  case (treats_hit pre post u' out)
  from treats_hit(5) [OF assms(3)] obtain c
    where c: "leads re [] (u' @ post @ r) c (post @ r)" "w c = out" by blast
  have "rewrite_all re (\<lambda>m. w (m_caps m)) (u' @ post @ r) =
    (case out of Inl e \<Rightarrow> Inl e | Inr t \<Rightarrow>
       (case rewrite_all re (\<lambda>m. w (m_caps m)) r of Inl e \<Rightarrow> Inl e | Inr s \<Rightarrow> Inr (t @ post @ s)))"
    using rewrite_all_leads [OF assms(1) c(1), of "\<lambda>m. w (m_caps m)"] c(2)
      rewrite_dead [OF assms(1) inert_dead [OF treats_hit(4) assms(3)], of w]
    by (auto split: sum.splits)
  with rewrite_dead [OF assms(1) treats_hit(3), of w "u' @ post @ r"] treats_hit(1,2) show ?thesis
    by (auto split: sum.splits)
qed

lemma semicolon_dead: "inert re [] \<Longrightarrow> dead re '';'' r"
proof -
  assume "inert re []"
  then have "mat re [] ([] @ '';'' @ r) = []" unfolding inert_def ends_def by (metis append_Nil hd_append2 list.distinct(1) list.sel(1))
  moreover have "'';'' = p @ s \<Longrightarrow> s \<noteq> [] \<Longrightarrow> s = '';''" for p s :: string
    by (cases p) auto
  ultimately show ?thesis unfolding dead_def by (metis append_Nil)
qed

lemma collect_length: "collect os = Inr vs \<Longrightarrow> length vs = length os"
  by (induction os arbitrary: vs rule: collect.induct) (auto split: sum.splits)

lemma rewrite_script:
  assumes "consumes re" "inert re []" "list_all2 (treats re w) us os"
  shows "rewrite_all re (\<lambda>m. w (m_caps m)) (script us) = map_sum id script (collect os)"
  using assms(3)
proof (induction us os rule: list_all2_induct)
  case Nil
  have "mat re [] [] = []" using assms(2) by (auto simp: inert_def ends_def)
  then have "rewrite_all re h [] = Inr []" for h :: "smatch \<Rightarrow> 'a + string"
    by (intro rewrite_all_none) (simp add: regex_search.simps [of re "[]"])
  then show ?case by simp
next
  case (Cons u us o' os)
  show ?case
  proof (cases us)
    case Nil
    with Cons have [simp]: "os = []" by simp
    have "mat re [] [] = []" using assms(2) by (auto simp: inert_def ends_def)
    then have "rewrite_all re h [] = Inr []" for h :: "smatch \<Rightarrow> 'a + string"
      by (intro rewrite_all_none) (simp add: regex_search.simps [of re "[]"])
    with rewrite_statement [OF assms(1) Cons.hyps(1), of "[]"] Nil show ?thesis
      by (cases o') (simp_all add: ends_def)
  next
    case (Cons u' us')
    have ne: "script (v # vs) = v @ '';'' @ script vs" if "length vs = length us" for v vs
      using that Cons by (cases vs) simp_all
    have len: "length vs = length us" if "collect os = Inr vs" for vs
      using collect_length [OF that] Cons.hyps(2) list_all2_lengthD by metis
    let ?R = "rewrite_all re (\<lambda>m. w (m_caps m))"
    have e: "ends ('';'' @ script us)" by (simp add: ends_def)
    have semi: "?R ('';'' @ script us) = (case ?R (script us) of Inl e \<Rightarrow> Inl e | Inr t \<Rightarrow> Inr ('';'' @ t))"
      by (rule rewrite_dead [OF assms(1) semicolon_dead [OF assms(2)]])
    have all: "?R (script (u # us)) = (case o' of Inl e \<Rightarrow> Inl e | Inr v \<Rightarrow>
       (case ?R ('';'' @ script us) of Inl e \<Rightarrow> Inl e | Inr t \<Rightarrow> Inr (v @ t)))"
      unfolding ne [OF refl] by (rule rewrite_statement [OF assms(1) Cons.hyps(1) e])
    show ?thesis
    proof (cases o')
      case (Inl e)
      with all show ?thesis by simp
    next
      case (Inr v)
      show ?thesis
      proof (cases "collect os")
        case (Inl e)
        with all semi Cons.IH \<open>o' = Inr v\<close> show ?thesis by simp
      next
        case (Inr vs)
        have "?R (script us) = Inr (script vs)" using Cons.IH Inr by simp
        then have "?R (script (u # us)) = Inr (script (v # vs))"
          unfolding all semi ne [OF len [OF Inr]] \<open>o' = Inr v\<close> by simp
        with Inr \<open>o' = Inr v\<close> show ?thesis by simp
      qed
    qed
  qed
qed


section \<open>Statements\<close>

datatype statement =
    Plain string
  | Command string command string  \<comment> \<open>with the white space around it\<close>

inductive written :: "statement \<Rightarrow> string \<Rightarrow> bool" where
  \<comment> \<open>the text of a statement; a plain one has no word ACCESS between white space\<close>
  w_plain: "calm 0 u \<Longrightarrow> written (Plain u) u"
| w_command: "blank pre \<Longrightarrow> says c u \<Longrightarrow> blank post \<Longrightarrow> written (Command pre c post) (pre @ u @ post)"

fun translation :: "statement \<Rightarrow> string" where
  "translation (Plain u) = u"
| "translation (Command pre c post) = pre @ sql c @ post"

fun fails :: "statement \<Rightarrow> bool" where
  "fails (Plain u) = False"
| "fails (Command pre c post) = mismatched c"

fun before :: "nat \<Rightarrow> statement \<Rightarrow> string \<Rightarrow> string" where
  \<comment> \<open>the text of a statement before a pass\<close>
  "before k (Plain v) u = u"
| "before k (Command pre c post) u = (if order c < k then pre @ sql c @ post else u)"

lemma mismatched_order: "mismatched c \<Longrightarrow> order c = 3"
  by (cases c) simp_all

lemma blank_dead: "word v \<Longrightarrow> blank pre \<Longrightarrow> dead (command_rx v n re) pre r"
proof -
  assume v: "word v" and p: "blank pre"
  have "mat (command_rx v n re) [] (s @ r) = []" if s: "pre = q @ s" "s \<noteq> []" for q s
  proof -
    have "\<not> starts is_word (s @ r)" using p s word_not_space by (cases s) (auto simp: blank_def list_all_iff)
    then show ?thesis unfolding command_rx_def by (intro mat_Seq_stop mat_ILit_stop v)
  qed
  then show ?thesis by (auto simp: dead_def)
qed

lemma blank_calm: "blank s \<Longrightarrow> calm 0 s"
  by (intro safe_calm safe_blank)

lemma treats_statement:
  assumes "written st u" "k < 10"
  shows "treats (patterns ! k) (writers file ! k) (before k st u)
    (if k = 3 \<and> fails st then Inl (inheritance_error file) else Inr (before (Suc k) st u))"
  using assms(1)
proof cases
  case w_plain
  then show ?thesis using calm_pattern [OF assms(2)] by (auto intro: treats_inert)
next
  case (w_command pre c v post)
  consider "order c < k" | "order c = k" | "k < order c" by linarith
  then show ?thesis
  proof cases
    case 1
    then have "\<not> (k = 3 \<and> mismatched c)" using mismatched_order by fastforce
    with 1 says_sql_inert [OF w_command(4) assms(2) w_command(3,5)] w_command show ?thesis
      by (auto intro!: treats_inert)
  next
    case 3
    then have "\<not> (k = 3 \<and> mismatched c)" using mismatched_order by fastforce
    with 3 says_other [OF w_command(4) 3 w_command(3,5)] w_command show ?thesis
      by (auto intro!: treats_inert)
  next
    case 2
    have "treats (patterns ! k) (writers file ! k) (pre @ v @ post)
        (case outcome file c of Inl e \<Rightarrow> Inl e | Inr t \<Rightarrow> Inr (pre @ t @ post))"
    proof (rule treats_hit)
      show "dead (patterns ! k) pre r" for r
        unfolding patterns_rests [OF assms(2)] using verbs_nouns [OF assms(2)] w_command(3) by (intro blank_dead) simp_all
      show "inert (patterns ! k) post" using w_command(5) by (intro calm_pattern [OF assms(2) blank_calm])
      show "\<exists>ca. leads (patterns ! k) [] (v @ post @ r) ca (post @ r) \<and> (writers file ! k) ca = outcome file c"
        if "ends r" for r
        using says_hit [OF w_command(4) closing_join [OF w_command(5) that], of "file"] 2 by simp
    qed
    moreover have "(case outcome file c of Inl e \<Rightarrow> Inl e | Inr t \<Rightarrow> Inr (pre @ t @ post))
        = (if k = 3 \<and> mismatched c then Inl (inheritance_error file) else Inr (pre @ sql c @ post))"
      using 2 mismatched_order [of c] by (auto simp: outcome_def)
    ultimately have "treats (patterns ! k) (writers file ! k) (pre @ v @ post)
        (if k = 3 \<and> mismatched c then Inl (inheritance_error file) else Inr (pre @ sql c @ post))"
      by (simp only:)
    then show ?thesis using w_command(1,2) 2 by (simp only: fails.simps before.simps less_irrefl if_False lessI if_True)
  qed
qed

lemma collect_statements:
  "length sts = length us \<Longrightarrow>
   collect (map2 (\<lambda>st u. if b st then Inl e else Inr (f st u)) sts us)
     = (if list_ex b sts then Inl e else Inr (map2 f sts us))"
  by (induction sts us rule: list_induct2) auto

lemma pattern_consumes: "k < 10 \<Longrightarrow> consumes (patterns ! k)"
proof -
  have "list_all consumes patterns" "length patterns = 10" by (simp_all add: patterns_def)
  then show "k < 10 \<Longrightarrow> consumes (patterns ! k)" by (simp add: list_all_length)
qed

lemma pass_script:
  assumes "list_all2 written sts us" "k < 10"
  shows "pass file k (script (map2 (before k) sts us))
    = (if k = 3 \<and> list_ex fails sts then ([], inheritance_error file)
       else (script (map2 (before (Suc k)) sts us), NoError))"
proof -
  let ?o = "\<lambda>st u. if k = 3 \<and> fails st then Inl (inheritance_error file) else Inr (before (Suc k) st u)"
  from assms(1) have "list_all2 (treats (patterns ! k) (writers file ! k)) (map2 (before k) sts us) (map2 ?o sts us)"
    by (induction rule: list_all2_induct) (simp_all add: treats_statement [OF _ assms(2)] del: before.simps)
  from rewrite_script [OF pattern_consumes [OF assms(2)] calm_pattern [OF assms(2), of 0] this]
  have "rewrite_all (patterns ! k) (\<lambda>m. (writers file ! k) (m_caps m)) (script (map2 (before k) sts us))
      = map_sum id script (collect (map2 ?o sts us))" by simp
  also have "collect (map2 ?o sts us)
      = (if list_ex (\<lambda>st. k = 3 \<and> fails st) sts then Inl (inheritance_error file) else Inr (map2 (before (Suc k)) sts us))"
    by (rule collect_statements [OF list_all2_lengthD [OF assms(1)]])
  also have "list_ex (\<lambda>st. k = 3 \<and> fails st) sts \<longleftrightarrow> k = 3 \<and> list_ex fails sts"
    by (auto simp: list_ex_iff)
  finally show ?thesis by (simp add: pass_def)
qed

lemma before_first: "list_all2 written sts us \<Longrightarrow> map2 (before 0) sts us = us"
  by (induction rule: list_all2_induct) (auto elim: written.cases)

lemma before_last: "list_all2 written sts us \<Longrightarrow> map2 (before 10) sts us = map translation sts"
  by (induction rule: list_all2_induct) (auto elim!: written.cases simp: order_bound)

lemma passes_script:
  assumes "list_all2 written sts us"
  shows "passes file query [0, 1, 2, 3, 4, 5, 6, 7, 8, 9] (script us)
    = (if list_ex fails sts then (query, inheritance_error file) else (script (map translation sts), NoError))"
proof -
  have go: "pass file k (script (map2 (before k) sts us)) = (script (map2 (before (Suc k)) sts us), NoError)"
    if "k < 10" "k \<noteq> 3 \<or> \<not> list_ex fails sts" for k
    using pass_script [OF assms that(1)] that(2) by auto
  note n = go [of 0] go [of 1] go [of 2] go [of 3] go [of 4] go [of 5] go [of 6] go [of 7] go [of 8] go [of 9]
  have first: "passes file query [0, 1, 2, 3, 4, 5, 6, 7, 8, 9] (script us)
      = passes file query [3, 4, 5, 6, 7, 8, 9] (script (map2 (before 3) sts us))"
    using n(1-3) before_first [OF assms] by (simp add: eval_nat_numeral)
  show ?thesis
  proof (cases "list_ex fails sts")
    case True
    with pass_script [OF assms, of 3 "file"] have "pass file 3 (script (map2 (before 3) sts us)) = ([], inheritance_error file)"
      by simp
    with True show ?thesis unfolding first by (simp add: Error_bool_inheritance_error)
  next
    case False
    have "passes file query [3, 4, 5, 6, 7, 8, 9] (script (map2 (before 3) sts us))
        = (script (map2 (before 10) sts us), NoError)"
      using n(4-10) False by (simp add: eval_nat_numeral)
    with False show ?thesis unfolding first before_last [OF assms] by simp
  qed
qed

lemma Translate_statements:
  assumes "list_all2 written sts us" "NUL \<notin> set (script us)" "\<not> icontains (script us) ''--''" "\<not> icontains (script us) ''/*''"
  shows "Translate file (script us)
    = (if list_ex fails sts then (script us, inheritance_error file) else (script (map translation sts), NoError))"
  unfolding Translate_passes cstr_no_NUL [OF assms(2)] RemoveComments_none [OF assms(3,4)] fst_conv
  by (rule passes_script [OF assms(1)])


section \<open>The translation of a query\<close>

text \<open>C4. A query of statements between semicolons, each a text of a command (its keywords in any case, any
  white space between its parts) or plain, with no NUL and no comment, is translated statement by
  statement: the eleven passes over the text replace every command by the SQL it stands for and leave
  everything else, the white space around the commands and the semicolons included, as it is; when the
  column lists of some inheritance differ in length, the whole query comes back as it was, with the
  error.\<close>
theorem Translate_script:
  assumes "list_all2 written sts us" "NUL \<notin> set (script us)" "\<not> icontains (script us) ''--''" "\<not> icontains (script us) ''/*''"
  shows "Translate file (script us)
    = (if list_ex fails sts then (script us, inheritance_error file) else (script (map translation sts), NoError))"
  by (rule Translate_statements [OF assms])

lemma written_enable: "written (Command [] (Enable ''docs'') '' '') ([] @ ((''Enable'' @ '' '' @ ''access'' @ ''  '' @ ''CONTROL'') @ '' '' @ ''docs'') @ '' '')"
proof -
  have "heads (verbs ! order (Enable ''docs'')) (nouns ! order (Enable ''docs'')) (''Enable'' @ '' '' @ ''access'' @ ''  '' @ ''CONTROL'')"
    by (rule heads_intro; code_simp)
  moreover have "body (Enable ''docs'') ('' '' @ ''docs'')" by (rule b_enable; code_simp)
  ultimately show ?thesis by (intro w_command says_intro) (simp_all add: blank_def, code_simp?)
qed

lemma written_list: "written (Command '' '' (ListRole (WithAll ''Read'' [('' '', ''edit'')])) [])
    ('' '' @ ((''list'' @ '' '' @ ''access'' @ '' '' @ ''role'') @ '' '' @ ''with'' @ '' '' @ ''all'' @ [] @ ''('' @ ''Read'' @ names_tail [('' '', ''edit'')] @ '')'') @ [])"
proof -
  let ?c = "ListRole (WithAll ''Read'' [('' '', ''edit'')])"
  have "heads (verbs ! order ?c) (nouns ! order ?c) (''list'' @ '' '' @ ''access'' @ '' '' @ ''role'')"
    by (rule heads_intro; code_simp)
  moreover have "body ?c ('' '' @ ''with'' @ '' '' @ ''all'' @ [] @ ''('' @ ''Read'' @ names_tail [('' '', ''edit'')] @ '')'')"
    by (rule b_roles, rule f_all; code_simp)
  ultimately show ?thesis by (intro w_command says_intro) (simp_all add: blank_def, code_simp?)
qed

lemma Translate_script_witness:
  "Translate ''f.cpp'' (script [[] @ ((''Enable'' @ '' '' @ ''access'' @ ''  '' @ ''CONTROL'') @ '' '' @ ''docs'') @ '' '',
       '' SELECT access_level FROM log'',
       '' '' @ ((''list'' @ '' '' @ ''access'' @ '' '' @ ''role'') @ '' '' @ ''with'' @ '' '' @ ''all'' @ [] @ ''('' @ ''Read'' @ names_tail [('' '', ''edit'')] @ '')'') @ []])
   = (script [sql_enable ''docs'' @ '' '', '' SELECT access_level FROM log'',
       '' SELECT * FROM __access_roles__ WHERE _permissions @> ARRAY['' @ quoted ''read'' @ '', '' @ quoted ''edit'' @ '']''], NoError)"
  (is "_ = ?r")
proof -
  let ?sts = "[Command [] (Enable ''docs'') '' '', Plain '' SELECT access_level FROM log'',
    Command '' '' (ListRole (WithAll ''Read'' [('' '', ''edit'')])) []]"
  have p: "written (Plain '' SELECT access_level FROM log'') '' SELECT access_level FROM log''"
    by (intro w_plain) code_simp
  have l: "lower ''Read'' = ''read''" "lower ''edit'' = ''edit''" by code_simp+
  have r: "(if list_ex fails ?sts then (u, inheritance_error ''f.cpp'') else (script (map translation ?sts), NoError)) = ?r" for u
    by (simp add: quoted_names_def lower_names_def l)
  have w: "list_all2 written ?sts us" if "us = [a, b, c]" "written (?sts ! 0) a" "written (?sts ! 1) b" "written (?sts ! 2) c" for us a b c
    using that by simp
  show ?thesis
    by (rule trans [OF Translate_script r]; ((rule w [OF refl]; simp only: nth_Cons_0 nth_Cons_Suc One_nat_def numeral_2_eq_2; rule written_enable p written_list) | (subst icontains_finds)?, code_simp))
qed

end
