(* ===== verification/CommandExchange.thy ===== *)
theory CommandExchange
  imports QueryExchange CommandScript
begin

text \<open>
  Commands on their way through a session: what the command language of \<open>CommandLanguage\<close> promises, from
  the bytes a client sends to the bytes the server is sent.
\<close>

section \<open>Queries the plug-ins let pass\<close>

definition harmless :: "json \<Rightarrow> bool" where
  \<comment> \<open>nothing is dropped or set, and the first table created, if any, is that of the bindings of a relation\<close>
  "harmless j \<longleftrightarrow> ''DropStmt'' \<notin> set (keys_of j) \<and> ''VariableSetStmt'' \<notin> set (keys_of j)
     \<and> (''CreateStmt'' \<in> set (keys_of j) \<longrightarrow> (\<exists>t els. create_table (t @ ''__access_bindings__'') els j
          \<and> node_at (first_statement ''CreateStmt'' @ [Key ''if_not_exists'']) j = None))"

lemma ensure_plugin_bindings:
  assumes "create_table t els (query_json s)" "ends_with t ''__access_bindings__''"
  shows "EnsureNewTableHasIdPlugIn env s = (s, Ret NoError)"
proof (cases "Query_bool (c_query (ctx s))")
  case True
  let ?n = "first_statement ''CreateStmt''"
  from assms(1) obtain cs rel r1 r2 r3 where j: "json_wf (query_json s)" "query_json s = statement ''CreateStmt'' (JObj cs) r1 r2 r3"
    "map_of cs ''relation'' = Some (JObj rel)" "map_of rel ''relname'' = Some (JStr t)" unfolding create_table_def by blast
  have find: "FindNode (query_json s) ''CreateStmt'' = Some ?n" unfolding j(2) by (rule FindNode_CreateStmt)
  have n: "node_at ?n (query_json s) = Some (JObj cs)" by (simp add: j(2))
  have "touch_json (?n @ [Key ''relation'', Key ''relname'']) s = (s, Ret (JStr t))"
    by (rule touch_there [OF j(1)]) (use j(3,4) in \<open>simp add: node_at_append n\<close>)
  with find True assms(2) show ?thesis by (simp add: EnsureNewTableHasIdPlugIn_def)
qed (simp add: ensure_plugin_none)

lemma harmless_ensure: "harmless (query_json s) \<Longrightarrow> EnsureNewTableHasIdPlugIn env s = (s, Ret NoError)"
  using ensure_plugin_bindings [of _ _ s env] ensure_plugin_none [of s env] unfolding harmless_def by fastforce

lemma harmless_quiet:
  assumes "harmless (query_json s)" "st s = Some tr"
  shows "quiet s"
proof (rule quietI)
  fix env and s' :: Session
  assume s': "c_query (ctx s') = c_query (ctx s)" "st s' = st s" "buf (c_response (ctx s')) \<noteq> []"
  then have j: "query_json s' = query_json s" by (simp add: query_json_def)
  have "UpdateSchemaPlugIn env s' = (s', Ret NoError)"
  proof (cases "completed s' \<and> ''CreateStmt'' \<in> set (keys_of (query_json s'))")
    case True
    with assms(1) j obtain t els where c: "create_table (t @ ''__access_bindings__'') els (query_json s')"
      "node_at (first_statement ''CreateStmt'' @ [Key ''if_not_exists'']) (query_json s') = None"
      unfolding harmless_def by auto
    have "UpdateSchemaPlugIn env s' = (s'\<lparr>st := Some (AddRelName tr (t @ ''__access_bindings__''))\<rparr>, Ret NoError)"
      by (rule update_schema_plugin [OF c(1)]) (use True c(2) s'(2) assms(2) in auto)
    then show ?thesis using s'(2) assms(2) by (simp add: AddRelName_def)
  next
    case False
    with s'(3) show ?thesis
      by (auto simp: UpdateSchemaPlugIn_def completed_def byte_at_def FindNode_None(1) [symmetric])
  qed
  with assms(1) j update_parameters_none [of s' env]
  show "UpdateParametersPlugIn env s' = (s', Ret NoError) \<and> UpdateSchemaPlugIn env s' = (s', Ret NoError)"
    by (simp add: harmless_def)
qed

lemma superuser_steps:
  assumes "query_request text s" "Translate (e_proxy_file env) text = (t, NoError)"
    "smap_get (parameters s) ''rolsuper'' = ''t''" "st s = Some tr"
    "(\<exists>err. e_pg_parse env (cstr t) = Inl err) \<or> (\<exists>j. e_pg_parse env (cstr t) = Inr (Ret j) \<and> harmless j)"
  shows "\<exists>s'. ApplyPreRequestPlugins env s = Ret (Some PREPARE_TO_FORWARD_REQUEST, s')
     \<and> request_of s' = SetQuery Buffer_new t \<and> quiet s' \<and> frame s s'"
proof -
  from assms(5) obtain q e where q: "Parse (e_pg_parse env) (cstr t) = Ret (q, e)" "Query_bool q \<longrightarrow> harmless (q_json q)"
    by (auto simp: Parse_def)
  let ?s1 = "set_query q (set_request (SetQuery (request_of s) t) s)"
  let ?s2 = "?s1\<lparr>parameters := smap_touch (parameters s) ''rolsuper''\<rparr>"
  note steps = pre_request_steps [OF assms(1,2) q(1)]
  have "AclQueryPlugIn env ?s1 = (?s2, Ret NoError)" using assms(3) by (simp add: acl_plugin_skip)
  moreover have "DropTablePlugIn env ?s2 = (?s2, Ret NoError)" "EnsureNewTableHasIdPlugIn env ?s2 = (?s2, Ret NoError)"
    using q(2) harmless_ensure [of ?s2 env] by (auto simp: drop_plugin_none harmless_def ensure_plugin_none)
  ultimately have "apply_pre pre_request_plugins env s = (?s2, Ret NoError)"
    unfolding steps by (simp add: RestrictInternalTableAccessPlugIn_def)
  from apply_pre_act [OF this] have "ApplyPreRequestPlugins env s = Ret (Some PREPARE_TO_FORWARD_REQUEST, ?s2)" by simp
  moreover have "request_of ?s2 = SetQuery Buffer_new t" by simp (rule SetQuery_any)
  moreover have "quiet ?s2"
    using q(2) harmless_quiet [of ?s2 tr] quiet_none [of ?s2] assms(4) by (cases "Query_bool q") auto
  ultimately show ?thesis by (intro exI [of _ ?s2]) simp
qed

section \<open>Commands from the client to the server\<close>


section \<open>A concrete command\<close>

definition sample_bindings :: json where
  "sample_bindings = statement ''CreateStmt'' (JObj
     [(''relation'', JObj [(''relname'', JStr (''docs'' @ ''__access_bindings__''))]),
      (''tableElts'', JArr [JObj [(''ColumnDef'', JObj [(''colname'', JStr ''_id'')])]])]) [] [] []"

lemma sample_bindings_harmless: "harmless sample_bindings"
proof -
  have "json_wf sample_bindings" by code_simp
  then have "create_table (''docs'' @ ''__access_bindings__'') [Column ''_id'' []] sample_bindings"
    unfolding create_table_def by (simp only: sample_bindings_def simp_thms) fastforce
  moreover have "''DropStmt'' \<notin> set (keys_of sample_bindings)" "''VariableSetStmt'' \<notin> set (keys_of sample_bindings)"
    "node_at (first_statement ''CreateStmt'' @ [Key ''if_not_exists'']) sample_bindings = None" by code_simp+
  ultimately show ?thesis unfolding harmless_def by blast
qed

definition sample_admin :: Session where
  "sample_admin = sample_user\<lparr>parameters := [(''rolsuper'', ''t'')]\<rparr>"

definition enable_text :: string where
  "enable_text = [] @ ((''Enable'' @ '' '' @ ''access'' @ ''  '' @ ''CONTROL'') @ '' '' @ ''docs'') @ '' ''"

definition enable_message :: string where
  "enable_message = buf (SetQuery Buffer_new enable_text)"


end
