(* ===== verification/Fragments.thy ===== *)
theory Fragments
  imports QueryExchange
begin

text \<open>
  What the session makes of messages that arrive in parts: it has no notion of a message, only of what one
  call of \<open>RecvFrom\<close> found.
\<close>

section \<open>A request in two parts\<close>

lemma read_query_wire:
  assumes "read_query d = Some text"
  shows "drop 5 d = text @ [NUL]" "length d = length text + 6" "NUL \<notin> set text"
proof -
  from assms obtain r where d: "d = CHR ''Q'' # r" "rd32 r \<noteq> None" "NUL \<in> set (drop 4 r)" "cstr (drop 4 r) = text" "length text = length r - 5"
    by (cases d) (auto split: if_splits)
  let ?P = "\<lambda>c. c \<noteq> NUL"
  have t: "text = takeWhile ?P (drop 4 r)" using d(4) by (simp add: cstr_def)
  have "dropWhile ?P (drop 4 r) \<noteq> []" using d(3) by (auto simp: dropWhile_eq_Nil_conv)
  then obtain ys where y: "dropWhile ?P (drop 4 r) = NUL # ys"
    using hd_dropWhile [of ?P "drop 4 r"] by (cases "dropWhile ?P (drop 4 r)") auto
  have s: "drop 4 r = text @ NUL # ys" using y t takeWhile_dropWhile_id [of ?P "drop 4 r"] by simp
  have "4 \<le> length r" using d(3) by (metis drop_all empty_iff linear list.set(1))
  then have "length r = 4 + length (drop 4 r)" by simp
  then have "length r = 5 + length text + length ys" using s by simp
  with d(5) have "length ys = 0" by arith
  then have "ys = []" by simp
  with s d(1) show "drop 5 d = text @ [NUL]" by simp
  have "length r = length text + 5" using \<open>length r = 5 + length text + length ys\<close> \<open>ys = []\<close> by simp
  with d(1) show "length d = length text + 6" by simp
  show "NUL \<notin> set text" using set_takeWhileD [of NUL ?P "drop 4 r"] t by auto
qed

lemma first_part:
  assumes "buf_big b" "content b = take k d" "read_query d = Some text" "5 \<le> k" "k < length d"
  shows "byte_at (buf b) 0 = Ret (CHR ''Q'')" "cstr_at (buf b) 5 = Ret (take (k - 5) text)"
proof -
  note w = read_query_wire [OF assms(3)] and r = read_query_received [OF assms(3)]
  have ok: "buf_ok b" using assms(1) by (simp add: buf_big_def)
  have "hd (take k d) = CHR ''Q''" "take k d \<noteq> []" using r(1,2) assms(4) by (cases d; cases k; simp)+
  with first_byte [OF assms(2)] show "byte_at (buf b) 0 = Ret (CHR ''Q'')" by (simp add: byte_at_def)
  obtain m where m: "buf b = take k d @ replicate m NUL" "0 < m"
  proof
    show "buf b = take k d @ replicate (2 * buf_size b - data_size b) NUL"
      using ok append_take_drop_id [of "data_size b" "buf b"] assms(2) by (simp add: buf_ok_def content_def)
    show "0 < 2 * buf_size b - data_size b" using ok by (simp add: buf_ok_def)
  qed
  then obtain m' where m': "replicate m NUL = NUL # replicate m' NUL" by (cases m) auto
  have "take (k - 5) (drop 5 d) = take (k - 5) text" using w(1,2) assms(5) by simp
  then have "drop 5 (buf b) = take (k - 5) text @ NUL # replicate m' NUL"
    using m(1) m' assms(4,5) by (simp add: drop_take)
  moreover have "NUL \<notin> set (take (k - 5) text)" using w(3) set_take_subset by fastforce
  ultimately show "cstr_at (buf b) 5 = Ret (take (k - 5) text)" by (simp add: cstr_at_def)
qed

text \<open>C17. A simple query whose bytes are not all there when the session receives is not waited for: the plug-ins see
  the part that has arrived as a whole query, with its text cut off, whatever comes later; and when the rest
  is received as the next request, it goes to the server byte for byte, unseen, unless it begins with the
  letter of a simple query.\<close>
theorem split_request_truncated:
  assumes "read_query d = Some text" "length d < 2 ^ 31" "5 \<le> k" "k < length d"
    "idle s" "pieces (e_sock e2) (take k d)"
    "idle s'" "pieces (e_sock f2) (drop k d)" "hd (drop k d) \<noteq> CHR ''Q''"
  shows "(\<exists>s2. take_actions session_action [e1, e2] (SetInitialState PREPARE_TO_RECEIVE_REQUEST) s
        = Ret (SetInitialState APPLY_PRE_REQUEST_PLUGINS, s2) \<and> query_request (take (k - 5) text) s2)
    \<and> (\<exists>s4. take_actions session_action [f1, f2, f3, f4] (SetInitialState PREPARE_TO_RECEIVE_REQUEST) s'
        = Ret (SetInitialState FORWARD_REQUEST, s4)
        \<and> SendTo (request_of s4) (SendOk (length d - k)) = (int (length d - k), drop k d))"
proof
  have p: "take k d \<noteq> []" "length (take k d) < 2 ^ 31" using assms(2-4) by auto
  from idle_received [OF assms(5,6) p, of e1] obtain b s2
    where s2: "take_actions session_action [e1, e2] (SetInitialState PREPARE_TO_RECEIVE_REQUEST) s
        = Ret (SetInitialState APPLY_PRE_REQUEST_PLUGINS, s2)" "request_of s2 = b" "content b = take k d" "buf_big b" by metis
  from first_part [OF s2(4,3) assms(1,3,4)] s2(1,2)
  show "\<exists>s2. take_actions session_action [e1, e2] (SetInitialState PREPARE_TO_RECEIVE_REQUEST) s
        = Ret (SetInitialState APPLY_PRE_REQUEST_PLUGINS, s2) \<and> query_request (take (k - 5) text) s2"
    unfolding query_request_def by blast
  have q: "drop k d \<noteq> []" "length (drop k d) < 2 ^ 31" using assms(2,4) by auto
  from request_half [OF assms(7) [unfolded idle_def] assms(8) q(1) assms(9) q(2), of f1 f3 f4]
  show "\<exists>s4. take_actions session_action [f1, f2, f3, f4] (SetInitialState PREPARE_TO_RECEIVE_REQUEST) s'
        = Ret (SetInitialState FORWARD_REQUEST, s4)
        \<and> SendTo (request_of s4) (SendOk (length d - k)) = (int (length d - k), drop k d)"
    by (metis length_drop)
qed

section \<open>A response that stays in parts\<close>

lemma receive_eof:
  assumes "buf_big b" "data_size b < 2 ^ 31"
  shows "RecvFrom b [Eof] = Ret (b, int (data_size b), None, [Eof])"
proof -
  have "prepare b = b" using assms(1) by (simp add: prepare_def buf_big_def buf_ok_def)
  then show ?thesis using assms(2) by (simp add: RecvFrom_def recv_loop.simps)
qed

lemma eof_unfinished:
  assumes "e_sock e = [Eof]" "buf_big (c_response (ctx s))" "unfinished (content (c_response (ctx s)))"
    "length (content (c_response (ctx s))) < 2 ^ 31" "c_initiated (ctx s)"
  shows "session_action e RECEIVE_RESPONSE s = Ret (Some RECEIVE_RESPONSE, s)"
proof -
  let ?b = "c_response (ctx s)" and ?p = "content (c_response (ctx s))"
  have u: "response_start ?p" "6 \<le> length ?p" "hd ?p \<noteq> CHR ''R''" "\<not> ends_ready ?p"
    using assms(3) by (simp_all add: unfinished_def)
  have n: "data_size ?b = length ?p" using assms(2) buf_ok_content by (simp add: buf_big_def)
  have ne: "?p \<noteq> []" "0 < int (data_size ?b)" using u(2) n by auto
  have "data_size ?b \<le> length (buf ?b)" using assms(2) by (simp add: buf_big_def buf_ok_def)
  from ready_for_query_content [OF refl n this u(2), of True] u(3,4)
  have "ready_for_query True (buf ?b) (data_size ?b) = Ret False" by (simp only: n) simp
  moreover have "PrintInfo BACKEND (buf ?b) (data_size ?b) = Ret ()"
    using response_logged [OF assms(2) refl n u(1) ne(1)] by (simp only: n)
  moreover have "RecvFrom ?b [Eof] = Ret (?b, int (data_size ?b), None, [Eof])"
    by (rule receive_eof [OF assms(2)]) (use assms(4) n in simp)
  moreover have "set_response ?b s = s" by (simp add: set_response_def)
  ultimately show ?thesis using assms(1,5) ne(2) by (simp add: session_action_def ReceiveResponse_def Let_def)
qed

text \<open>C19. When the server closes its connection in the middle of a response, the session never ends: each event of
  the closed socket, which is always readable, brings it back to the same state, still waiting for that
  socket, with the same part of the response, and the client gets neither an answer nor the end of its
  connection.\<close>
theorem closed_server_spins:
  assumes "\<forall>e \<in> set es. e_sock e = [Eof]" "sess_inv (Some RECEIVE_RESPONSE) s" "c_initiated (ctx s)"
    "unfinished (content (c_response (ctx s)))" "length (content (c_response (ctx s))) < 2 ^ 31"
  shows "take_actions session_action es (SetInitialState RECEIVE_RESPONSE) s = Ret (SetInitialState RECEIVE_RESPONSE, s)
    \<and> IsWaiting s \<and> GetEpollEvent s = \<lparr>ev_fd = sv_socket s, ev_events = EPOLLIN\<rparr>"
proof -
  from assms(2) have inv: "buf_big (c_response (ctx s))" "IsWaiting s" "GetEpollEvent s = \<lparr>ev_fd = sv_socket s, ev_events = EPOLLIN\<rparr>"
    by (auto simp: sess_inv.simps inv_defs)
  have "take_actions session_action es (SetInitialState RECEIVE_RESPONSE) s = Ret (SetInitialState RECEIVE_RESPONSE, s)"
    using assms(1)
  proof (induction es)
    case (Cons e es)
    have "session_action e RECEIVE_RESPONSE s = Ret (Some RECEIVE_RESPONSE, s)"
      by (rule eof_unfinished) (use Cons.prems inv(1) assms(3-5) in simp_all)
    from run_next(1) [OF this] Cons show ?case by simp
  qed simp
  with inv(2,3) show ?thesis by blast
qed

section \<open>Concrete fragments\<close>

lemma split_request_truncated_witness:
  "\<exists>s2. take_actions session_action [sample_env, sample_env\<lparr>e_sock := [Bytes (take 10 sample_query)]\<rparr>]
        (SetInitialState PREPARE_TO_RECEIVE_REQUEST) sample_user = Ret (SetInitialState APPLY_PRE_REQUEST_PLUGINS, s2)
     \<and> query_request ''SELEC'' s2"
proof -
  have ne: "take 10 sample_query \<noteq> []" "drop 10 sample_query \<noteq> []" by simp_all
  have "hd (drop 10 sample_query) \<noteq> CHR ''Q''" by (simp add: sample_query_def SetQuery_def be32_def)
  with split_request_truncated [of sample_query "''SELECT 1''" 10 sample_user "sample_env\<lparr>e_sock := [Bytes (take 10 sample_query)]\<rparr>"
      sample_user "sample_env\<lparr>e_sock := [Bytes (drop 10 sample_query)]\<rparr>" sample_env] pieces_one [OF ne(1)] pieces_one [OF ne(2)]
  show ?thesis by simp
qed

definition sample_waiting :: Session where
  \<comment> \<open>a session that has received the beginning of a response\<close>
  "sample_waiting = wait_for 4 EPOLLIN (set_response (sample_buffer ''Dxyzxyz'') sample_user)"

lemma closed_server_spins_witness:
  "take_actions session_action (replicate 1000 (sample_env\<lparr>e_sock := [Eof]\<rparr>)) (SetInitialState RECEIVE_RESPONSE) sample_waiting
     = Ret (SetInitialState RECEIVE_RESPONSE, sample_waiting)"
proof -
  have b: "buf_big (sample_buffer ''Dxyzxyz'')" by (rule sample_buffer_big) simp
  have c: "content (sample_buffer ''Dxyzxyz'') = ''Dxyzxyz''" by (simp add: content_def sample_buffer_def)
  have r: "c_response (ctx sample_waiting) = sample_buffer ''Dxyzxyz''" "c_initiated (ctx sample_waiting)"
    by (simp_all add: sample_waiting_def wait_for_def set_response_def sample_user_def sample_idle_def)
  have "sess_inv (Some RECEIVE_RESPONSE) sample_waiting"
    using b by (simp add: sess_inv.simps inv_defs r)
      (simp add: sample_waiting_def wait_for_def set_response_def sample_user_def sample_idle_def Session_new_def Context_new_def)
  moreover have "unfinished ''Dxyzxyz''" by (simp add: unfinished_def response_start_def ends_ready_def)
  ultimately show ?thesis
    using closed_server_spins [of "replicate 1000 (sample_env\<lparr>e_sock := [Eof]\<rparr>)" sample_waiting]
    by (simp add: r c del: take_actions.simps)
qed

end
