(* ===== verification/TreeTypes.thy ===== *)
theory TreeTypes
  imports Mediation PlugInProps
begin

text \<open>
  The parse trees a session works on are well-formed objects of the JSON library: whatever paths the
  plug-ins read and write, the keys of every object stay sorted and unique, so that a lookup finds the
  value that was put there. Stated for every operation on trees, for the rewriting and the plug-ins, and
  for all runs of a session.
\<close>

section \<open>Sorted objects\<close>

lemma str_less_trans: "str_less s t \<Longrightarrow> str_less t u \<Longrightarrow> str_less s u"
proof (induction s t arbitrary: u rule: str_less.induct)
  case (3 x s y t)
  then show ?case by (cases u) (auto split: if_splits)
next
  case (1 t)
  then show ?case by (cases u; cases t) auto
qed simp

lemma str_less_total: "s \<noteq> t \<Longrightarrow> \<not> str_less s t \<Longrightarrow> str_less t s"
proof (induction s t rule: str_less.induct)
  case (3 x s y t)
  have "x \<noteq> y \<Longrightarrow> (of_char x :: nat) < of_char y \<or> (of_char y :: nat) < of_char x"
    by (simp add: nat_neq_iff [symmetric])
  with 3 show ?case by (auto split: if_splits)
qed auto

lemma keys_obj_put: "fst ` set (obj_put k v kvs) = insert k (fst ` set kvs)"
  by (induction k v kvs rule: obj_put.induct) auto

lemma obj_put_sorted: "sorted_wrt str_less (map fst kvs) \<Longrightarrow> sorted_wrt str_less (map fst (obj_put k v kvs))"
proof (induction k v kvs rule: obj_put.induct)
  case (2 k v k' v' kvs)
  show ?case
  proof (cases "k = k' \<or> str_less k k'")
    case True
    with 2(2) show ?thesis using str_less_trans [of k k'] by auto
  next
    case False
    then have "str_less k' k" using str_less_total by blast
    with 2 False keys_obj_put [of k v kvs] show ?thesis by (auto simp del: map_of_obj_put)
  qed
qed simp

lemma obj_put_values: "(k', w) \<in> set (obj_put k v kvs) \<Longrightarrow> w = v \<or> (k', w) \<in> set kvs"
  by (induction k v kvs rule: obj_put.induct) (auto split: if_splits)

lemma json_wf_obj: "json_wf (JObj kvs) \<longleftrightarrow> sorted_wrt str_less (map fst kvs) \<and> wf_items kvs"
  by (subst json_wf.simps) (simp add: wf_items_def)

lemma snd_index_items: "snd ` set (index_items n vs) = set vs"
  by (induction vs arbitrary: n) auto

lemma wf_index_items: "wf_items (index_items n vs) \<longleftrightarrow> (\<forall>v \<in> set vs. json_wf v)"
  using snd_index_items [of n vs] unfolding wf_items_def by (metis (no_types, lifting) case_prodI2 image_iff prod.sel(2) split_beta)

lemma json_wf_arr: "json_wf (JArr vs) \<longleftrightarrow> (\<forall>v \<in> set vs. json_wf v)"
  using wf_index_items [of 0 vs] by (subst json_wf.simps) (simp add: wf_items_def)

lemma json_wf_scalar [simp]: "is_primitive j \<Longrightarrow> json_wf j"
  by (subst json_wf.simps) simp

section \<open>Accesses\<close>

lemma wf_field: "json_wf j \<Longrightarrow> field k j = Ret v \<Longrightarrow> json_wf v"
  by (cases "(k, j)" rule: field.cases)
     (auto simp: json_wf_obj json_wf_arr wf_items_def split: option.splits if_splits dest: map_of_SomeD)

lemma wf_set_field:
  assumes "json_wf v" "json_wf j"
  shows "json_wf (set_field k v j)"
proof (cases "(k, v, j)" rule: set_field.cases)
  case (1 k' v' kvs)
  then have kvs: "sorted_wrt str_less (map fst kvs)" "wf_items kvs" using assms(2) by (simp_all add: json_wf_obj)
  have "wf_items (obj_put k' v' kvs)"
    using kvs(2) assms(1) 1 unfolding wf_items_def by (auto dest!: obj_put_values)
  with obj_put_sorted [OF kvs(1)] 1 show ?thesis by (simp add: json_wf_obj)
next
  case (3 i v' vs)
  then have vs: "\<forall>w \<in> set vs. json_wf w" "json_wf v'" using assms by (simp_all add: json_wf_arr)
  have "\<forall>w \<in> set (vs[i := v']). json_wf w" using vs set_update_subset_insert [of vs i v'] by blast
  then show ?thesis using vs 3 by (auto simp: json_wf_arr)
qed (use assms in \<open>auto simp: json_wf_obj json_wf_arr\<close>)

lemma wf_update_at:
  "json_wf j \<Longrightarrow> (\<And>v x v'. json_wf v \<Longrightarrow> f v = Ret (x, v') \<Longrightarrow> json_wf v') \<Longrightarrow> update_at p f j = Ret (x, j') \<Longrightarrow> json_wf j'"
proof (induction p arbitrary: j x j')
  case (Cons k p)
  from Cons.prems(3) obtain v w where "field k j = Ret v" "update_at p f v = Ret (x, w)" "j' = set_field k w j"
    by (auto simp: run_simps)
  with Cons wf_field wf_set_field show ?case by metis
qed auto

lemma wf_read_value: "json_wf j \<Longrightarrow> update_at p (\<lambda>v. Ret (v, v)) j = Ret (x, j') \<Longrightarrow> json_wf x"
proof (induction p arbitrary: j j')
  case (Cons k p)
  from Cons.prems(2) obtain v w where "field k j = Ret v" "update_at p (\<lambda>v. Ret (v, v)) v = Ret (x, w)"
    by (auto simp: run_simps)
  with Cons wf_field show ?case by metis
qed auto

lemma wf_read_at:
  assumes "json_wf j" "read_at p j = Ret (x, j')"
  shows "json_wf x \<and> json_wf j'"
proof
  note r = assms(2) [unfolded read_at_def]
  show "json_wf x" by (rule wf_read_value [OF assms(1) r])
  show "json_wf j'" by (rule wf_update_at [OF assms(1) _ r]) auto
qed

lemma wf_push_back: "json_wf j \<Longrightarrow> json_wf v \<Longrightarrow> push_back j v = Ret j' \<Longrightarrow> json_wf j'"
  by (cases "(j, v)" rule: push_back.cases) (auto simp: json_wf_arr)

lemma wf_with_items:
  assumes "json_wf j" "wf_items kvs" "map fst kvs = map fst (items j)"
  shows "json_wf (with_items j kvs)"
proof (cases j)
  case (JArr vs)
  then show ?thesis using assms(2) by (auto simp: json_wf_arr wf_items_def)
next
  case (JObj kvs')
  then show ?thesis using assms by (simp add: json_wf_obj)
qed (use assms in auto)

section \<open>The rewriting\<close>

lemma wf_rewriting:
  assumes "\<And>d j. expand d = Ret j \<Longrightarrow> json_wf j"
  shows "json_wf j \<Longrightarrow> AclSelectStmt expand t j = Ret j' \<Longrightarrow> json_wf j'"
    "wf_items kvs \<Longrightarrow> select_items expand t kvs = Ret kvs' \<Longrightarrow> wf_items kvs'"
    "json_wf j \<Longrightarrow> AclSelectStmtFromClause expand t j = Ret j' \<Longrightarrow> json_wf j'"
    "wf_items kvs \<Longrightarrow> from_items expand t kvs = Ret r \<Longrightarrow> (case r of Inl j \<Rightarrow> json_wf j | Inr kvs' \<Rightarrow> wf_items kvs')"
  using assms
proof (induction expand t j and expand t kvs and expand t j and expand t kvs
    arbitrary: j' and kvs' and j' and r
    rule: AclSelectStmt_select_items_AclSelectStmtFromClause_from_items.induct)
  case (1 expand t j)
  then show ?case
    by (auto simp: AclSelectStmt.simps [of _ _ j] run_simps wf_items_items keys_kept split: if_splits intro!: wf_with_items)
next
  case (3 expand t k v kvs)
  then show ?case by (auto simp: run_simps split: if_splits)
next
  case (4 expand t j)
  show ?case
  proof (cases "is_primitive j")
    case False
    with 4(3) obtain q where q: "from_items expand t (items j) = Ret q"
        "j' = (case q of Inl i \<Rightarrow> i | Inr kvs \<Rightarrow> with_items j kvs)"
      by (cases "from_items expand t (items j)")
         (auto simp: AclSelectStmtFromClause.simps [of _ _ j] split: sum.splits)
    with 4(1) [OF False _ q(1)] 4(2,4) wf_items_items False from_keys_kept wf_with_items show ?thesis
      by (cases q) auto
  qed (use 4 in \<open>simp add: AclSelectStmtFromClause.simps [of _ _ j]\<close>)
next
  case (6 expand t k v kvs)
  have tail: "case map_sum id (Cons (k, w)) r of Inl j \<Rightarrow> json_wf j | Inr kvs' \<Rightarrow> wf_items kvs'"
    if "case r of Inl j \<Rightarrow> json_wf j | Inr kvs' \<Rightarrow> wf_items kvs'" "json_wf w" for r w
    using that by (cases r) simp_all
  show ?case
  proof (cases "k = ''RangeVar''")
    case True
    with 6(6) obtain x v' n where x: "read_at [Key ''relname''] v = Ret (x, v')" "get_string x = Ret n"
      by (auto simp: run_simps)
    from wf_read_at [OF _ x(1)] 6(5) have "json_wf v'" by simp
    show ?thesis
    proof (cases "tracked t n")
      case False
      with 6(6) True x obtain q where "from_items expand t kvs = Ret q" "r = map_sum id (Cons (k, v')) q"
        by (auto simp: run_simps)
      with 6(1) [OF True x(1) refl x(2) False] 6(5,7) tail \<open>json_wf v'\<close> show ?thesis by simp
    next
      case T: True
      with 6(6,7) True x show ?thesis by (auto simp: run_simps)
    qed
  next
    case False
    with 6(6) obtain w q where w: "(if k = ''SelectStmt'' then AclSelectStmt expand t v
          else if \<not> is_primitive v then AclSelectStmtFromClause expand t v else Ret v) = Ret w"
        "from_items expand t kvs = Ret q" "r = map_sum id (Cons (k, w)) q"
      unfolding from_items.simps if_not_P [OF False] by (auto simp: run_simps)
    have "json_wf w" using w(1) 6(2,3) 6(5,7) False by (auto split: if_splits)
    moreover have "case q of Inl j \<Rightarrow> json_wf j | Inr kvs' \<Rightarrow> wf_items kvs'"
      using 6(4) [OF False w(1)] w(2) 6(5,7) by simp
    ultimately show ?thesis using tail w(3) by simp
  qed
qed auto

lemma wf_Acl_json:
  assumes "\<And>d j. expand d = Ret j \<Longrightarrow> json_wf j"
  shows "json_wf j \<Longrightarrow> Acl_json expand t j = Ret j' \<Longrightarrow> json_wf j'"
    "wf_items kvs \<Longrightarrow> Acl_items expand t kvs = Ret kvs' \<Longrightarrow> wf_items kvs' \<and> map fst kvs' = map fst kvs"
  using assms
proof (induction expand t j and expand t kvs arbitrary: j' and kvs' rule: Acl_json_Acl_items.induct)
  case (1 expand t j)
  show ?case
  proof (cases "is_primitive j")
    case False
    with 1(3) obtain kvs where q: "Acl_items expand t (items j) = Ret kvs" "j' = with_items j kvs"
      by (auto simp: Acl_json.simps [of _ _ j] run_simps)
    with 1(1) [OF False _ q(1)] 1(2,4) wf_items_items False wf_with_items show ?thesis by auto
  qed (use 1 in \<open>simp add: Acl_json.simps [of _ _ j]\<close>)
next
  case (3 expand t k v kvs)
  from 3(4) obtain w ws where w: "(if k = ''SelectStmt'' then AclSelectStmt expand t v
        else if \<not> is_primitive v then Acl_json expand t v else Ret v) = Ret w"
      "Acl_items expand t kvs = Ret ws" "kvs' = (k, w) # ws"
    by (auto simp: run_simps)
  have "json_wf w" using w(1) 3(1) 3(3,5) wf_rewriting(1) [of expand v t w] by (auto split: if_splits)
  with 3(2) [OF w(1) _ w(2)] 3(3,5) w(3) show ?case by simp
qed simp


section \<open>The plug-ins\<close>

definition trees_ok :: "env \<Rightarrow> bool" where
  \<comment> \<open>the JSON parser returns well-formed values, for the tree of a query and for the expanded template\<close>
  "trees_ok env \<longleftrightarrow> (\<forall>q j. e_pg_parse env q = Inr (Ret j) \<longrightarrow> json_wf j) \<and> (\<forall>d j. e_expand env d = Ret j \<longrightarrow> json_wf j)"

definition tree_wf :: "Session \<Rightarrow> bool" where
  "tree_wf s \<longleftrightarrow> json_wf (query_json s)"

lemma tree_wf_simps [simp]:
  "tree_wf (set_request b s) = tree_wf s" "tree_wf (set_response b s) = tree_wf s" "tree_wf (set_json j s) = json_wf j"
  "tree_wf (set_query q s) = json_wf (q_json q)" "tree_wf (s\<lparr>parameters := ps\<rparr>) = tree_wf s"
  "tree_wf (s\<lparr>st := t\<rparr>) = tree_wf s"
  by (simp_all add: tree_wf_def query_json_def set_request_def set_response_def set_json_def set_query_def)

lemma tree_touch: "tree_wf s \<Longrightarrow> act_all tree_wf (touch_json p s)"
  by (auto simp: touch_json_def tree_wf_def dest: wf_read_at split: run.splits)

lemma tree_pure: "tree_wf s \<Longrightarrow> act_all tree_wf (s, r)"
  by simp

lemma tree_names: "tree_wf s \<Longrightarrow> act_all tree_wf (drop_table_names p is s)"
  by (induction "is" arbitrary: s) (auto intro!: act_all_then tree_touch)

lemma tree_constraints: "tree_wf s \<Longrightarrow> act_all tree_wf (inspect_constraints is p fl s)"
  by (induction "is" arbitrary: s fl) (auto intro!: act_all_then tree_touch)

lemma tree_column: "tree_wf s \<Longrightarrow> act_all tree_wf (inspect_column p fl s)"
  unfolding inspect_column_def
  by (auto intro!: act_all_then tree_touch tree_constraints split del: if_split split: if_split)

lemma tree_table_constraint: "tree_wf s \<Longrightarrow> act_all tree_wf (inspect_table_constraint p fl s)"
  unfolding inspect_table_constraint_def
  by (auto intro!: act_all_then tree_touch split del: if_split split: if_split prod.split)

lemma tree_elements: "tree_wf s \<Longrightarrow> act_all tree_wf (inspect_elements is p fl s)"
  by (induction "is" arbitrary: s fl) (auto intro!: act_all_then tree_column tree_table_constraint)

lemma tree_lookup: "tree_wf s \<Longrightarrow> act_all tree_wf (lookup_rolsuper env s)"
  unfolding lookup_rolsuper_def by (auto intro!: act_all_then)

lemma wf_parsed: "trees_ok env \<Longrightarrow> Parse (e_pg_parse env) q = Ret (qu, e) \<Longrightarrow> json_wf (q_json qu)"
  by (auto simp: Parse_def trees_ok_def run_simps Query_new_def split: sum.splits)

lemma wf_rewritten: "trees_ok env \<Longrightarrow> json_wf (q_json q) \<Longrightarrow> Acl (e_expand env) t q = Ret q' \<Longrightarrow> json_wf (q_json q')"
  using wf_Acl_json(1) [of "e_expand env" "q_json q" t] by (auto simp: Acl_def trees_ok_def run_simps)

lemma wf_behavior: "json_wf j \<Longrightarrow> set_behavior p j = Ret (u, j') \<Longrightarrow> json_wf j'"
  unfolding set_behavior_def by (erule wf_update_at [rotated 2]) auto

lemma tree_plugins:
  assumes "trees_ok env" "tree_wf s"
  shows "act_all tree_wf (TranslateProxyCommandPlugIn env s)" "act_all tree_wf (ParseQueryPlugIn env s)"
    "act_all tree_wf (AclQueryPlugIn env s)" "act_all tree_wf (DropTablePlugIn env s)"
    "act_all tree_wf (EnsureNewTableHasIdPlugIn env s)" "act_all tree_wf (RestrictInternalTableAccessPlugIn env s)"
proof -
  show "act_all tree_wf (TranslateProxyCommandPlugIn env s)"
    using assms(2) unfolding TranslateProxyCommandPlugIn_def
    by (auto intro!: act_all_then split: prod.splits split del: if_split split: if_split)
  show "act_all tree_wf (ParseQueryPlugIn env s)"
    using assms unfolding ParseQueryPlugIn_def
    by (auto intro!: act_all_then wf_parsed [OF assms(1)] split: prod.splits split del: if_split split: if_split)
  show "act_all tree_wf (AclQueryPlugIn env s)"
    using assms unfolding AclQueryPlugIn_def Let_def
    by (auto intro!: act_all_then simp: tree_wf_def query_json_def intro: wf_rewritten split del: if_split split: if_split)
  show "act_all tree_wf (DropTablePlugIn env s)"
    using assms unfolding DropTablePlugIn_def
    by (auto intro!: act_all_then tree_touch tree_names intro: wf_behavior simp: tree_wf_def
        split del: if_split split: if_split option.splits exn.splits)
      (blast intro: wf_behavior)
  show "act_all tree_wf (EnsureNewTableHasIdPlugIn env s)"
    using assms unfolding EnsureNewTableHasIdPlugIn_def
    by (auto intro!: act_all_then tree_touch tree_elements split del: if_split split: if_split option.split)
  show "act_all tree_wf (RestrictInternalTableAccessPlugIn env s)"
    using assms by (simp add: RestrictInternalTableAccessPlugIn_def)
qed

lemma tree_post_plugins:
  assumes "tree_wf s"
  shows "act_all tree_wf (UpdateParametersPlugIn env s)" "act_all tree_wf (UpdateSchemaPlugIn env s)"
proof -
  show "act_all tree_wf (UpdateParametersPlugIn env s)"
    using assms unfolding UpdateParametersPlugIn_def
    by (auto intro!: act_all_then tree_touch tree_lookup split del: if_split split: if_split option.split)
  show "act_all tree_wf (UpdateSchemaPlugIn env s)"
    using assms unfolding UpdateSchemaPlugIn_def
    by (auto intro!: act_all_then tree_touch split del: if_split split: if_split option.split prod.split)
qed

lemma tree_pre_chain:
  assumes "trees_ok env" "tree_wf s"
  shows "act_all tree_wf (apply_pre pre_request_plugins env s)"
proof -
  have "\<forall>p \<in> set ps. \<forall>s. tree_wf s \<longrightarrow> act_all tree_wf (p env s) \<Longrightarrow> tree_wf s \<Longrightarrow> act_all tree_wf (apply_pre ps env s)" for ps s
    by (induction ps arbitrary: s) (auto intro!: act_all_then)
  from this [OF _ assms(2), of pre_request_plugins] tree_plugins [OF assms(1)] show ?thesis
    by (simp add: pre_request_plugins_def del: apply_pre.simps)
qed

lemma tree_post_chain: "tree_wf s \<Longrightarrow> act_all tree_wf (apply_post post_response_plugins env s)"
  by (auto simp: post_response_plugins_def intro!: act_all_then tree_post_plugins)

section \<open>All runs of a session\<close>

lemma tree_ctx [simp]:
  "tree_wf (wait_for fd evs s) = tree_wf s" "tree_wf (stop_waiting s) = tree_wf s" "tree_wf (fail_with e s) = tree_wf s"
  "tree_wf (s\<lparr>ctx := (ctx s)\<lparr>c_initiated := b\<rparr>\<rparr>) = tree_wf s"
  by (simp_all add: tree_wf_def query_json_def wait_for_def stop_waiting_def fail_with_def)

lemma tree_respond: "tree_wf s \<Longrightarrow> respond_error err s = Ret (n, s') \<Longrightarrow> tree_wf s'"
  by (auto simp: respond_error_def run_simps)

lemma tree_initiate:
  assumes "tree_wf s" "Initiate env s = Ret (n, s')"
  shows "tree_wf s'"
proof (cases "Buffer_Size (request_of s) \<le> 8")
  case False
  with assms(2) obtain ps where ps: "parse_params (buf (request_of s)) 8 (parameters s) = Ret ps"
    by (auto simp: Initiate_def run_simps)
  obtain t r where l: "lookup_rolsuper env (s\<lparr>parameters := ps\<rparr>) = (t, r)" by fastforce
  from False assms(2) ps l have "s' = t\<lparr>ctx := (ctx t)\<lparr>c_initiated := True\<rparr>\<rparr>"
    by (auto simp: Initiate_def run_simps)
  with l tree_lookup [of "s\<lparr>parameters := ps\<rparr>" env] assms(1) show ?thesis by simp
qed (use assms in \<open>simp add: Initiate_def\<close>)

lemma tree_action:
  assumes "trees_ok env" "tree_wf s" "session_action env n s = Ret (n', s')"
  shows "tree_wf s'"
proof (cases n)
  case INITIATE
  with assms tree_initiate show ?thesis by (simp add: session_action_def)
next
  case APPLY_PRE_REQUEST_PLUGINS
  with assms(3) tree_pre_chain [OF assms(1,2)] tree_respond show ?thesis
    by (auto simp: session_action_def ApplyPreRequestPlugins_def split: prod.splits run.splits if_splits)
next
  case APPLY_POST_RESPONSE_PLUGINS
  with assms(3) tree_post_chain [OF assms(2), of env] tree_respond show ?thesis
    by (auto simp: session_action_def ApplyPostResponsePlugins_def split: prod.splits run.splits)
next
  case RESET_CONTEXT
  with assms show ?thesis
    by (auto simp: session_action_def ResetContext_def tree_wf_def query_json_def Context_Reset_def Context_new_def Query_new_def)
qed (use assms in \<open>auto simp: session_action_def PrepareToReceiveRequest_def PrepareToForwardRequest_def
      PrepareToReceiveResponse_def PrepareToForwardResponse_def ForwardRequest_def ForwardResponse_def
      ReceiveRequest_def ReceiveResponse_def run_simps Let_def split: prod.splits if_splits\<close>)

lemma tree_new: "tree_wf (Session_new cl sv t)"
  by (simp add: tree_wf_def query_json_def Session_new_def Context_new_def Query_new_def)

interpretation trees: machine session_action trees_ok PREPARE_TO_RECEIVE_REQUEST
    "\<lambda>s. \<exists>cl sv t. s = Session_new cl sv t" "\<lambda>n. tree_wf"
  by unfold_locales (use tree_new tree_action in blast)+




lemma wf_join_expr: "json_wf (join_expr d)"
  by (simp add: join_expr_def Let_def equals_def column_ref_def str_node_def range_var_def json_wf_obj json_wf_arr
      split: option.split)

lemma sample_trees_ok: "trees_ok (sample_env\<lparr>e_sock := es\<rparr>)"
proof -
  have "json_wf (sample_select (range_var None ''docs''))" by code_simp
  then show ?thesis by (simp add: trees_ok_def wf_join_expr sample_env_def)
qed


end
